(* ===== verification/Prelude.thy ===== *)
theory Prelude
  imports Main "HOL-Library.Word" "HOL-Library.AList"
begin

text \<open>
  Shared vocabulary of the development.

  \<^item> Bytes. A Rust \<open>u8\<close> is a HOL \<open>char\<close>, which has exactly 256 values; \<open>Vec<u8>\<close>,
    \<open>Bytes\<close>, \<open>&[u8]\<close> and the UTF-8 contents of a \<open>String\<close> are lists of them, so that
    the literal \<open>b'O'\<close> of the source is \<open>CHR ''O''\<close> and \<open>b"EBNLTURMHC"\<close> is
    \<open>''EBNLTURMHC''\<close>. Lengths are therefore byte lengths, as \<open>len()\<close> is in Rust.
  \<^item> Integers. \<open>u16\<close>, \<open>u32\<close>, \<open>u64\<close> are words; \<open>usize\<close> is \<open>nat\<close> with
    \<open>checked_add\<close>, \<open>saturating_add\<close> and \<open>saturating_sub\<close> written out at 64 bits.
    Sums of lengths of live buffers cannot reach \<open>2 ^ 64\<close> and are plain additions.
  \<^item> Results. \<open>Result<T, E>\<close> is \<open>'e + 'a\<close>, with \<open>Inl\<close> the error; the \<open>?\<close> operator is
    \<open>bind_r\<close>. A method on \<open>&mut self\<close> that may fail is a function from the state to a
    result and a state: what was written before an early return stays written, as in Rust;
    sequencing such calls with \<open>?\<close> is \<open>bind_s\<close>.
  \<^item> \<open>BTreeMap\<close> is an association list with distinct keys. The source looks keys up,
    inserts, removes, retains and sums over entries; none of it depends on their order.
\<close>

unbundle bit_operations_syntax

type_synonym byte = char
type_synonym bytes = string
type_synonym u16 = "16 word"
type_synonym u32 = "32 word"
type_synonym u64 = "64 word"

named_theorems result_simps \<open>inversion of the result combinators\<close>

section \<open>Results\<close>

fun bind_r :: "'e + 'a \<Rightarrow> ('a \<Rightarrow> 'e + 'b) \<Rightarrow> 'e + 'b" where
  "bind_r (Inl e) f = Inl e"
| "bind_r (Inr x) f = f x"

definition ok_or :: "'e \<Rightarrow> 'a option \<Rightarrow> 'e + 'a" where
  "ok_or e m = (case m of None \<Rightarrow> Inl e | Some x \<Rightarrow> Inr x)"

definition ensure :: "bool \<Rightarrow> 'e \<Rightarrow> 'e + unit" where
  "ensure c e = (if c then Inr () else Inl e)"

definition map_r :: "('a \<Rightarrow> 'b) \<Rightarrow> 'e + 'a \<Rightarrow> 'e + 'b" where
  "map_r f r = bind_r r (\<lambda>x. Inr (f x))"

definition is_ok :: "'e + 'a \<Rightarrow> bool" where
  "is_ok r = (case r of Inl _ \<Rightarrow> False | Inr _ \<Rightarrow> True)"

text \<open>\<open>iter.map(f).collect::<Result<Vec<_>>>()\<close>: the first error, or all results in order.\<close>

fun collect_r :: "('a \<Rightarrow> 'e + 'b) \<Rightarrow> 'a list \<Rightarrow> 'e + 'b list" where
  "collect_r f [] = Inr []"
| "collect_r f (x # xs) =
     bind_r (f x) (\<lambda>y. bind_r (collect_r f xs) (\<lambda>ys. Inr (y # ys)))"

text \<open>A \<open>for\<close> loop over a list whose body may return early with an error.\<close>

fun fold_r :: "('s \<Rightarrow> 'a \<Rightarrow> 'e + 's) \<Rightarrow> 's \<Rightarrow> 'a list \<Rightarrow> 'e + 's" where
  "fold_r f s [] = Inr s"
| "fold_r f s (x # xs) = bind_r (f s x) (\<lambda>s'. fold_r f s' xs)"

lemma bind_r_cong [fundef_cong]:
  "m = m' \<Longrightarrow> (\<And>x. m' = Inr x \<Longrightarrow> f x = g x) \<Longrightarrow> bind_r m f = bind_r m' g"
  by (cases m') auto

lemma bind_r_Inr_iff [result_simps]:
  "bind_r m f = Inr y \<longleftrightarrow> (\<exists>x. m = Inr x \<and> f x = Inr y)"
  by (cases m) auto

lemma bind_r_Inl_iff [result_simps]:
  "bind_r m f = Inl e \<longleftrightarrow> m = Inl e \<or> (\<exists>x. m = Inr x \<and> f x = Inl e)"
  by (cases m) auto

lemma bind_r_assoc: "bind_r (bind_r m f) g = bind_r m (\<lambda>x. bind_r (f x) g)"
  by (cases m) auto

lemma ok_or_simps [simp]: "ok_or e None = Inl e" "ok_or e (Some x) = Inr x"
  by (simp_all add: ok_or_def)

lemma ok_or_Inr_iff [result_simps]: "ok_or e m = Inr x \<longleftrightarrow> m = Some x"
  by (cases m) auto

lemma ok_or_Inl_iff [result_simps]: "ok_or e m = Inl e' \<longleftrightarrow> m = None \<and> e' = e"
  by (cases m) auto

lemma ensure_simps [simp]: "ensure True e = Inr ()" "ensure False e = Inl e"
  by (simp_all add: ensure_def)

lemma ensure_Inr_iff [result_simps]: "ensure c e = Inr u \<longleftrightarrow> c"
  by (simp add: ensure_def)

lemma ensure_Inl_iff [result_simps]: "ensure c e = Inl e' \<longleftrightarrow> \<not> c \<and> e' = e"
  by (auto simp: ensure_def)

lemma map_r_simps [simp]: "map_r f (Inl e) = Inl e" "map_r f (Inr x) = Inr (f x)"
  by (simp_all add: map_r_def)

lemma map_r_Inr_iff [result_simps]: "map_r f r = Inr y \<longleftrightarrow> (\<exists>x. r = Inr x \<and> y = f x)"
  by (cases r) auto

lemma is_ok_simps [simp]: "is_ok (Inr x)" "\<not> is_ok (Inl e)"
  by (simp_all add: is_ok_def)

lemma is_ok_iff: "is_ok r \<longleftrightarrow> (\<exists>x. r = Inr x)"
  by (cases r) auto

lemma collect_r_Inr_iff:
  "collect_r f xs = Inr ys \<longleftrightarrow> list_all2 (\<lambda>x y. f x = Inr y) xs ys"
  by (induction xs arbitrary: ys) (auto simp: result_simps list_all2_Cons1)

lemma fold_r_append: "fold_r f s (xs @ ys) = bind_r (fold_r f s xs) (\<lambda>s'. fold_r f s' ys)"
  by (induction xs arbitrary: s) (auto simp: bind_r_assoc)

lemma fold_r_invariant:
  assumes "fold_r f s xs = Inr t" and "P s"
    and "\<And>s x t. x \<in> set xs \<Longrightarrow> P s \<Longrightarrow> f s x = Inr t \<Longrightarrow> P t"
  shows "P t"
  using assms
proof (induction xs arbitrary: s)
  case Nil
  then show ?case by simp
next
  case (Cons x xs)
  from Cons.prems(1) obtain s' where s': "f s x = Inr s'" "fold_r f s' xs = Inr t"
    by (auto simp: result_simps)
  have "P s'" using Cons.prems(2,3) s'(1) by (meson list.set_intros(1))
  then show ?case using Cons.IH [OF s'(2)] Cons.prems(3) by (meson list.set_intros(2))
qed

section \<open>Stateful operations that may fail\<close>

fun bind_s :: "('s \<Rightarrow> ('e + 'a) \<times> 's) \<Rightarrow> ('a \<Rightarrow> 's \<Rightarrow> ('e + 'b) \<times> 's) \<Rightarrow> 's \<Rightarrow> ('e + 'b) \<times> 's" where
  "bind_s m f s = (case m s of (Inl e, s') \<Rightarrow> (Inl e, s') | (Inr x, s') \<Rightarrow> f x s')"

definition return_s :: "'a \<Rightarrow> 's \<Rightarrow> ('e + 'a) \<times> 's" where
  "return_s x s = (Inr x, s)"

definition fail_s :: "'e \<Rightarrow> 's \<Rightarrow> ('e + 'a) \<times> 's" where
  "fail_s e s = (Inl e, s)"

definition modify_s :: "('s \<Rightarrow> 's) \<Rightarrow> 's \<Rightarrow> ('e + unit) \<times> 's" where
  "modify_s f s = (Inr (), f s)"

text \<open>A check of the state that leaves it alone, and \<open>expr?\<close> on a result.\<close>

definition check_s :: "('s \<Rightarrow> 'e + 'a) \<Rightarrow> 's \<Rightarrow> ('e + 'a) \<times> 's" where
  "check_s f s = (f s, s)"

lemmas state_defs = return_s_def fail_s_def modify_s_def check_s_def

lemma bind_s_Inr_iff [result_simps]:
  "bind_s m f s = (Inr y, t) \<longleftrightarrow> (\<exists>x s'. m s = (Inr x, s') \<and> f x s' = (Inr y, t))"
  by (auto split: prod.splits sum.splits)

lemma state_Inr_iffs [result_simps]:
  "return_s x s = (Inr y, t) \<longleftrightarrow> y = x \<and> t = s"
  "fail_s e s = (Inr y, t) \<longleftrightarrow> False"
  "modify_s g s = (Inr u, t) \<longleftrightarrow> t = g s"
  "check_s h s = (Inr z, t) \<longleftrightarrow> h s = Inr z \<and> t = s"
  by (auto simp: state_defs)

declare bind_s.simps [simp del]

lemma bind_s_simps [simp]:
  "m s = (Inl e, s') \<Longrightarrow> bind_s m f s = (Inl e, s')"
  "m s = (Inr x, s') \<Longrightarrow> bind_s m f s = f x s'"
  by (simp_all add: bind_s.simps)

section \<open>Arithmetic on \<open>usize\<close>\<close>

definition usize_max :: nat where
  "usize_max = 2 ^ 64 - 1"

definition checked_add :: "nat \<Rightarrow> nat \<Rightarrow> nat option" where
  "checked_add a b = (if a + b \<le> usize_max then Some (a + b) else None)"

definition saturating_add :: "nat \<Rightarrow> nat \<Rightarrow> nat" where
  "saturating_add a b = min (a + b) usize_max"

definition saturating_sub :: "nat \<Rightarrow> nat \<Rightarrow> nat" where
  "saturating_sub a b = a - b"

lemma checked_add_Some_iff [result_simps]:
  "checked_add a b = Some c \<longleftrightarrow> c = a + b \<and> a + b \<le> usize_max"
  by (auto simp: checked_add_def)

lemma checked_add_None_iff [result_simps]: "checked_add a b = None \<longleftrightarrow> usize_max < a + b"
  by (auto simp: checked_add_def)

section \<open>Big-endian integers\<close>

definition to_be_bytes :: "u32 \<Rightarrow> bytes" where
  "to_be_bytes w =
     [char_of (unat w div 2 ^ 24), char_of (unat w div 2 ^ 16), char_of (unat w div 2 ^ 8),
      char_of (unat w)]"

fun be_nat :: "bytes \<Rightarrow> nat" where
  "be_nat [] = 0"
| "be_nat (c # cs) = of_char c * 256 ^ length cs + be_nat cs"

definition from_be_bytes :: "bytes \<Rightarrow> u32" where
  "from_be_bytes bs = word_of_nat (be_nat bs)"

definition from_be_bytes16 :: "bytes \<Rightarrow> u16" where
  "from_be_bytes16 bs = word_of_nat (be_nat bs)"

lemma length_to_be_bytes [simp]: "length (to_be_bytes w) = 4"
  by (simp add: to_be_bytes_def)

lemma be_nat_bound: "be_nat bs < 256 ^ length bs"
proof (induction bs)
  case Nil
  then show ?case by simp
next
  case (Cons c cs)
  have "(of_char c :: nat) < 256" by simp
  then have "(of_char c :: nat) \<le> 255" by linarith
  then have "of_char c * 256 ^ length cs \<le> 255 * (256 :: nat) ^ length cs"
    by (rule mult_le_mono1)
  then have "of_char c * 256 ^ length cs + be_nat cs < 256 * (256 :: nat) ^ length cs"
    using Cons.IH by linarith
  then show ?case by simp
qed

lemma div_mod_256_digits:
  fixes n :: nat
  assumes "n < 4294967296"
  shows "n div 16777216 mod 256 * 16777216 + (n div 65536 mod 256 * 65536 +
    (n div 256 mod 256 * 256 + n mod 256)) = n"
proof -
  have "n div 16777216 < 256" using assms by (simp add: less_mult_imp_div_less)
  then have "n div 16777216 mod 256 = n div 16777216" by simp
  moreover have "n div 65536 = n div 16777216 * 256 + n div 65536 mod 256"
    using div_mult_mod_eq [of "n div 65536" 256] by (simp add: div_mult2_eq [symmetric])
  moreover have "n div 256 = n div 65536 * 256 + n div 256 mod 256"
    using div_mult_mod_eq [of "n div 256" 256] by (simp add: div_mult2_eq [symmetric])
  moreover have "n = n div 256 * 256 + n mod 256" by simp
  ultimately show ?thesis by linarith
qed

lemma be_nat_to_be_bytes: "be_nat (to_be_bytes w) = unat w"
proof -
  have "unat w < 4294967296" using unsigned_less [of w, where ?'a = nat] by simp
  then show ?thesis using div_mod_256_digits [of "unat w"] by (simp add: to_be_bytes_def)
qed

lemma from_to_be_bytes [simp]: "from_be_bytes (to_be_bytes w) = w"
  by (simp add: from_be_bytes_def be_nat_to_be_bytes)

lemma be_nat_inj:
  "length xs = length ys \<Longrightarrow> be_nat xs = be_nat ys \<Longrightarrow> xs = ys"
proof (induction xs ys rule: list_induct2)
  case Nil
  then show ?case by simp
next
  case (Cons x xs y ys)
  let ?b = "256 ^ length ys :: nat"
  have xs: "be_nat xs < ?b" and ys: "be_nat ys < ?b"
    using be_nat_bound [of xs] be_nat_bound [of ys] Cons.hyps by simp_all
  have eq: "of_char x * ?b + be_nat xs = of_char y * ?b + be_nat ys"
    using Cons.prems Cons.hyps by simp
  have "(of_char x :: nat) = of_char y"
    using arg_cong [OF eq, of "\<lambda>n. n div ?b"] xs ys by simp
  then have "x = y" and "be_nat xs = be_nat ys" using eq by simp_all
  with Cons.IH show ?case by simp
qed

lemma to_from_be_bytes:
  assumes "length bs = 4"
  shows "to_be_bytes (from_be_bytes bs) = bs"
proof (rule be_nat_inj)
  have "be_nat bs < 2 ^ 32" using be_nat_bound [of bs] assms by simp
  then show "be_nat (to_be_bytes (from_be_bytes bs)) = be_nat bs"
    by (simp add: be_nat_to_be_bytes from_be_bytes_def unat_of_nat take_bit_nat_eq_self)
qed (simp add: assms)

definition to_be_bytes16 :: "u16 \<Rightarrow> bytes" where
  "to_be_bytes16 w = [char_of (unat w div 256), char_of (unat w)]"

lemma length_to_be_bytes16 [simp]: "length (to_be_bytes16 w) = 2"
  by (simp add: to_be_bytes16_def)

lemma be_nat_to_be_bytes16: "be_nat (to_be_bytes16 w) = unat w"
proof -
  have "unat w < 65536" using unsigned_less [of w, where ?'a = nat] by simp
  then have "unat w div 256 mod 256 = unat w div 256" by (simp add: less_mult_imp_div_less)
  then show ?thesis by (simp add: to_be_bytes16_def)
qed

lemma from_to_be_bytes16 [simp]: "from_be_bytes16 (to_be_bytes16 w) = w"
  by (simp add: from_be_bytes16_def be_nat_to_be_bytes16)

lemma to_from_be_bytes16:
  assumes "length bs = 2"
  shows "to_be_bytes16 (from_be_bytes16 bs) = bs"
proof (rule be_nat_inj)
  have "be_nat bs < 2 ^ 16" using be_nat_bound [of bs] assms by simp
  then show "be_nat (to_be_bytes16 (from_be_bytes16 bs)) = be_nat bs"
    by (simp add: be_nat_to_be_bytes16 from_be_bytes16_def unat_of_nat take_bit_nat_eq_self)
qed (simp add: assms)

end
