(* ===== verification/Text.thy ===== *)
theory Text
  imports Prelude
begin

text \<open>
  What the program uses of Rust's \<open>core::str\<close>, \<open>core::num\<close> and \<open>core::net\<close>: prefix and
  suffix stripping, splitting, ASCII classes, UTF-8 validation, decimal numbers and the
  textual form of IP addresses, on byte strings. The definitions follow the documented
  behaviour of the standard library and, for \<open>IpAddr::from_str\<close>, the order in which its
  recursive-descent parser tries the alternatives.
\<close>

section \<open>Splitting and searching\<close>

abbreviation ord :: "byte \<Rightarrow> nat" where
  "ord c \<equiv> of_char c"

abbreviation (input) NUL :: byte where "NUL \<equiv> CHR 0x00"
abbreviation (input) HT :: byte where "HT \<equiv> CHR 0x09"
abbreviation (input) LF :: byte where "LF \<equiv> CHR 0x0A"
abbreviation (input) CR :: byte where "CR \<equiv> CHR 0x0D"
abbreviation (input) SP :: byte where "SP \<equiv> CHR 0x20"

fun position :: "('a \<Rightarrow> bool) \<Rightarrow> 'a list \<Rightarrow> nat option" where
  "position P [] = None"
| "position P (x # xs) = (if P x then Some 0 else map_option Suc (position P xs))"

fun strip_prefix :: "bytes \<Rightarrow> bytes \<Rightarrow> bytes option" where
  "strip_prefix [] s = Some s"
| "strip_prefix (p # ps) [] = None"
| "strip_prefix (p # ps) (c # cs) = (if p = c then strip_prefix ps cs else None)"

definition strip_suffix :: "bytes \<Rightarrow> bytes \<Rightarrow> bytes option" where
  "strip_suffix p s = map_option rev (strip_prefix (rev p) (rev s))"

definition starts_with :: "bytes \<Rightarrow> bytes \<Rightarrow> bool" where
  "starts_with p s = (strip_prefix p s \<noteq> None)"

definition ends_with :: "bytes \<Rightarrow> bytes \<Rightarrow> bool" where
  "ends_with p s = (strip_suffix p s \<noteq> None)"

fun split_once :: "byte \<Rightarrow> bytes \<Rightarrow> (bytes \<times> bytes) option" where
  "split_once d [] = None"
| "split_once d (c # cs) =
     (if c = d then Some ([], cs)
      else map_option (\<lambda>(a, b). (c # a, b)) (split_once d cs))"

text \<open>\<open>s.split(d)\<close>: one piece more than there are separators, never the empty list.\<close>

fun split_on :: "byte \<Rightarrow> bytes \<Rightarrow> bytes list" where
  "split_on d [] = [[]]"
| "split_on d (c # cs) =
     (if c = d then [] # split_on d cs
      else (case split_on d cs of [] \<Rightarrow> [[c]] | p # ps \<Rightarrow> (c # p) # ps))"

fun join :: "bytes \<Rightarrow> bytes list \<Rightarrow> bytes" where
  "join sep [] = []"
| "join sep [p] = p"
| "join sep (p # q # ps) = p @ sep @ join sep (q # ps)"

lemma position_Some_iff:
  "position P xs = Some i \<longleftrightarrow> i < length xs \<and> P (xs ! i) \<and> (\<forall>j < i. \<not> P (xs ! j))"
proof (induction xs arbitrary: i)
  case Nil
  then show ?case by simp
next
  case (Cons x xs)
  show ?case
    by (cases i) (auto simp: Cons.IH all_conj_distrib less_Suc_eq_0_disj)
qed

lemma position_None_iff [simp]: "position P xs = None \<longleftrightarrow> (\<forall>x \<in> set xs. \<not> P x)"
  by (induction xs) auto

lemma position_append:
  "\<forall>x \<in> set xs. \<not> P x \<Longrightarrow> P y \<Longrightarrow> position P (xs @ y # ys) = Some (length xs)"
  by (induction xs) auto

lemma strip_prefix_Some_iff [simp]: "strip_prefix p s = Some r \<longleftrightarrow> s = p @ r"
  by (induction p s rule: strip_prefix.induct) auto

lemma strip_prefix_append [simp]: "strip_prefix p (p @ r) = Some r"
  by simp

lemma strip_suffix_Some_iff [simp]: "strip_suffix p s = Some r \<longleftrightarrow> s = r @ p"
  by (auto simp: strip_suffix_def) (metis rev_append rev_rev_ident)

lemma starts_with_iff: "starts_with p s \<longleftrightarrow> (\<exists>r. s = p @ r)"
  by (auto simp: starts_with_def)

lemma ends_with_iff: "ends_with p s \<longleftrightarrow> (\<exists>r. s = r @ p)"
  by (auto simp: ends_with_def)

lemma split_once_Some_iff:
  "split_once d s = Some (a, b) \<longleftrightarrow> s = a @ d # b \<and> d \<notin> set a"
proof (induction s arbitrary: a)
  case Nil
  then show ?case by simp
next
  case (Cons c cs)
  show ?case by (cases a) (auto simp: Cons.IH)
qed

lemma split_once_None_iff: "split_once d s = None \<longleftrightarrow> d \<notin> set s"
  by (induction s) auto

lemma split_on_not_Nil [simp]: "split_on d s \<noteq> []"
  by (induction s) (auto split: list.splits)

lemma join_split_on [simp]: "join [d] (split_on d s) = s"
proof (induction s)
  case Nil
  then show ?case by simp
next
  case (Cons c cs)
  obtain p ps where "split_on d cs = p # ps" by (cases "split_on d cs") auto
  with Cons show ?case by (cases ps) auto
qed

lemma split_on_no_sep: "p \<in> set (split_on d s) \<Longrightarrow> d \<notin> set p"
  by (induction s arbitrary: p) (auto split: if_splits list.splits)

lemma set_split_on: "p \<in> set (split_on d s) \<Longrightarrow> set p \<subseteq> set s"
  by (induction s arbitrary: p) (fastforce split: if_splits list.splits)+

section \<open>ASCII classes\<close>

definition is_ascii_digit :: "byte \<Rightarrow> bool" where
  "is_ascii_digit c = (48 \<le> ord c \<and> ord c \<le> 57)"

definition is_ascii_upper :: "byte \<Rightarrow> bool" where
  "is_ascii_upper c = (65 \<le> ord c \<and> ord c \<le> 90)"

definition is_ascii_alphanumeric :: "byte \<Rightarrow> bool" where
  "is_ascii_alphanumeric c =
     (is_ascii_digit c \<or> is_ascii_upper c \<or> (97 \<le> ord c \<and> ord c \<le> 122))"

definition is_ascii_whitespace :: "byte \<Rightarrow> bool" where
  "is_ascii_whitespace c = (ord c = 32 \<or> ord c = 9 \<or> ord c = 10 \<or> ord c = 12 \<or> ord c = 13)"

definition is_ascii_control :: "byte \<Rightarrow> bool" where
  "is_ascii_control c = (ord c < 32 \<or> ord c = 127)"

definition to_ascii_lowercase_byte :: "byte \<Rightarrow> byte" where
  "to_ascii_lowercase_byte c = (if is_ascii_upper c then char_of (ord c + 32) else c)"

definition to_ascii_lowercase :: "bytes \<Rightarrow> bytes" where
  "to_ascii_lowercase s = map to_ascii_lowercase_byte s"

definition eq_ignore_ascii_case :: "bytes \<Rightarrow> bytes \<Rightarrow> bool" where
  "eq_ignore_ascii_case a b = (to_ascii_lowercase a = to_ascii_lowercase b)"

lemma eq_ignore_ascii_case_refl [simp]: "eq_ignore_ascii_case a a"
  by (simp add: eq_ignore_ascii_case_def)

lemma eq_ignore_ascii_case_sym: "eq_ignore_ascii_case a b = eq_ignore_ascii_case b a"
  by (auto simp: eq_ignore_ascii_case_def)

section \<open>UTF-8\<close>

text \<open>\<open>core::str::from_utf8\<close> succeeds exactly on the byte strings accepted here.\<close>

definition utf8_cont :: "byte \<Rightarrow> bool" where
  "utf8_cont c = (0x80 \<le> ord c \<and> ord c \<le> 0xBF)"

text \<open>The range of the first continuation byte after the lead byte of a longer sequence.\<close>

definition utf8_second :: "byte \<Rightarrow> byte \<Rightarrow> bool" where
  "utf8_second a b =
     ((if ord a = 0xE0 then 0xA0 else if ord a = 0xF0 then 0x90 else 0x80) \<le> ord b \<and>
      ord b \<le> (if ord a = 0xED then 0x9F else if ord a = 0xF4 then 0x8F else 0xBF))"

text \<open>How many continuation bytes follow a lead byte; \<open>None\<close> for a byte that cannot lead.\<close>

definition utf8_extra :: "byte \<Rightarrow> nat option" where
  "utf8_extra a =
     (if ord a < 0x80 then Some 0
      else if 0xC2 \<le> ord a \<and> ord a \<le> 0xDF then Some 1
      else if 0xE0 \<le> ord a \<and> ord a \<le> 0xEF then Some 2
      else if 0xF0 \<le> ord a \<and> ord a \<le> 0xF4 then Some 3
      else None)"

definition utf8_tail :: "byte \<Rightarrow> bytes \<Rightarrow> bool" where
  "utf8_tail a bs = (case bs of [] \<Rightarrow> True | b # cs \<Rightarrow> utf8_second a b \<and> list_all utf8_cont cs)"

text \<open>The rest of the input after one well-formed encoded character.\<close>

fun utf8_char :: "bytes \<Rightarrow> bytes option" where
  "utf8_char [] = None"
| "utf8_char (a # r) =
     (case utf8_extra a of
        None \<Rightarrow> None
      | Some n \<Rightarrow> if n \<le> length r \<and> utf8_tail a (take n r) then Some (drop n r) else None)"

lemma utf8_char_length: "utf8_char s = Some r \<Longrightarrow> length r < length s"
  by (cases s) (auto split: option.splits if_splits)

function utf8_valid :: "bytes \<Rightarrow> bool" where
  "utf8_valid s =
     (if s = [] then True
      else (case utf8_char s of None \<Rightarrow> False | Some r \<Rightarrow> utf8_valid r))"
  by pat_completeness auto
termination
  by (relation "measure length") (auto simp: utf8_char_length)

declare utf8_valid.simps [simp del]

lemma utf8_valid_Nil [simp]: "utf8_valid []"
  by (simp add: utf8_valid.simps)

lemma utf8_valid_ascii_Cons [simp]: "ord c < 0x80 \<Longrightarrow> utf8_valid (c # s) = utf8_valid s"
  by (subst utf8_valid.simps) (simp add: utf8_extra_def utf8_tail_def)

lemma utf8_valid_ascii: "\<forall>c \<in> set s. ord c < 0x80 \<Longrightarrow> utf8_valid s"
  by (induction s) auto

lemma utf8_char_append: "utf8_char s = Some r \<Longrightarrow> utf8_char (s @ t) = Some (r @ t)"
  by (cases s) (auto split: option.splits if_splits)

lemma utf8_valid_append: "utf8_valid s \<Longrightarrow> utf8_valid t \<Longrightarrow> utf8_valid (s @ t)"
proof (induction s rule: utf8_valid.induct)
  case (1 s)
  show ?case
  proof (cases "s = []")
    case False
    with 1 obtain r where "utf8_char s = Some r" "utf8_valid (r @ t)"
      by (subst (asm) (2) utf8_valid.simps) (auto split: option.splits)
    with False show ?thesis by (subst utf8_valid.simps) (simp add: utf8_char_append)
  qed (use 1 in simp)
qed

section \<open>Decimal numbers\<close>

definition digit_char :: "nat \<Rightarrow> byte" where
  "digit_char d = char_of (48 + d)"

text \<open>\<open>n.to_string()\<close> on unsigned integers.\<close>

fun dec :: "nat \<Rightarrow> bytes" where
  "dec n = (if n < 10 then [digit_char n] else dec (n div 10) @ [digit_char (n mod 10)])"

declare dec.simps [simp del]

definition digits_value :: "bytes \<Rightarrow> nat" where
  "digits_value s = foldl (\<lambda>n c. n * 10 + (ord c - 48)) 0 s"

text \<open>\<open>str::parse\<close> for an unsigned integer type with largest value \<open>m\<close>: an optional sign,
  at least one digit, nothing else, no overflow.\<close>

definition parse_unsigned :: "nat \<Rightarrow> bytes \<Rightarrow> nat option" where
  "parse_unsigned m s =
     (let ds = (case s of c # cs \<Rightarrow> if c = CHR ''+'' then cs else s | [] \<Rightarrow> []) in
      if ds = [] \<or> \<not> list_all is_ascii_digit ds \<or> m < digits_value ds then None
      else Some (digits_value ds))"

lemma ord_digit_char: "d < 10 \<Longrightarrow> ord (digit_char d) = 48 + d"
  by (simp add: digit_char_def)

lemma is_ascii_digit_digit_char: "d < 10 \<Longrightarrow> is_ascii_digit (digit_char d)"
  by (simp add: is_ascii_digit_def ord_digit_char)

lemma dec_not_Nil [simp]: "dec n \<noteq> []"
  by (subst dec.simps) simp

lemma dec_digits: "c \<in> set (dec n) \<Longrightarrow> is_ascii_digit c"
proof (induction n rule: dec.induct)
  case (1 n)
  then show ?case
    by (subst (asm) dec.simps [of n]) (auto simp: is_ascii_digit_digit_char split: if_splits)
qed

lemma digits_value_snoc [simp]: "digits_value (s @ [c]) = digits_value s * 10 + (ord c - 48)"
  by (simp add: digits_value_def)

lemma digits_value_dec [simp]: "digits_value (dec n) = n"
proof (induction n rule: dec.induct)
  case (1 n)
  show ?case
  proof (cases "n < 10")
    case True
    then show ?thesis by (simp add: dec.simps [of n] digits_value_def ord_digit_char)
  next
    case False
    with 1 show ?thesis by (simp add: dec.simps [of n] ord_digit_char)
  qed
qed

lemma parse_dec: "n \<le> m \<Longrightarrow> parse_unsigned m (dec n) = Some n"
proof -
  assume "n \<le> m"
  obtain c cs where c: "dec n = c # cs" by (cases "dec n") auto
  have "is_ascii_digit c" using dec_digits [of c n] c by simp
  then have "c \<noteq> CHR ''+''" by (auto simp: is_ascii_digit_def)
  moreover have "list_all is_ascii_digit (dec n)" using dec_digits by (auto simp: list_all_iff)
  ultimately show ?thesis
    using \<open>n \<le> m\<close> digits_value_dec [of n] c by (simp add: parse_unsigned_def)
qed

lemma dec_ascii: "c \<in> set (dec n) \<Longrightarrow> 48 \<le> ord c \<and> ord c \<le> 57"
  using dec_digits [of c n] by (simp add: is_ascii_digit_def)

end
