(* ===== verification/Ip_Addr.thy ===== *)
theory Ip_Addr
  imports Text
begin

text \<open>
  \<open>std::net::IpAddr\<close> as the program uses it: the textual parser behind
  \<open>text.parse::<IpAddr>()\<close>, \<open>is_ipv4\<close> and \<open>is_loopback\<close>. A parser takes the
  remaining input and returns a value with the rest, or \<open>None\<close>, in which case the caller
  keeps the input it had (\<open>read_atomically\<close>).
\<close>

datatype ip_addr = V4 nat nat nat nat | V6 "nat list"

definition is_ipv4 :: "ip_addr \<Rightarrow> bool" where
  "is_ipv4 ip = (case ip of V4 a b c d \<Rightarrow> True | V6 gs \<Rightarrow> False)"

definition is_loopback :: "ip_addr \<Rightarrow> bool" where
  "is_loopback ip =
     (case ip of V4 a b c d \<Rightarrow> a = 127 | V6 gs \<Rightarrow> gs = [0, 0, 0, 0, 0, 0, 0, 1])"

type_synonym 'a parser = "bytes \<Rightarrow> ('a \<times> bytes) option"

fun hex_digit :: "byte \<Rightarrow> nat option" where
  "hex_digit c =
     (if is_ascii_digit c then Some (ord c - 48)
      else if 97 \<le> ord c \<and> ord c \<le> 102 then Some (ord c - 87)
      else if 65 \<le> ord c \<and> ord c \<le> 70 then Some (ord c - 55)
      else None)"

definition hex_value :: "bytes \<Rightarrow> nat" where
  "hex_value s = foldl (\<lambda>n c. n * 16 + the (hex_digit c)) 0 s"

text \<open>An octet: one to three decimal digits, no leading zero, at most 255.\<close>

definition read_octet :: "nat parser" where
  "read_octet s =
     (let ds = takeWhile is_ascii_digit s in
      if ds = [] \<or> 3 < length ds \<or> 255 < digits_value ds \<or>
         (1 < length ds \<and> hd ds = CHR ''0'') then None
      else Some (digits_value ds, drop (length ds) s))"

text \<open>A group: one to four hexadecimal digits.\<close>

definition read_group :: "nat parser" where
  "read_group s =
     (let ds = takeWhile (\<lambda>c. hex_digit c \<noteq> None) s in
      if ds = [] \<or> 4 < length ds then None
      else Some (hex_value ds, drop (length ds) s))"

definition read_separator :: "byte \<Rightarrow> nat \<Rightarrow> 'a parser \<Rightarrow> 'a parser" where
  "read_separator sep i p s =
     (if i = 0 then p s
      else (case s of [] \<Rightarrow> None | c # cs \<Rightarrow> if c = sep then p cs else None))"

fun read_octets :: "nat \<Rightarrow> nat \<Rightarrow> nat list parser" where
  "read_octets 0 i s = Some ([], s)"
| "read_octets (Suc k) i s =
     (case read_separator (CHR ''.'') i read_octet s of
        None \<Rightarrow> None
      | Some (a, r) \<Rightarrow>
          (case read_octets k (Suc i) r of None \<Rightarrow> None | Some (as, r') \<Rightarrow> Some (a # as, r')))"

definition read_ipv4_addr :: "nat list parser" where
  "read_ipv4_addr s = read_octets 4 0 s"

text \<open>Groups \<open>i, i + 1, \<dots>\<close> of an address with \<open>k\<close> places left: the groups read, whether the
  last two came from an embedded IPv4 address, and the rest.\<close>

fun read_groups :: "nat \<Rightarrow> nat \<Rightarrow> bytes \<Rightarrow> nat list \<times> bool \<times> bytes" where
  "read_groups 0 i s = ([], False, s)"
| "read_groups (Suc k) i s =
     (case (if 0 < k then read_separator (CHR '':'') i read_ipv4_addr s else None) of
        Some ([a, b, c, d], r) \<Rightarrow> ([a * 256 + b, c * 256 + d], True, r)
      | _ \<Rightarrow>
          (case read_separator (CHR '':'') i read_group s of
             None \<Rightarrow> ([], False, s)
           | Some (g, r) \<Rightarrow>
               (let (gs, v4, r') = read_groups k (Suc i) r in (g # gs, v4, r'))))"

definition read_ipv6_addr :: "nat list parser" where
  "read_ipv6_addr s =
     (let (head, head_ipv4, r) = read_groups 8 0 s in
      if length head = 8 then Some (head, r)
      else if head_ipv4 then None
      else (case strip_prefix ''::'' r of
              None \<Rightarrow> None
            | Some r1 \<Rightarrow>
                (let (tail, _, r2) = read_groups (8 - (length head + 1)) 0 r1 in
                 Some (head @ replicate (8 - length head - length tail) 0 @ tail, r2))))"

definition parse_ip :: "bytes \<Rightarrow> ip_addr option" where
  "parse_ip s =
     (case read_ipv4_addr s of
        Some ([a, b, c, d], r) \<Rightarrow> if r = [] then Some (V4 a b c d) else None
      | _ \<Rightarrow>
          (case read_ipv6_addr s of
             Some (gs, r) \<Rightarrow> if r = [] then Some (V6 gs) else None
           | None \<Rightarrow> None))"

definition show_ipv4 :: "nat \<Rightarrow> nat \<Rightarrow> nat \<Rightarrow> nat \<Rightarrow> bytes" where
  "show_ipv4 a b c d = join ''.'' [dec a, dec b, dec c, dec d]"

section \<open>Printed IPv4 addresses are read back\<close>

lemma dec_two: "10 \<le> n \<Longrightarrow> n < 100 \<Longrightarrow> dec n = [digit_char (n div 10), digit_char (n mod 10)]"
  by (simp add: dec.simps [of n] dec.simps [of "n div 10"])

lemma dec_three:
  "100 \<le> n \<Longrightarrow> n < 1000 \<Longrightarrow>
   dec n = [digit_char (n div 100), digit_char (n div 10 mod 10), digit_char (n mod 10)]"
  by (simp add: dec.simps [of n] dec_two div_mult2_eq [symmetric])

lemma digit_char_eq_zero_iff: "d < 10 \<Longrightarrow> digit_char d = CHR ''0'' \<longleftrightarrow> d = 0"
proof
  assume d: "d < 10" "digit_char d = CHR ''0''"
  then have "48 + d = ord (CHR ''0'')" using ord_digit_char by metis
  then show "d = 0" by simp
next
  assume "d = 0"
  then have "digit_char d = char_of (ord (CHR ''0''))" by (simp add: digit_char_def)
  then show "digit_char d = CHR ''0''" by (simp only: char_of_char)
qed

lemma dec_octet:
  assumes "n \<le> 255"
  shows "length (dec n) \<le> 3 \<and> (1 < length (dec n) \<longrightarrow> hd (dec n) \<noteq> CHR ''0'')"
proof -
  consider "n < 10" | "10 \<le> n" "n < 100" | "100 \<le> n" "n < 1000" using assms by linarith
  then show ?thesis
  proof cases
    case 1
    then show ?thesis by (simp add: dec.simps [of n])
  next
    case 2
    then have "n div 10 < 10" "n div 10 \<noteq> 0" by auto
    with 2 show ?thesis by (simp add: dec_two digit_char_eq_zero_iff)
  next
    case 3
    then have "n div 100 < 10" "n div 100 \<noteq> 0" by auto
    with 3 show ?thesis by (simp add: dec_three digit_char_eq_zero_iff)
  qed
qed

lemma read_octet_dec:
  assumes "n \<le> 255" and "r = [] \<or> \<not> is_ascii_digit (hd r)"
  shows "read_octet (dec n @ r) = Some (n, r)"
proof -
  have "takeWhile is_ascii_digit (dec n @ r) = dec n @ takeWhile is_ascii_digit r"
    using dec_digits by (simp add: takeWhile_append2)
  also have "takeWhile is_ascii_digit r = []" using assms(2) by (cases r) auto
  finally show ?thesis
    using dec_octet [OF assms(1)] assms(1) by (auto simp: read_octet_def Let_def)
qed

lemma read_octets_dec:
  assumes "\<forall>a \<in> set as. a \<le> 255" and "r = [] \<or> \<not> is_ascii_digit (hd r)"
  shows "read_octets (length as) (Suc i) (concat (map (\<lambda>a. CHR ''.'' # dec a) as) @ r)
    = Some (as, r)"
  using assms
proof (induction as arbitrary: i)
  case Nil
  then show ?case by simp
next
  case (Cons a as)
  let ?r = "concat (map (\<lambda>a. CHR ''.'' # dec a) as) @ r"
  have "?r = [] \<or> \<not> is_ascii_digit (hd ?r)"
    using Cons.prems(2) by (cases as) (auto simp: is_ascii_digit_def)
  with Cons show ?case by (simp add: read_separator_def read_octet_dec)
qed

lemma read_ipv4_addr_show:
  assumes "a \<le> 255" "b \<le> 255" "c \<le> 255" "d \<le> 255"
  shows "read_ipv4_addr (show_ipv4 a b c d) = Some ([a, b, c, d], [])"
proof -
  have "read_octets (Suc (length [b, c, d])) 0 (show_ipv4 a b c d) = Some ([a, b, c, d], [])"
    using assms read_octets_dec [of "[b, c, d]" "[]" 0]
    by (simp add: show_ipv4_def read_separator_def read_octet_dec is_ascii_digit_def)
  then show ?thesis by (simp add: read_ipv4_addr_def eval_nat_numeral)
qed

lemma parse_ip_show_ipv4:
  "a \<le> 255 \<Longrightarrow> b \<le> 255 \<Longrightarrow> c \<le> 255 \<Longrightarrow> d \<le> 255 \<Longrightarrow>
   parse_ip (show_ipv4 a b c d) = Some (V4 a b c d)"
  by (simp add: parse_ip_def read_ipv4_addr_show)

section \<open>Bounds of parsed addresses\<close>

lemma read_octet_bound: "read_octet s = Some (a, r) \<Longrightarrow> a \<le> 255"
  by (auto simp: read_octet_def Let_def split: if_splits)

lemma read_separator_Some:
  "read_separator sep i p s = Some (a, r) \<Longrightarrow> \<exists>s'. p s' = Some (a, r)"
  by (auto simp: read_separator_def split: if_splits list.splits)

lemma read_octets_bound:
  "read_octets k i s = Some (as, r) \<Longrightarrow> length as = k \<and> (\<forall>a \<in> set as. a \<le> 255)"
  by (induction k i s arbitrary: as r rule: read_octets.induct)
    (fastforce dest!: read_separator_Some read_octet_bound split: option.splits)+

lemma read_groups_length:
  "read_groups k i s = (gs, v4, r) \<Longrightarrow> length gs \<le> k"
  by (induction k i s arbitrary: gs v4 r rule: read_groups.induct)
    (fastforce split: option.splits list.splits prod.splits if_splits)+

end
