(* ===== verification/Wire.thy ===== *)
theory Wire
  imports Ip_Addr
begin

text \<open>
  \<open>src/src/protocol.rs\<close>, first half: the capability constants, the error type and its metric
  labels, macro-list overrides, length-prefixed frames, the negotiation options, and the
  decoder of MTA commands. A reader is the list of bytes it still delivers before end of file.
\<close>

section \<open>Constants\<close>

definition VERSION :: u32 where "VERSION = 6"
definition BODY_CHUNK :: nat where "BODY_CHUNK = 65536"
definition ADD_HEADERS :: u32 where "ADD_HEADERS = 1"
definition CHANGE_BODY :: u32 where "CHANGE_BODY = push_bit 1 1"
definition ADD_RECIPIENT :: u32 where "ADD_RECIPIENT = push_bit 2 1"
definition DELETE_RECIPIENT :: u32 where "DELETE_RECIPIENT = push_bit 3 1"
definition CHANGE_HEADERS :: u32 where "CHANGE_HEADERS = push_bit 4 1"
definition QUARANTINE :: u32 where "QUARANTINE = push_bit 5 1"
definition CHANGE_FROM :: u32 where "CHANGE_FROM = push_bit 6 1"
definition ADD_RECIPIENT_PAR :: u32 where "ADD_RECIPIENT_PAR = push_bit 7 1"

definition SUPPORTED_ACTIONS :: u32 where
  "SUPPORTED_ACTIONS = ADD_HEADERS OR CHANGE_BODY OR ADD_RECIPIENT OR DELETE_RECIPIENT OR
     CHANGE_HEADERS OR QUARANTINE OR CHANGE_FROM OR ADD_RECIPIENT_PAR"

definition NR_HEADER :: u32 where "NR_HEADER = push_bit 7 1"
definition NR_CONNECT :: u32 where "NR_CONNECT = push_bit 12 1"
definition NR_HELO :: u32 where "NR_HELO = push_bit 13 1"
definition NR_MAIL :: u32 where "NR_MAIL = push_bit 14 1"
definition NR_RCPT :: u32 where "NR_RCPT = push_bit 15 1"
definition NR_DATA :: u32 where "NR_DATA = push_bit 16 1"
definition NR_UNKNOWN :: u32 where "NR_UNKNOWN = push_bit 17 1"
definition NR_EOH :: u32 where "NR_EOH = push_bit 18 1"
definition NR_BODY :: u32 where "NR_BODY = push_bit 19 1"
definition HEADER_LEADING_SPACE :: u32 where "HEADER_LEADING_SPACE = push_bit 20 1"
definition PROGRESS :: byte where "PROGRESS = CHR ''p''"
definition SHUTDOWN :: byte where "SHUTDOWN = CHR ''4''"

lemmas action_defs = ADD_HEADERS_def CHANGE_BODY_def ADD_RECIPIENT_def DELETE_RECIPIENT_def
  CHANGE_HEADERS_def QUARANTINE_def CHANGE_FROM_def ADD_RECIPIENT_PAR_def

lemmas protocol_defs = NR_HEADER_def NR_CONNECT_def NR_HELO_def NR_MAIL_def NR_RCPT_def
  NR_DATA_def NR_UNKNOWN_def NR_EOH_def NR_BODY_def HEADER_LEADING_SPACE_def

section \<open>Errors\<close>

text \<open>\<open>std::io::Error\<close> is represented by the kinds the program distinguishes.\<close>

datatype io_kind = UnexpectedEof | NotFound | ConnectionRefused | AddrInUse | TimedOut | OtherIo

datatype http_error_kind = HkTimeout | HkConnect | HkRequest | HkBody | HkDecode | HkOther

datatype error =
    Io io_kind
  | Invalid string
  | Limit string
  | Sequence byte string
  | NotNegotiated
  | Timeout
  | Policy string
  | HttpTransport http_error_kind
  | HttpStatus u16
  | Panic string

text \<open>
  \<open>Panic\<close> is not a variant of the Rust enum: it marks the points where the task panics
  (\<open>expect\<close>, an index out of range), so that "does not panic" can be stated. No function of
  the source inspects it, and \<open>kind\<close> has no equation for it.
\<close>

type_synonym 'a result = "error + 'a"

fun kind :: "error \<Rightarrow> string" where
  "kind Timeout = ''timeout''"
| "kind (HttpTransport HkTimeout) = ''timeout''"
| "kind (HttpTransport HkConnect) = ''connect''"
| "kind (HttpTransport HkRequest) = ''request''"
| "kind (HttpTransport HkBody) = ''body''"
| "kind (HttpTransport HkDecode) = ''decode''"
| "kind (HttpTransport HkOther) = ''transport''"
| "kind (HttpStatus s) = ''http_status''"
| "kind (Io k) = ''io''"
| "kind (Invalid m) = ''invalid''"
| "kind (Limit m) = ''limit''"
| "kind (Sequence c s) = ''protocol''"
| "kind NotNegotiated = ''capability''"
| "kind (Policy m) = ''upstream''"

section \<open>Macro-list overrides\<close>

datatype macro_stage =
  MsConnect | MsHelo | MsMail | MsRecipient | MsData | MsEndMessage | MsEndHeaders

fun macro_stage_code :: "macro_stage \<Rightarrow> u32" where
  "macro_stage_code MsConnect = 0"
| "macro_stage_code MsHelo = 1"
| "macro_stage_code MsMail = 2"
| "macro_stage_code MsRecipient = 3"
| "macro_stage_code MsData = 4"
| "macro_stage_code MsEndMessage = 5"
| "macro_stage_code MsEndHeaders = 6"

definition macro_stage_all :: "macro_stage list" where
  "macro_stage_all =
     [MsConnect, MsHelo, MsMail, MsRecipient, MsData, MsEndMessage, MsEndHeaders]"

type_synonym macro_lists = "(macro_stage \<times> bytes list) list"

definition macro_lists_is_empty :: "macro_lists \<Rightarrow> bool" where
  "macro_lists_is_empty ml = list_all (\<lambda>(s, names). names = []) ml"

text \<open>The body of the loop over the names of one class, with the list built so far.\<close>

definition push_macro_name :: "bytes \<Rightarrow> bytes \<Rightarrow> bytes result" where
  "push_macro_name list name =
     (if name = [] \<or> list_ex (\<lambda>c. c = NUL \<or> is_ascii_whitespace c \<or> is_ascii_control c) name
      then Inl (Invalid ''macro name'')
      else Inr ((if list \<noteq> [] then list @ [SP] else list) @ name))"

definition encode_macro_class :: "macro_lists \<Rightarrow> bytes \<Rightarrow> macro_stage \<Rightarrow> bytes result" where
  "encode_macro_class ml out stage =
     bind_r (fold_r push_macro_name [] (concat (map snd (filter (\<lambda>(s, _). s = stage) ml))))
       (\<lambda>list. Inr (out @ to_be_bytes (macro_stage_code stage) @ list @ [NUL]))"

definition encode_macro_lists :: "macro_lists \<Rightarrow> bytes result" where
  "encode_macro_lists ml = fold_r (encode_macro_class ml) [] macro_stage_all"

section \<open>Frames\<close>

record frame =
  command :: byte
  payload :: bytes

definition mk_frame :: "byte \<Rightarrow> bytes \<Rightarrow> frame" where
  "mk_frame c p = \<lparr>command = c, payload = p\<rparr>"

definition empty_frame :: "byte \<Rightarrow> frame" where
  "empty_frame c = mk_frame c []"

definition u32_try_from :: "nat \<Rightarrow> u32 option" where
  "u32_try_from n = (if n < 2 ^ 32 then Some (word_of_nat n) else None)"

definition encode_frame :: "frame \<Rightarrow> bytes result" where
  "encode_frame f =
     bind_r (ok_or (Limit ''frame'')
        (Option.bind (checked_add (length (payload f)) 1) u32_try_from))
       (\<lambda>size. Inr (to_be_bytes size @ [command f] @ payload f))"

definition read_exact :: "nat \<Rightarrow> bytes \<Rightarrow> bytes result \<times> bytes" where
  "read_exact n r =
     (if n \<le> length r then (Inr (take n r), drop n r) else (Inl (Io UnexpectedEof), []))"

definition read_frame_after_start :: "byte \<Rightarrow> nat \<Rightarrow> bytes \<Rightarrow> frame result \<times> bytes" where
  "read_frame_after_start first mx =
     bind_s (read_exact 3) (\<lambda>more.
       let n = unat (from_be_bytes (first # more)) in
       if n = 0 then fail_s (Invalid ''zero frame length'')
       else if mx < n then fail_s (Limit ''frame'')
       else bind_s (read_exact n) (\<lambda>data. return_s (mk_frame (hd data) (tl data))))"

definition read_frame :: "nat \<Rightarrow> bytes \<Rightarrow> frame option result \<times> bytes" where
  "read_frame mx r =
     (case r of
        [] \<Rightarrow> (Inr None, [])
      | first # r' \<Rightarrow>
          bind_s (read_frame_after_start first mx) (\<lambda>f. return_s (Some f)) r')"

definition write_frame :: "frame \<Rightarrow> bytes \<Rightarrow> unit result \<times> bytes" where
  "write_frame f out =
     (case encode_frame f of Inl e \<Rightarrow> (Inl e, out) | Inr bs \<Rightarrow> (Inr (), out @ bs))"

section \<open>Negotiation options\<close>

record options =
  version :: u32
  actions :: u32
  protocol :: u32

definition options_frame :: "options \<Rightarrow> frame" where
  "options_frame opts =
     mk_frame (CHR ''O'') (concat (map to_be_bytes [version opts, actions opts, protocol opts]))"

definition frame_with_macros :: "options \<Rightarrow> macro_lists \<Rightarrow> frame result" where
  "frame_with_macros opts macros =
     (let f = options_frame opts in
      if \<not> macro_lists_is_empty macros
      then bind_r (encode_macro_lists macros) (\<lambda>m. Inr (f\<lparr>payload := payload f @ m\<rparr>))
      else Inr f)"

section \<open>Commands\<close>

record connection =
  hostname :: bytes
  family :: byte
  port :: "u16 option"
  conn_address :: "bytes option"

datatype command =
    Negotiate options
  | Connect connection
  | Macro byte "(bytes \<times> bytes) list"
  | Helo bytes
  | Mail "bytes list"
  | Recipient "bytes list"
  | Data
  | Header bytes bytes
  | EndHeaders
  | Body bytes
  | EndMessage
  | Abort
  | Quit
  | QuitNewConnection
  | Unknown bytes

text \<open>The loop of \<open>strings\<close>; \<open>cur\<close> is the slice \<open>start..i\<close>.\<close>

fun nul_fields :: "bytes \<Rightarrow> bytes \<Rightarrow> bytes list" where
  "nul_fields cur [] = []"
| "nul_fields cur (b # bs) =
     (if b = NUL then cur # nul_fields [] bs else nul_fields (cur @ [b]) bs)"

definition strings :: "bytes \<Rightarrow> bytes list result" where
  "strings p =
     (if p = [] then Inr []
      else if last p \<noteq> NUL then Inl (Invalid ''unterminated string'')
      else Inr (nul_fields [] p))"

definition string_frame :: "byte \<Rightarrow> bytes list \<Rightarrow> frame result" where
  "string_frame c values =
     map_r (mk_frame c)
       (fold_r (\<lambda>p v. if NUL \<in> set v then Inl (Invalid ''NUL in response'')
                      else Inr (p @ v @ [NUL])) [] values)"

definition decode_negotiate :: "bytes \<Rightarrow> command result" where
  "decode_negotiate p =
     (if length p \<noteq> 12 then Inl (Invalid ''negotiation length'')
      else (let n = (\<lambda>i. from_be_bytes (take 4 (drop i p))) in
            Inr (Negotiate \<lparr>version = n 0, actions = n 4, protocol = n 8\<rparr>)))"

text \<open>The textual address of a CONNECT must parse and match the family byte.\<close>

definition check_ip :: "byte \<Rightarrow> bytes \<Rightarrow> unit result" where
  "check_ip fam addr =
     (if \<not> utf8_valid addr then Inl (Invalid ''IP encoding'')
      else (let t1 = (case strip_prefix ''IPv6:'' addr of None \<Rightarrow> addr | Some t \<Rightarrow> t);
                t2 = (case Option.bind (strip_prefix ''['' t1) (strip_suffix '']'') of
                        None \<Rightarrow> t1 | Some t \<Rightarrow> t) in
            case parse_ip t2 of
              None \<Rightarrow> Inl (Invalid ''IP address'')
            | Some ip \<Rightarrow>
                if (fam = CHR ''4'') \<noteq> is_ipv4 ip then Inl (Invalid ''IP family'') else Inr ()))"

definition decode_peer :: "byte \<Rightarrow> bytes \<Rightarrow> (u16 option \<times> bytes option) result" where
  "decode_peer fam tail =
     (if fam = CHR ''U'' \<and> tail = [] then Inr (None, None)
      else if fam \<in> {CHR ''4'', CHR ''6'', CHR ''L''} then
        (if length tail < 3 then Inl (Invalid ''connect address'')
         else bind_r (strings (drop 2 tail)) (\<lambda>fields.
           if length fields \<noteq> 1 then Inl (Invalid ''connect address count'')
           else (let addr = fields ! 0 in
             bind_r (if fam \<noteq> CHR ''L'' then check_ip fam addr else Inr ()) (\<lambda>_.
               Inr (Some (from_be_bytes16 [tail ! 0, tail ! 1]), Some addr)))))
      else Inl (Invalid ''connect family or trailing bytes''))"

definition decode_connect :: "bytes \<Rightarrow> command result" where
  "decode_connect p =
     bind_r (ok_or (Invalid ''connect hostname'') (position (\<lambda>c. c = NUL) p)) (\<lambda>e.
       if length p \<le> e + 1 then Inl (Invalid ''connect family'')
       else (let fam = p ! (e + 1); tail = drop (e + 2) p in
         bind_r (decode_peer fam tail) (\<lambda>(prt, addr).
           Inr (Connect \<lparr>hostname = take e p, family = fam, port = prt, conn_address = addr\<rparr>))))"

fun macro_pairs :: "bytes list \<Rightarrow> (bytes \<times> bytes) list result" where
  "macro_pairs (k # v # r) =
     (if k = [] then Inl (Invalid ''empty macro name'')
      else map_r (\<lambda>vs. (k, v) # vs) (macro_pairs r))"
| "macro_pairs _ = Inr []"

definition macro_stages :: bytes where
  "macro_stages = ''CHMRTUNELB''"

definition decode_macro :: "bytes \<Rightarrow> command result" where
  "decode_macro p =
     (case p of
        [] \<Rightarrow> Inl (Invalid ''macro stage'')
      | stage # rest \<Rightarrow>
          if stage \<notin> set macro_stages then Inl (Invalid ''macro stage'')
          else bind_r (strings rest) (\<lambda>fields.
            if odd (length fields) then Inl (Invalid ''macro pair'')
            else map_r (Macro stage) (macro_pairs fields)))"

definition decode :: "frame \<Rightarrow> command result" where
  "decode f =
     (let p = payload f; c = frame.command f in
      if c = CHR ''O'' then decode_negotiate p
      else if c = CHR ''C'' then decode_connect p
      else if c = CHR ''D'' then decode_macro p
      else if c = CHR ''H'' \<or> c = CHR ''U'' then
        bind_r (strings p) (\<lambda>fields.
          if length fields \<noteq> 1 then Inl (Invalid ''string count'')
          else Inr (if c = CHR ''H'' then Helo (hd fields) else Unknown (hd fields)))
      else if c = CHR ''M'' \<or> c = CHR ''R'' then
        bind_r (strings p) (\<lambda>fields.
          if fields = [] \<or> hd fields = [] then Inl (Invalid ''empty envelope'')
          else Inr (if c = CHR ''M'' then Mail fields else Recipient fields))
      else if c = CHR ''L'' then
        bind_r (strings p) (\<lambda>fields.
          if length fields \<noteq> 2 \<or> fields ! 0 = [] then Inl (Invalid ''header fields'')
          else Inr (Header (fields ! 0) (fields ! 1)))
      else if c = CHR ''B'' then Inr (Body p)
      else if c \<in> set ''TNEAQK'' then
        (if p \<noteq> [] then Inl (Invalid ''unexpected payload'')
         else Inr (if c = CHR ''T'' then Data
                   else if c = CHR ''N'' then EndHeaders
                   else if c = CHR ''E'' then EndMessage
                   else if c = CHR ''A'' then Abort
                   else if c = CHR ''Q'' then Quit
                   else QuitNewConnection))
      else Inl (Invalid ''unknown opcode''))"

section \<open>NUL-terminated fields\<close>

definition nul_terminated :: "bytes list \<Rightarrow> bytes" where
  "nul_terminated vs = concat (map (\<lambda>v. v @ [NUL]) vs)"

definition nul_free :: "bytes \<Rightarrow> bool" where
  "nul_free v \<longleftrightarrow> NUL \<notin> set v"

lemma nul_terminated_simps [simp]:
  "nul_terminated [] = []"
  "nul_terminated (v # vs) = v @ NUL # nul_terminated vs"
  by (simp_all add: nul_terminated_def)

lemma nul_terminated_append [simp]:
  "nul_terminated (vs @ ws) = nul_terminated vs @ nul_terminated ws"
  by (induction vs) auto

lemma nul_terminated_eq_Nil [simp]: "nul_terminated vs = [] \<longleftrightarrow> vs = []"
  by (cases vs) auto

lemma last_nul_terminated: "vs \<noteq> [] \<Longrightarrow> last (nul_terminated vs) = NUL"
  by (induction vs) auto

lemma nul_fields_append:
  "nul_free v \<Longrightarrow> nul_fields cur (v @ NUL # bs) = (cur @ v) # nul_fields [] bs"
  by (induction v arbitrary: cur) (auto simp: nul_free_def)

lemma nul_fields_nul_terminated:
  "\<forall>v \<in> set vs. nul_free v \<Longrightarrow> nul_fields [] (nul_terminated vs) = vs"
  by (induction vs) (auto simp: nul_fields_append)

lemma nul_fields_inverse:
  "p \<noteq> [] \<Longrightarrow> last p = NUL \<Longrightarrow> nul_free cur \<Longrightarrow>
   nul_terminated (nul_fields cur p) = cur @ p \<and> (\<forall>v \<in> set (nul_fields cur p). nul_free v)"
proof (induction cur p rule: nul_fields.induct)
  case (1 cur)
  then show ?case by simp
next
  case (2 cur b bs)
  show ?case
  proof (cases "bs = []")
    case True
    with 2(3-5) show ?thesis by simp
  next
    case False
    with 2(4) have "last bs = NUL" by simp
    with 2(1,2,5) False show ?thesis by (cases "b = NUL") (simp_all add: nul_free_def)
  qed
qed

lemma strings_iff:
  "strings p = Inr vs \<longleftrightarrow> p = nul_terminated vs \<and> (\<forall>v \<in> set vs. nul_free v)"
proof
  assume *: "strings p = Inr vs"
  show "p = nul_terminated vs \<and> (\<forall>v \<in> set vs. nul_free v)"
  proof (cases "p = []")
    case False
    with * have "last p = NUL" "vs = nul_fields [] p" by (auto simp: strings_def split: if_splits)
    with nul_fields_inverse [of p "[]"] False show ?thesis by (simp add: nul_free_def [of "[]"])
  qed (use * in \<open>simp add: strings_def\<close>)
next
  assume "p = nul_terminated vs \<and> (\<forall>v \<in> set vs. nul_free v)"
  then show "strings p = Inr vs"
    using last_nul_terminated [of vs] by (auto simp: strings_def nul_fields_nul_terminated)
qed

lemma string_frame_fold:
  "fold_r (\<lambda>p v. if NUL \<in> set v then Inl (Invalid ''NUL in response'') else Inr (p @ v @ [NUL]))
     p0 vs =
   (if \<forall>v \<in> set vs. nul_free v then Inr (p0 @ nul_terminated vs)
    else Inl (Invalid ''NUL in response''))"
  by (induction vs arbitrary: p0) (auto simp: nul_free_def)

lemma string_frame_eq:
  "string_frame c vs =
   (if \<forall>v \<in> set vs. nul_free v then Inr (mk_frame c (nul_terminated vs))
    else Inl (Invalid ''NUL in response''))"
  by (simp add: string_frame_def string_frame_fold)

section \<open>The decoder and the wire grammar\<close>

text \<open>
  The grammar of MTA commands, written as a printer, and the side conditions under which a
  command value has a wire form. \<open>decode\<close> is exactly its inverse: it accepts a frame iff the
  frame is the wire form of a well-formed command, and then returns that command.
\<close>

definition flat_pairs :: "(bytes \<times> bytes) list \<Rightarrow> bytes list" where
  "flat_pairs vs = concat (map (\<lambda>(k, v). [k, v]) vs)"

lemma flat_pairs_simps [simp]:
  "flat_pairs [] = []" "flat_pairs ((k, v) # vs) = k # v # flat_pairs vs"
  by (simp_all add: flat_pairs_def)

fun wf_peer :: "byte \<Rightarrow> u16 option \<Rightarrow> bytes option \<Rightarrow> bool" where
  "wf_peer fam None None = (fam = CHR ''U'')"
| "wf_peer fam (Some p) (Some a) =
     (fam \<in> {CHR ''4'', CHR ''6'', CHR ''L''} \<and> nul_free a \<and>
      (fam = CHR ''L'' \<or> check_ip fam a = Inr ()))"
| "wf_peer fam _ _ = False"

fun peer_bytes :: "u16 option \<Rightarrow> bytes option \<Rightarrow> bytes" where
  "peer_bytes (Some p) (Some a) = to_be_bytes16 p @ a @ [NUL]"
| "peer_bytes _ _ = []"

fun wf_command :: "command \<Rightarrow> bool" where
  "wf_command (Connect c) =
     (nul_free (hostname c) \<and> wf_peer (family c) (port c) (conn_address c))"
| "wf_command (Macro stage vs) =
     (stage \<in> set macro_stages \<and>
      (\<forall>(k, v) \<in> set vs. k \<noteq> [] \<and> nul_free k \<and> nul_free v))"
| "wf_command (Helo s) = nul_free s"
| "wf_command (Unknown s) = nul_free s"
| "wf_command (Mail fs) = (fs \<noteq> [] \<and> hd fs \<noteq> [] \<and> (\<forall>f \<in> set fs. nul_free f))"
| "wf_command (Recipient fs) = (fs \<noteq> [] \<and> hd fs \<noteq> [] \<and> (\<forall>f \<in> set fs. nul_free f))"
| "wf_command (Header n v) = (n \<noteq> [] \<and> nul_free n \<and> nul_free v)"
| "wf_command _ = True"

fun command_frame :: "command \<Rightarrow> frame" where
  "command_frame (Negotiate opts) = options_frame opts"
| "command_frame (Connect c) =
     mk_frame (CHR ''C'')
       (hostname c @ NUL # family c # peer_bytes (port c) (conn_address c))"
| "command_frame (Macro stage vs) =
     mk_frame (CHR ''D'') (stage # nul_terminated (flat_pairs vs))"
| "command_frame (Helo s) = mk_frame (CHR ''H'') (s @ [NUL])"
| "command_frame (Unknown s) = mk_frame (CHR ''U'') (s @ [NUL])"
| "command_frame (Mail fs) = mk_frame (CHR ''M'') (nul_terminated fs)"
| "command_frame (Recipient fs) = mk_frame (CHR ''R'') (nul_terminated fs)"
| "command_frame (Header n v) = mk_frame (CHR ''L'') (n @ NUL # v @ [NUL])"
| "command_frame (Body b) = mk_frame (CHR ''B'') b"
| "command_frame Data = empty_frame (CHR ''T'')"
| "command_frame EndHeaders = empty_frame (CHR ''N'')"
| "command_frame EndMessage = empty_frame (CHR ''E'')"
| "command_frame Abort = empty_frame (CHR ''A'')"
| "command_frame Quit = empty_frame (CHR ''Q'')"
| "command_frame QuitNewConnection = empty_frame (CHR ''K'')"

lemma mk_frame_eq_iff [simp]: "mk_frame c p = mk_frame d q \<longleftrightarrow> c = d \<and> p = q"
  by (simp add: mk_frame_def)

lemma mk_frame_sel [simp]: "frame.command (mk_frame c p) = c" "payload (mk_frame c p) = p"
  by (simp_all add: mk_frame_def)

lemma mk_frame_collapse: "f = mk_frame (frame.command f) (payload f)"
  by (simp add: mk_frame_def)

lemma frame_eq_iff: "f = mk_frame c p \<longleftrightarrow> frame.command f = c \<and> payload f = p"
  by (metis mk_frame_collapse mk_frame_sel)

lemma take4_drop:
  "length p = 12 \<Longrightarrow> take 4 p @ take 4 (drop 4 p) @ take 4 (drop 8 p) = p"
  by (simp add: take_drop [symmetric] drop_drop [symmetric] take_add [symmetric] flip: append_assoc)

lemma decode_negotiate_iff:
  "decode_negotiate p = Inr c \<longleftrightarrow> (\<exists>opts. c = Negotiate opts \<and> p = payload (options_frame opts))"
proof
  assume *: "decode_negotiate p = Inr c"
  let ?n = "\<lambda>i. from_be_bytes (take 4 (drop i p))"
  let ?o = "\<lparr>version = ?n 0, actions = ?n 4, protocol = ?n 8\<rparr>"
  from * have len: "length p = 12" and c: "c = Negotiate ?o"
    by (auto simp: decode_negotiate_def Let_def split: if_splits)
  from len have "payload (options_frame ?o) = p"
    using take4_drop [OF len] by (simp add: options_frame_def to_from_be_bytes)
  with c show "\<exists>opts. c = Negotiate opts \<and> p = payload (options_frame opts)" by metis
next
  assume "\<exists>opts. c = Negotiate opts \<and> p = payload (options_frame opts)"
  then show "decode_negotiate p = Inr c"
    by (auto simp: decode_negotiate_def options_frame_def)
qed

lemma decode_peer_iff:
  "decode_peer fam tail = Inr (prt, addr) \<longleftrightarrow> wf_peer fam prt addr \<and> tail = peer_bytes prt addr"
  (is "?L \<longleftrightarrow> ?R")
proof
  assume L: ?L
  show ?R
  proof (cases "fam = CHR ''U'' \<and> tail = []")
    case True
    with L show ?thesis by (auto simp: decode_peer_def nul_free_def)
  next
    case False
    with L obtain a where *: "fam \<in> {CHR ''4'', CHR ''6'', CHR ''L''}" "3 \<le> length tail"
      "strings (drop 2 tail) = Inr [a]" "fam \<noteq> CHR ''L'' \<longrightarrow> check_ip fam a = Inr ()"
      "prt = Some (from_be_bytes16 [tail ! 0, tail ! 1])" "addr = Some a"
      by (auto simp: decode_peer_def result_simps Let_def length_Suc_conv split: if_splits)
    then have d: "drop 2 tail = a @ [NUL]" "nul_free a" by (auto simp: strings_iff)
    obtain x y t where t: "tail = x # y # t"
      using *(2) by (auto simp: numeral_3_eq_3 Suc_le_length_iff)
    with * d show ?thesis by (auto simp: to_from_be_bytes16 nul_free_def)
  qed
next
  assume R: ?R
  then consider "prt = None" "addr = None" "fam = CHR ''U''" "tail = []"
    | p a where "prt = Some p" "addr = Some a" "tail = to_be_bytes16 p @ a @ [NUL]" "nul_free a"
        "fam \<in> {CHR ''4'', CHR ''6'', CHR ''L''}"
        "fam = CHR ''L'' \<or> check_ip fam a = Inr ()"
    by (cases "(fam, prt, addr)" rule: wf_peer.cases) auto
  then show ?L
  proof cases
    case 1
    then show ?thesis by (simp add: decode_peer_def)
  next
    case (2 p a)
    have "strings (a @ [NUL]) = Inr [a]" using 2(4) by (simp add: strings_iff)
    moreover have "from_be_bytes16 [tail ! 0, tail ! 1] = p" "drop 2 tail = a @ [NUL]"
      using 2(3) from_to_be_bytes16 [of p] by (simp_all add: to_be_bytes16_def)
    ultimately show ?thesis using 2 by (auto simp: decode_peer_def)
  qed
qed

lemma decode_connect_iff:
  "decode_connect p = Inr c \<longleftrightarrow>
   (\<exists>conn. c = Connect conn \<and> wf_command c \<and> p = payload (command_frame c))" (is "?L \<longleftrightarrow> ?R")
proof
  assume ?L
  then obtain e prt addr where e: "position (\<lambda>c. c = NUL) p = Some e" "e + 1 < length p"
    and peer: "decode_peer (p ! (e + 1)) (drop (e + 2) p) = Inr (prt, addr)"
    and c: "c = Connect \<lparr>hostname = take e p, family = p ! (e + 1), port = prt,
      conn_address = addr\<rparr>"
    by (auto simp: decode_connect_def result_simps Let_def split: if_splits)
  have h: "nul_free (take e p)" "p ! e = NUL"
    using e by (auto simp: position_Some_iff nul_free_def in_set_conv_nth)
  have "p = take e p @ p ! e # p ! (e + 1) # drop (e + 2) p"
    using id_take_nth_drop [of e p] Cons_nth_drop_Suc [of "Suc e" p] e(2)
    by (metis Suc_eq_plus1 add_2_eq_Suc' Suc_lessD)
  with h c peer show ?R by (auto simp: decode_peer_iff)
next
  assume ?R
  then obtain conn where c: "c = Connect conn" and wf: "wf_command (Connect conn)"
    and p: "p = payload (command_frame (Connect conn))" by auto
  have "position (\<lambda>c. c = NUL) p = Some (length (hostname conn))"
    using wf p by (auto simp: nul_free_def intro!: position_append)
  moreover have "decode_peer (family conn) (peer_bytes (port conn) (conn_address conn)) =
      Inr (port conn, conn_address conn)"
    using wf by (simp add: decode_peer_iff)
  ultimately show ?L using c p by (simp add: decode_connect_def nth_append)
qed

lemma macro_pairs_iff:
  "even (length fs) \<Longrightarrow> macro_pairs fs = Inr vs \<longleftrightarrow>
   fs = flat_pairs vs \<and> (\<forall>(k, v) \<in> set vs. k \<noteq> [])"
proof (induction fs arbitrary: vs rule: macro_pairs.induct)
  case (1 k v r)
  then show ?case by (cases vs) (auto simp: result_simps)
next
  case "2_1"
  then show ?case by (cases vs) auto
qed simp

lemma even_flat_pairs [simp]: "even (length (flat_pairs vs))"
  by (induction vs) auto

lemma nul_free_flat_pairs:
  "(\<forall>x \<in> set (flat_pairs vs). nul_free x) \<longleftrightarrow> (\<forall>(k, v) \<in> set vs. nul_free k \<and> nul_free v)"
  by (induction vs) auto

lemma decode_macro_iff:
  "decode_macro p = Inr c \<longleftrightarrow>
   (\<exists>stage vs. c = Macro stage vs \<and> wf_command c \<and> p = payload (command_frame c))"
    (is "?L \<longleftrightarrow> ?R")
proof
  assume ?L
  then obtain stage rest fields vs where p: "p = stage # rest" "stage \<in> set macro_stages"
    and f: "strings rest = Inr fields" "even (length fields)" "macro_pairs fields = Inr vs"
    and c: "c = Macro stage vs"
    by (auto simp: decode_macro_def result_simps split: list.splits if_splits)
  from f have "fields = flat_pairs vs" "\<forall>(k, v) \<in> set vs. k \<noteq> []" by (simp_all add: macro_pairs_iff)
  with p f(1) c show ?R using nul_free_flat_pairs [of vs] by (auto simp: strings_iff)
next
  assume ?R
  then obtain stage vs where c: "c = Macro stage vs" and wf: "wf_command c"
    and p: "p = stage # nul_terminated (flat_pairs vs)" by auto
  have "strings (nul_terminated (flat_pairs vs)) = Inr (flat_pairs vs)"
    using wf c nul_free_flat_pairs [of vs] by (auto simp: strings_iff)
  moreover have "macro_pairs (flat_pairs vs) = Inr vs" using wf c by (auto simp: macro_pairs_iff)
  ultimately show ?L using c p wf by (simp add: decode_macro_def)
qed

lemma decode_sound: "decode f = Inr c \<Longrightarrow> wf_command c \<and> f = command_frame c"
  by (auto simp: decode_def Let_def result_simps strings_iff decode_negotiate_iff
      decode_connect_iff decode_macro_iff frame_eq_iff empty_frame_def options_frame_def
      length_Suc_conv numeral_2_eq_2 split: if_splits)

lemma decode_complete: "wf_command c \<Longrightarrow> decode (command_frame c) = Inr c"
proof (cases c)
  case (Connect conn)
  then show "wf_command c \<Longrightarrow> ?thesis"
    using decode_connect_iff [of "payload (command_frame c)" c] by (simp add: decode_def)
next
  case (Macro stage vs)
  then show "wf_command c \<Longrightarrow> ?thesis"
    using decode_macro_iff [of "payload (command_frame c)" c] by (simp add: decode_def)
next
  case (Negotiate opts)
  then show ?thesis
    using decode_negotiate_iff [of "payload (command_frame c)" c]
    by (simp add: decode_def options_frame_def)
next
  case (Helo s)
  then show "wf_command c \<Longrightarrow> ?thesis" using strings_iff [of "s @ [NUL]" "[s]"] by (simp add: decode_def)
next
  case (Unknown s)
  then show "wf_command c \<Longrightarrow> ?thesis" using strings_iff [of "s @ [NUL]" "[s]"] by (simp add: decode_def)
next
  case (Header n v)
  then show "wf_command c \<Longrightarrow> ?thesis"
    using strings_iff [of "n @ NUL # v @ [NUL]" "[n, v]"] by (simp add: decode_def)
next
  case (Mail fs)
  then show "wf_command c \<Longrightarrow> ?thesis" using strings_iff [of "nul_terminated fs" fs] by (simp add: decode_def)
next
  case (Recipient fs)
  then show "wf_command c \<Longrightarrow> ?thesis" using strings_iff [of "nul_terminated fs" fs] by (simp add: decode_def)
qed (simp_all add: decode_def empty_frame_def)

lemma decode_iff: "decode f = Inr c \<longleftrightarrow> wf_command c \<and> f = command_frame c"
  using decode_sound decode_complete by blast

section \<open>The frame codec\<close>

lemma encode_frame_iff:
  "encode_frame f = Inr bs \<longleftrightarrow>
   length (payload f) + 1 < 2 ^ 32 \<and>
   bs = to_be_bytes (word_of_nat (length (payload f) + 1)) @ frame.command f # payload f"
  by (auto simp: encode_frame_def result_simps u32_try_from_def usize_max_def bind_eq_Some_conv
      split: if_splits)

lemma encode_frame_error:
  "encode_frame f = Inl e \<longleftrightarrow> 2 ^ 32 \<le> length (payload f) + 1 \<and> e = Limit ''frame''"
  by (auto simp: encode_frame_def result_simps u32_try_from_def usize_max_def checked_add_def
      split: if_splits)

lemma unat_of_nat_length: "n < 2 ^ 32 \<Longrightarrow> unat (word_of_nat n :: u32) = n"
  by (simp add: unat_of_nat take_bit_nat_eq_self)

lemma read_exact_append [simp]: "length xs = n \<Longrightarrow> read_exact n (xs @ r) = (Inr xs, r)"
  by (auto simp: read_exact_def)

lemma read_exact_Inr_iff:
  "read_exact n r = (Inr xs, r') \<longleftrightarrow> r = xs @ r' \<and> length xs = n"
  by (auto simp: read_exact_def)

lemma read_frame_after_start_iff:
  "read_frame_after_start first mx r = (Inr f, rest) \<longleftrightarrow>
   (\<exists>bs. encode_frame f = Inr bs \<and> first # r = bs @ rest \<and> length (payload f) + 1 \<le> mx)"
  (is "?L \<longleftrightarrow> ?R")
proof
  assume ?L
  then obtain more data where r: "r = more @ data @ rest" "length more = 3"
    and len: "length data = unat (from_be_bytes (first # more))" "data \<noteq> []" "length data \<le> mx"
    and f: "f = mk_frame (hd data) (tl data)"
    by (fastforce simp: read_frame_after_start_def result_simps read_exact_Inr_iff Let_def
        split: if_splits)
  have "length (payload f) + 1 = length data" using len(2) f by (cases data) auto
  moreover have "length data < 2 ^ 32"
    unfolding len(1) using unsigned_less [of "from_be_bytes (first # more)", where ?'a = nat] by simp
  moreover have "to_be_bytes (word_of_nat (length data)) = first # more"
    using len(1) r(2) by (simp add: to_from_be_bytes)
  moreover have "frame.command f # payload f = data" using len(2) f by simp
  ultimately show ?R using r len(3) by (auto simp: encode_frame_iff)
next
  assume ?R
  then obtain bs where enc: "encode_frame f = Inr bs" and bs: "first # r = bs @ rest"
    and mx: "length (payload f) + 1 \<le> mx" by blast
  let ?n = "word_of_nat (length (payload f) + 1) :: u32"
  have n: "unat ?n = length (payload f) + 1" 
    using enc unat_of_nat_length [of "length (payload f) + 1"] unfolding encode_frame_iff by blast
  obtain more where be: "to_be_bytes ?n = first # more" and more: "length more = 3"
    and r: "r = more @ (frame.command f # payload f) @ rest"
  proof -
    obtain b0 b1 b2 b3 where "to_be_bytes ?n = [b0, b1, b2, b3]" by (simp add: to_be_bytes_def)
    with enc bs that show ?thesis by (simp add: encode_frame_iff)
  qed
  have "unat (from_be_bytes (first # more)) = length (payload f) + 1"
    using be n by (metis from_to_be_bytes)
  moreover have "read_exact 3 r = (Inr more, (frame.command f # payload f) @ rest)"
    using r more by simp
  moreover have "read_exact (length (payload f) + 1) ((frame.command f # payload f) @ rest)
      = (Inr (frame.command f # payload f), rest)" by (rule read_exact_append) simp
  ultimately show ?L
    using mx mk_frame_collapse [of f] by (simp add: read_frame_after_start_def return_s_def)
qed

lemma read_frame_iff:
  "read_frame mx r = (Inr (Some f), rest) \<longleftrightarrow>
   (\<exists>bs. encode_frame f = Inr bs \<and> r = bs @ rest \<and> length (payload f) + 1 \<le> mx)"
proof (cases r)
  case Nil
  then show ?thesis by (auto simp: read_frame_def encode_frame_iff to_be_bytes_def)
next
  case (Cons first r')
  then show ?thesis
    by (simp add: read_frame_def result_simps read_frame_after_start_iff)
qed

lemma read_frame_eof_iff: "read_frame mx r = (Inr None, rest) \<longleftrightarrow> r = [] \<and> rest = []"
  by (auto simp: read_frame_def result_simps split: list.splits)

section \<open>Macro-list overrides on the wire\<close>

definition macro_name_ok :: "bytes \<Rightarrow> bool" where
  "macro_name_ok name \<longleftrightarrow> name \<noteq> [] \<and>
     (\<forall>c \<in> set name. c \<noteq> NUL \<and> \<not> is_ascii_whitespace c \<and> \<not> is_ascii_control c)"

definition class_names :: "macro_lists \<Rightarrow> macro_stage \<Rightarrow> bytes list" where
  "class_names ml stage = concat (map snd (filter (\<lambda>(s, _). s = stage) ml))"

lemma push_macro_name_eq:
  "push_macro_name list name =
   (if macro_name_ok name then Inr ((if list \<noteq> [] then list @ [SP] else list) @ name)
    else Inl (Invalid ''macro name''))"
  by (auto simp: push_macro_name_def macro_name_ok_def list_ex_iff)

lemma join_Cons: "join [c] (p # ps) = p @ concat (map ((#) c) ps)"
  by (induction ps arbitrary: p) auto

lemma push_macro_names_nonempty:
  "acc \<noteq> [] \<Longrightarrow> fold_r push_macro_name acc names =
   (if \<forall>n \<in> set names. macro_name_ok n then Inr (acc @ concat (map ((#) SP) names))
    else Inl (Invalid ''macro name''))"
  by (induction names arbitrary: acc) (auto simp: push_macro_name_eq macro_name_ok_def)

lemma push_macro_names:
  "fold_r push_macro_name [] names =
   (if \<forall>n \<in> set names. macro_name_ok n then Inr (join [SP] names)
    else Inl (Invalid ''macro name''))"
proof (cases names)
  case (Cons n ns)
  show ?thesis
  proof (cases "macro_name_ok n")
    case True
    then have "n \<noteq> []" by (simp add: macro_name_ok_def)
    with True Cons show ?thesis
      by (simp add: push_macro_name_eq push_macro_names_nonempty join_Cons)
  qed (use Cons in \<open>simp add: push_macro_name_eq\<close>)
qed simp

lemma encode_macro_class_eq:
  "encode_macro_class ml out stage =
   (if \<forall>n \<in> set (class_names ml stage). macro_name_ok n
    then Inr (out @ to_be_bytes (macro_stage_code stage) @ join [SP] (class_names ml stage) @ [NUL])
    else Inl (Invalid ''macro name''))"
  by (simp add: encode_macro_class_def push_macro_names class_names_def)

lemma encode_macro_classes:
  "fold_r (encode_macro_class ml) out stages =
   (if \<forall>s \<in> set stages. \<forall>n \<in> set (class_names ml s). macro_name_ok n
    then Inr (out @ concat (map (\<lambda>s. to_be_bytes (macro_stage_code s) @
      join [SP] (class_names ml s) @ [NUL]) stages))
    else Inl (Invalid ''macro name''))"
  by (induction stages arbitrary: out) (auto simp: encode_macro_class_eq)

lemma macro_stage_all_UNIV: "set macro_stage_all = UNIV"
proof -
  have "s \<in> set macro_stage_all" for s by (cases s) (simp_all add: macro_stage_all_def)
  then show ?thesis by blast
qed

end
