(* ===== verification/Modification.thy ===== *)
theory Modification
  imports Wire
begin

text \<open>
  \<open>src/src/protocol.rs\<close>, second half: message modifications, the capability bit each needs,
  the size of its wire form, its frames, and the two output checks \<open>header_value\<close> (RFC 5322
  folding only) and \<open>clean\<close> (no line breaks, no NUL).
\<close>

datatype modification =
    AddHeader bytes bytes
  | InsertHeader u32 bytes bytes
  | ChangeHeader u32 bytes bytes
  | ReplaceBody bytes
  | InsertRawHeader u32 bytes bytes
  | ChangeFrom bytes "bytes option"
  | AddRecipient bytes "bytes option"
  | DeleteRecipient bytes
  | Quarantine bytes

fun capability :: "modification \<Rightarrow> u32" where
  "capability (AddHeader n v) = ADD_HEADERS"
| "capability (InsertHeader i n v) = ADD_HEADERS"
| "capability (InsertRawHeader i n v) = ADD_HEADERS"
| "capability (ChangeHeader k n v) = CHANGE_HEADERS"
| "capability (ReplaceBody b) = CHANGE_BODY"
| "capability (ChangeFrom a p) = CHANGE_FROM"
| "capability (AddRecipient a (Some p)) = ADD_RECIPIENT_PAR"
| "capability (AddRecipient a None) = ADD_RECIPIENT"
| "capability (DeleteRecipient a) = DELETE_RECIPIENT"
| "capability (Quarantine r) = QUARANTINE"

definition opt_len :: "bytes option \<Rightarrow> nat" where
  "opt_len p = (case p of None \<Rightarrow> 0 | Some s \<Rightarrow> length s)"

text \<open>The array \<open>parts\<close> whose checked sum is \<open>payload_bytes\<close>.\<close>

fun payload_parts :: "bool \<Rightarrow> modification \<Rightarrow> nat list" where
  "payload_parts ls (ReplaceBody body) = [length body, 0, 0, 0]"
| "payload_parts ls (InsertRawHeader i n v) = [length n, length v, 6, 0]"
| "payload_parts ls (AddHeader n v) =
     [length n, length v, 2 + of_bool (ls \<and> v \<noteq> []), 0]"
| "payload_parts ls (InsertHeader i n v) =
     [length n, length v, 2 + of_bool (ls \<and> v \<noteq> []), 4]"
| "payload_parts ls (ChangeHeader k n v) =
     [length n, length v, 2 + of_bool (ls \<and> v \<noteq> []), 4]"
| "payload_parts ls (ChangeFrom a p) = [length a, opt_len p, 1 + of_bool (p \<noteq> None), 0]"
| "payload_parts ls (AddRecipient a p) = [length a, opt_len p, 1 + of_bool (p \<noteq> None), 0]"
| "payload_parts ls (DeleteRecipient a) = [length a, 1, 0, 0]"
| "payload_parts ls (Quarantine r) = [length r, 1, 0, 0]"

definition payload_bytes :: "modification \<Rightarrow> bool \<Rightarrow> nat result" where
  "payload_bytes m ls =
     fold_r (\<lambda>n part. ok_or (Limit ''output'') (checked_add n part)) 0 (payload_parts ls m)"

text \<open>\<open>header_value\<close>: the loop, on the bytes from index \<open>i\<close> on.\<close>

definition wsp_next :: "bytes \<Rightarrow> bool" where
  "wsp_next cs = (case cs of [] \<Rightarrow> False | c # _ \<Rightarrow> c = SP \<or> c = HT)"

fun header_value :: "bytes \<Rightarrow> unit result" where
  "header_value [] = Inr ()"
| "header_value (c # cs) =
     (if c = CR then
        (case cs of
           [] \<Rightarrow> Inl (Invalid ''header folding'')
         | d # ds \<Rightarrow>
             if d \<noteq> LF \<or> \<not> wsp_next ds then Inl (Invalid ''header folding'')
             else header_value ds)
      else if c = LF then
        (if \<not> wsp_next cs then Inl (Invalid ''header folding'') else header_value cs)
      else if (ord c < 32 \<and> c \<noteq> HT) \<or> ord c = 127 then
        Inl (Invalid ''header control character'')
      else header_value cs)"

definition clean :: "bytes \<Rightarrow> unit result" where
  "clean v = ensure (\<not> list_ex (\<lambda>c. c = NUL \<or> c = CR \<or> c = LF) v)
     (Invalid ''control character in response'')"

definition header_name_ok :: "bytes \<Rightarrow> bool" where
  "header_name_ok n =
     (n \<noteq> [] \<and> list_all (\<lambda>c. 33 \<le> ord c \<and> ord c \<le> 126 \<and> c \<noteq> CHR '':'') n)"

text \<open>\<open>slice::chunks\<close>; it panics for size 0, which the source never passes.\<close>

function chunks :: "nat \<Rightarrow> 'a list \<Rightarrow> 'a list list" where
  "chunks n xs = (if n = 0 \<or> xs = [] then [] else take n xs # chunks n (drop n xs))"
  by pat_completeness auto
termination
  by (relation "measure (\<lambda>(n, xs). length xs)") auto

declare chunks.simps [simp del]

text \<open>The arm shared by \<open>AddHeader\<close>, \<open>InsertHeader\<close> and \<open>ChangeHeader\<close>; \<open>sel\<close> is the opcode
  and index the inner match selects, \<open>None\<close> for its error arm.\<close>

definition header_frames ::
  "bool \<Rightarrow> bytes \<Rightarrow> bytes \<Rightarrow> (byte \<times> u32 option) option \<Rightarrow> frame list result" where
  "header_frames ls name value sel =
     bind_r (ensure (header_name_ok name) (Invalid ''header name'')) (\<lambda>_.
     bind_r (header_value value) (\<lambda>_.
     let value' = (if ls \<and> value \<noteq> [] then SP # value else value) in
     bind_r (ok_or (Invalid ''header occurrence is one-based'') sel) (\<lambda>(cmd, idx).
     bind_r (string_frame cmd [name, value']) (\<lambda>f.
       (case idx of
          Some i \<Rightarrow> Inr [mk_frame cmd (to_be_bytes i @ payload f)]
        | None \<Rightarrow> Inr [f])))))"

definition raw_header_frames :: "bool \<Rightarrow> u32 \<Rightarrow> bytes \<Rightarrow> bytes \<Rightarrow> frame list result" where
  "raw_header_frames ls index name value =
     bind_r (ensure (header_name_ok name) (Invalid ''header name'')) (\<lambda>_.
     bind_r (header_value value) (\<lambda>_.
     bind_r (if ls then Inr value
             else ok_or (Invalid ''raw header whitespace requires leading-space negotiation'')
               (strip_prefix [SP] value)) (\<lambda>value'.
     bind_r (string_frame (CHR ''i'') [name, value']) (\<lambda>f.
       Inr [mk_frame (CHR ''i'') (to_be_bytes index @ payload f)]))))"

definition address_frames :: "byte \<Rightarrow> bytes \<Rightarrow> bytes option \<Rightarrow> frame list result" where
  "address_frames cmd addr params =
     bind_r (clean addr) (\<lambda>_.
     bind_r (ensure (addr \<noteq> []) (Invalid ''empty address'')) (\<lambda>_.
     bind_r (case params of None \<Rightarrow> Inr [addr] | Some p \<Rightarrow> map_r (\<lambda>_. [addr, p]) (clean p))
       (\<lambda>values. map_r (\<lambda>f. [f]) (string_frame cmd values))))"

definition text_frames :: "byte \<Rightarrow> bytes \<Rightarrow> frame list result" where
  "text_frames cmd s = bind_r (clean s) (\<lambda>_. map_r (\<lambda>f. [f]) (string_frame cmd [s]))"

fun frames :: "modification \<Rightarrow> bool \<Rightarrow> frame list result" where
  "frames (InsertRawHeader i n v) ls = raw_header_frames ls i n v"
| "frames (ReplaceBody body) ls =
     (if body = [] then Inr [empty_frame (CHR ''b'')]
      else Inr (map (mk_frame (CHR ''b'')) (chunks BODY_CHUNK body)))"
| "frames (AddHeader n v) ls = header_frames ls n v (Some (CHR ''h'', None))"
| "frames (InsertHeader i n v) ls = header_frames ls n v (Some (CHR ''i'', Some i))"
| "frames (ChangeHeader k n v) ls =
     header_frames ls n v (if 0 < k then Some (CHR ''m'', Some k) else None)"
| "frames (ChangeFrom a p) ls = address_frames (CHR ''e'') a p"
| "frames (AddRecipient a p) ls =
     address_frames (if p \<noteq> None then CHR ''2'' else CHR ''+'') a p"
| "frames (DeleteRecipient a) ls = text_frames (CHR ''-'') a"
| "frames (Quarantine r) ls = text_frames (CHR ''q'') r"

section \<open>Capability bits\<close>

lemma capability_supported: "capability m AND SUPPORTED_ACTIONS = capability m"
  by (cases m rule: capability.cases) (simp_all add: SUPPORTED_ACTIONS_def action_defs)

lemma capability_nonzero: "capability m \<noteq> 0"
  by (cases m rule: capability.cases) (simp_all add: action_defs)

section \<open>Header values never open a new field\<close>

text \<open>The check as a condition on positions: a carriage return is followed by a line feed, a
  line feed by a space or tab, and no other control character occurs.\<close>

definition folded_only :: "bytes \<Rightarrow> bool" where
  "folded_only v \<longleftrightarrow>
     (\<forall>i < length v.
        (v ! i = CR \<longrightarrow> Suc i < length v \<and> v ! Suc i = LF) \<and>
        (v ! i = LF \<longrightarrow> Suc i < length v \<and> (v ! Suc i = SP \<or> v ! Suc i = HT)) \<and>
        (v ! i \<notin> {CR, LF, HT} \<longrightarrow> 32 \<le> ord (v ! i) \<and> ord (v ! i) \<noteq> 127))"

lemma folded_only_Nil [simp]: "folded_only []"
  by (simp add: folded_only_def)

lemma folded_only_Cons:
  "folded_only (c # cs) \<longleftrightarrow>
   (c = CR \<longrightarrow> cs \<noteq> [] \<and> hd cs = LF) \<and> (c = LF \<longrightarrow> wsp_next cs) \<and>
   (c \<notin> {CR, LF, HT} \<longrightarrow> 32 \<le> ord c \<and> ord c \<noteq> 127) \<and> folded_only cs"
  by (cases cs) (auto simp: folded_only_def All_less_Suc2 wsp_next_def)

lemma header_value_iff: "header_value v = Inr () \<longleftrightarrow> folded_only v"
proof (induction v rule: header_value.induct)
  case 1
  show ?case by simp
next
  case (2 c cs)
  show ?case
  proof (cases "c = CR")
    case True
    show ?thesis
    proof (cases cs)
      case Nil
      with True show ?thesis by (simp add: folded_only_Cons)
    next
      case (Cons d ds)
      have "folded_only (c # cs) \<longleftrightarrow> d = LF \<and> wsp_next ds \<and> folded_only ds"
        unfolding Cons True by (auto simp: folded_only_Cons)
      with True Cons 2(1) [OF True Cons] show ?thesis by auto
    qed
  next
    case False
    then show ?thesis
      using 2(2,3) by (cases "c = LF") (auto simp: folded_only_Cons)
  qed
qed

lemma folded_only_nul_free: "folded_only v \<Longrightarrow> nul_free v"
proof (unfold nul_free_def, rule notI)
  assume v: "folded_only v" and "NUL \<in> set v"
  then obtain i where i: "i < length v" "v ! i = NUL" by (auto simp: in_set_conv_nth)
  from v [unfolded folded_only_def, rule_format, OF i(1)]
  have "v ! i \<notin> {CR, LF, HT} \<longrightarrow> 32 \<le> ord (v ! i)" by simp
  with i(2) show False by simp
qed

lemma clean_iff [result_simps]:
  "clean v = Inr u \<longleftrightarrow> NUL \<notin> set v \<and> CR \<notin> set v \<and> LF \<notin> set v"
  by (auto simp: clean_def result_simps list_ex_iff)

lemma header_name_nul_free: "header_name_ok n \<Longrightarrow> nul_free n"
proof (unfold nul_free_def, rule notI)
  assume "header_name_ok n" and nul: "NUL \<in> set n"
  then have "\<forall>c \<in> set n. 33 \<le> ord c" by (simp add: header_name_ok_def list_all_iff)
  from this nul have "(33 :: nat) \<le> ord NUL" by (rule bspec)
  then show False by simp
qed

section \<open>Shape and size of the emitted frames\<close>

lemma payload_bytes_eq:
  "payload_bytes m ls =
   (if sum_list (payload_parts ls m) \<le> usize_max then Inr (sum_list (payload_parts ls m))
    else Inl (Limit ''output''))"
  by (cases "(ls, m)" rule: payload_parts.cases)
    (auto simp: payload_bytes_def checked_add_def)

lemma chunks_Nil [simp]: "chunks n [] = []"
  by (simp add: chunks.simps)

lemma chunks_concat: "0 < n \<Longrightarrow> concat (chunks n xs) = xs"
proof (induction n xs rule: chunks.induct)
  case (1 n xs)
  then show ?case by (cases "xs = []") (simp_all add: chunks.simps [of n xs])
qed

lemma chunks_bounds: "c \<in> set (chunks n xs) \<Longrightarrow> c \<noteq> [] \<and> length c \<le> n"
proof (induction n xs rule: chunks.induct)
  case (1 n xs)
  show ?case
  proof (cases "n = 0 \<or> xs = []")
    case False
    with 1 show ?thesis by (auto simp: chunks.simps [of n xs])
  qed (use 1 in \<open>simp add: chunks.simps [of n xs]\<close>)
qed

fun index_bytes :: "u32 option \<Rightarrow> bytes" where
  "index_bytes None = []"
| "index_bytes (Some i) = to_be_bytes i"

lemma header_frames_iff:
  "header_frames ls n v sel = Inr fs \<longleftrightarrow>
   (\<exists>cmd idx. sel = Some (cmd, idx) \<and> header_name_ok n \<and> folded_only v \<and>
     fs = [mk_frame cmd (index_bytes idx @
       nul_terminated [n, if ls \<and> v \<noteq> [] then SP # v else v])])"
proof (cases "sel \<noteq> None \<and> header_name_ok n \<and> folded_only v")
  case True
  then obtain cmd idx where sel: "sel = Some (cmd, idx)" by auto
  let ?w = "if ls \<and> v \<noteq> [] then SP # v else v"
  have "string_frame cmd [n, ?w] = Inr (mk_frame cmd (nul_terminated [n, ?w]))"
    using True header_name_nul_free [of n] folded_only_nul_free [of v]
    by (auto simp: string_frame_eq nul_free_def)
  moreover have "header_value v = Inr ()" using True by (simp add: header_value_iff)
  ultimately show ?thesis using True sel
    by (cases idx) (auto simp: header_frames_def Let_def)
next
  case False
  then show ?thesis
    by (auto simp: header_frames_def result_simps Let_def header_value_iff [symmetric])
qed

lemma raw_header_frames_iff:
  "raw_header_frames ls i n v = Inr fs \<longleftrightarrow>
   header_name_ok n \<and> folded_only v \<and>
   (\<exists>w. (if ls then w = v else v = SP # w) \<and>
     fs = [mk_frame (CHR ''i'') (to_be_bytes i @ nul_terminated [n, w])])"
proof -
  have "string_frame (CHR ''i'') [n, w] = Inr (mk_frame (CHR ''i'') (nul_terminated [n, w]))"
    if "header_name_ok n" "folded_only v" "if ls then w = v else v = SP # w" for w
    using that header_name_nul_free [of n] folded_only_nul_free [of v]
    by (auto simp: string_frame_eq nul_free_def split: if_splits)
  moreover have "header_value v = Inr () \<longleftrightarrow> folded_only v" by (rule header_value_iff)
  ultimately show ?thesis
    by (auto simp: raw_header_frames_def result_simps split: if_splits)
qed

definition line_safe :: "bytes \<Rightarrow> bool" where
  "line_safe v \<longleftrightarrow> NUL \<notin> set v \<and> CR \<notin> set v \<and> LF \<notin> set v"

lemma clean_line_safe: "clean v = Inr u \<longleftrightarrow> line_safe v"
  by (simp add: clean_iff line_safe_def)

lemma address_frames_iff:
  "address_frames cmd a p = Inr fs \<longleftrightarrow>
   line_safe a \<and> a \<noteq> [] \<and> (\<forall>q. p = Some q \<longrightarrow> line_safe q) \<and>
   fs = [mk_frame cmd (nul_terminated (a # (case p of None \<Rightarrow> [] | Some q \<Rightarrow> [q])))]"
  by (cases p)
    (auto simp: address_frames_def result_simps string_frame_eq line_safe_def nul_free_def)

lemma text_frames_iff:
  "text_frames cmd s = Inr fs \<longleftrightarrow> line_safe s \<and> fs = [mk_frame cmd (nul_terminated [s])]"
  by (auto simp: text_frames_def result_simps string_frame_eq line_safe_def nul_free_def)

lemmas frames_iffs = header_frames_iff raw_header_frames_iff address_frames_iff text_frames_iff

definition frames_size :: "frame list \<Rightarrow> nat" where
  "frames_size fs = sum_list (map (\<lambda>f. length (payload f)) fs)"

lemma frames_size_simps [simp]:
  "frames_size [] = 0" "frames_size (f # fs) = length (payload f) + frames_size fs"
  "frames_size (fs @ gs) = frames_size fs + frames_size gs"
  by (simp_all add: frames_size_def)

lemma frames_size_body: "frames_size (map (mk_frame c) bs) = length (concat bs)"
  by (induction bs) auto

text \<open>\<open>payload_bytes\<close>, checked before a modification is serialised, bounds what is emitted.\<close>

lemma frames_size_bound:
  assumes "frames m ls = Inr fs"
  shows "frames_size fs \<le> sum_list (payload_parts ls m)"
proof (cases m)
  case (ReplaceBody b)
  with assms show ?thesis
    by (auto simp: frames_size_body chunks_concat BODY_CHUNK_def empty_frame_def split: if_splits)
next
  case (InsertRawHeader i n v)
  with assms obtain w where "length w \<le> length v"
    "fs = [mk_frame (CHR ''i'') (to_be_bytes i @ nul_terminated [n, w])]"
    by (cases ls) (auto simp: raw_header_frames_iff)
  with InsertRawHeader show ?thesis by simp
next
  case (ChangeFrom a p)
  with assms show ?thesis by (cases p) (auto simp: address_frames_iff opt_len_def)
next
  case (AddRecipient a p)
  with assms show ?thesis by (cases p) (auto simp: address_frames_iff opt_len_def)
qed (use assms in \<open>auto simp: header_frames_iff text_frames_iff split: if_split_asm\<close>)

definition modification_opcodes :: "byte set" where
  "modification_opcodes = set ''himeb2+-q''"

lemma frames_opcodes:
  assumes "frames m ls = Inr fs"
  shows "fs \<noteq> [] \<and> (\<forall>f \<in> set fs. frame.command f \<in> modification_opcodes)"
proof (cases m)
  case (ReplaceBody b)
  have "b \<noteq> [] \<Longrightarrow> chunks BODY_CHUNK b \<noteq> []"
    by (subst chunks.simps) (simp add: BODY_CHUNK_def)
  with ReplaceBody assms show ?thesis
    by (auto simp: modification_opcodes_def empty_frame_def split: if_split_asm)
next
  case (InsertRawHeader i n v)
  with assms show ?thesis
    by (cases ls) (auto simp: raw_header_frames_iff modification_opcodes_def)
next
  case (AddRecipient a p)
  with assms show ?thesis
    by (cases p) (auto simp: address_frames_iff modification_opcodes_def)
qed (use assms in \<open>auto simp: header_frames_iff address_frames_iff text_frames_iff
  modification_opcodes_def split: if_split_asm\<close>)

end
