(* ===== verification/Btree_Map.thy ===== *)
theory Btree_Map
  imports Prelude
begin

text \<open>
  The interface of \<open>std::collections::BTreeMap\<close> the session relies on, as a locale: lookup,
  insert, remove, retain, and sums over the entries. It is interpreted on association lists
  with distinct keys, the representation used in the session's state. The lemmas proved
  inside the locale are what the macro budget needs: removing, retaining, and moving an entry
  from one map to another never increase a total.
\<close>

locale btree_map =
  fixes get :: "'m \<Rightarrow> 'k \<Rightarrow> 'v option"
    and insert_entry :: "'k \<Rightarrow> 'v \<Rightarrow> 'm \<Rightarrow> 'm"
    and remove_entry :: "'k \<Rightarrow> 'm \<Rightarrow> 'm"
    and retain_keys :: "('k \<Rightarrow> bool) \<Rightarrow> 'm \<Rightarrow> 'm"
    and total :: "('k \<Rightarrow> 'v \<Rightarrow> nat) \<Rightarrow> 'm \<Rightarrow> nat"
    and invar :: "'m \<Rightarrow> bool"
  assumes get_insert: "invar m \<Longrightarrow> get (insert_entry k v m) = (get m)(k \<mapsto> v)"
    and get_remove: "invar m \<Longrightarrow> get (remove_entry k m) = (get m)(k := None)"
    and get_retain: "invar m \<Longrightarrow> get (retain_keys P m) = (\<lambda>k. if P k then get m k else None)"
    and invar_insert: "invar m \<Longrightarrow> invar (insert_entry k v m)"
    and invar_remove: "invar m \<Longrightarrow> invar (remove_entry k m)"
    and invar_retain: "invar m \<Longrightarrow> invar (retain_keys P m)"
    and total_insert: "invar m \<Longrightarrow> total w (insert_entry k v m) = total w (remove_entry k m) + w k v"
    and total_remove: "invar m \<Longrightarrow>
      total w m = total w (remove_entry k m) + (case get m k of None \<Rightarrow> 0 | Some v \<Rightarrow> w k v)"
    and total_retain: "invar m \<Longrightarrow> total w (retain_keys P m) \<le> total w m"
begin

lemma total_remove_le: "invar m \<Longrightarrow> total w (remove_entry k m) \<le> total w m"
  using total_remove [of m w k] by simp

lemma total_move_le:
  assumes "invar m" and "invar p" and "get p k = Some v"
  shows "total w (insert_entry k v m) + total w (remove_entry k p) \<le> total w m + total w p"
  using total_insert [OF assms(1), of w k v] total_remove_le [OF assms(1), of w k]
    total_remove [OF assms(2), of w k] assms(3) by simp

end

section \<open>Association lists\<close>

type_synonym ('k, 'v) bmap = "('k \<times> 'v) list"

definition bmap_insert :: "'k \<Rightarrow> 'v \<Rightarrow> ('k, 'v) bmap \<Rightarrow> ('k, 'v) bmap" where
  "bmap_insert k v m = AList.update k v m"

definition bmap_remove :: "'k \<Rightarrow> ('k, 'v) bmap \<Rightarrow> ('k, 'v) bmap" where
  "bmap_remove k m = filter (\<lambda>(k', _). k' \<noteq> k) m"

definition bmap_retain :: "('k \<Rightarrow> bool) \<Rightarrow> ('k, 'v) bmap \<Rightarrow> ('k, 'v) bmap" where
  "bmap_retain P m = filter (\<lambda>(k, _). P k) m"

definition bmap_total :: "('k \<Rightarrow> 'v \<Rightarrow> nat) \<Rightarrow> ('k, 'v) bmap \<Rightarrow> nat" where
  "bmap_total w m = sum_list (map (\<lambda>(k, v). w k v) m)"

definition bmap_invar :: "('k, 'v) bmap \<Rightarrow> bool" where
  "bmap_invar m \<longleftrightarrow> distinct (map fst m)"

text \<open>\<open>values.into_iter().collect::<BTreeMap<_, _>>()\<close>: later duplicates win.\<close>

definition bmap_collect :: "('k \<times> 'v) list \<Rightarrow> ('k, 'v) bmap" where
  "bmap_collect kvs = fold (\<lambda>(k, v). bmap_insert k v) kvs []"

lemma map_of_filter_key:
  "map_of (filter (\<lambda>(k, _). P k) m) = (\<lambda>k. if P k then map_of m k else None)"
  by (induction m) (auto simp: fun_eq_iff)

lemma bmap_total_insert:
  "bmap_invar m \<Longrightarrow> bmap_total w (bmap_insert k v m) = bmap_total w (bmap_remove k m) + w k v"
proof (induction m)
  case Nil
  then show ?case by (simp add: bmap_total_def bmap_insert_def bmap_remove_def)
next
  case (Cons p m)
  obtain k' v' where p: "p = (k', v')" by fastforce
  have "k' = k \<Longrightarrow> filter (\<lambda>(k', _). k' \<noteq> k) m = m"
    using Cons.prems p by (force simp: bmap_invar_def intro!: filter_True)
  with Cons p show ?case
    by (auto simp: bmap_total_def bmap_insert_def bmap_remove_def bmap_invar_def)
qed

lemma bmap_total_remove:
  "bmap_invar m \<Longrightarrow> bmap_total w m =
   bmap_total w (bmap_remove k m) + (case map_of m k of None \<Rightarrow> 0 | Some v \<Rightarrow> w k v)"
proof (induction m)
  case Nil
  then show ?case by (simp add: bmap_total_def bmap_remove_def)
next
  case (Cons p m)
  obtain k' v' where p: "p = (k', v')" by fastforce
  have "k' = k \<Longrightarrow> filter (\<lambda>(k', _). k' \<noteq> k) m = m"
    using Cons.prems p by (force simp: bmap_invar_def intro!: filter_True)
  with Cons p show ?case
    by (auto simp: bmap_total_def bmap_remove_def bmap_invar_def)
qed

interpretation bm: btree_map map_of bmap_insert bmap_remove bmap_retain bmap_total bmap_invar
proof unfold_locales
  fix m :: "('k, 'v) bmap" and k v P and w :: "'k \<Rightarrow> 'v \<Rightarrow> nat"
  assume m: "bmap_invar m"
  show "map_of (bmap_insert k v m) = (map_of m)(k \<mapsto> v)"
    by (simp add: bmap_insert_def update_conv')
  show "map_of (bmap_remove k m) = (map_of m)(k := None)"
    by (auto simp: bmap_remove_def map_of_filter_key)
  show "map_of (bmap_retain P m) = (\<lambda>k. if P k then map_of m k else None)"
    by (simp add: bmap_retain_def map_of_filter_key)
  show "bmap_invar (bmap_insert k v m)"
    using m by (simp add: bmap_invar_def bmap_insert_def distinct_update)
  show "bmap_invar (bmap_remove k m)" "bmap_invar (bmap_retain P m)"
    using m by (simp_all add: bmap_invar_def bmap_remove_def bmap_retain_def distinct_map_filter)
  show "bmap_total w (bmap_insert k v m) = bmap_total w (bmap_remove k m) + w k v"
    using m by (rule bmap_total_insert)
  show "bmap_total w m =
      bmap_total w (bmap_remove k m) + (case map_of m k of None \<Rightarrow> 0 | Some v \<Rightarrow> w k v)"
    using m by (rule bmap_total_remove)
  show "bmap_total w (bmap_retain P m) \<le> bmap_total w m"
    by (induction m) (auto simp: bmap_total_def bmap_retain_def)
qed

lemma bmap_invar_Nil [simp]: "bmap_invar []"
  by (simp add: bmap_invar_def)

lemma bmap_total_Nil [simp]: "bmap_total w [] = 0"
  by (simp add: bmap_total_def)

lemma bmap_invar_collect [simp]: "bmap_invar (bmap_collect kvs)"
proof -
  have "bmap_invar m \<Longrightarrow> bmap_invar (fold (\<lambda>(k, v). bmap_insert k v) kvs m)" for m
    by (induction kvs arbitrary: m) (auto simp: bm.invar_insert)
  then show ?thesis by (simp add: bmap_collect_def)
qed

end
