(* ===== verification/Session.thy ===== *)
theory Session
  imports Modification Btree_Map
begin

text \<open>
  \<open>src/src/session.rs\<close>: the transport-independent milter session. \<open>receive\<close> consumes one
  frame of the MTA, \<open>complete\<close> answers the pending callback with a policy's decision. Both
  return the session they leave behind also when they fail. This theory holds the data model
  and the operations; their invariants are in \<open>Session_Inv\<close>, the behaviour of \<open>complete\<close> in
  \<open>Decision_Safety\<close>.
\<close>

section \<open>Data\<close>

record limits =
  lim_frame_bytes :: nat
  lim_message_bytes :: nat
  lim_envelope_bytes :: nat
  lim_headers :: nat
  lim_recipients :: nat
  lim_macro_bytes :: nat
  lim_modifications :: nat

definition default_limits :: limits where
  "default_limits = \<lparr>
     lim_frame_bytes = 131073,
     lim_message_bytes = 25 * 1024 * 1024,
     lim_envelope_bytes = 1024 * 1024,
     lim_headers = 10000,
     lim_recipients = 1000,
     lim_macro_bytes = 65536,
     lim_modifications = 1000\<rparr>"

datatype stage = StConnect | StHelo | StMail | StRecipient | StEndMessage

definition stage_all :: "stage list" where
  "stage_all = [StConnect, StHelo, StMail, StRecipient, StEndMessage]"

fun hook_name :: "stage \<Rightarrow> string" where
  "hook_name StConnect = ''connect''"
| "hook_name StHelo = ''ehlo''"
| "hook_name StMail = ''mail''"
| "hook_name StRecipient = ''rcpt''"
| "hook_name StEndMessage = ''data''"

definition from_hook_name :: "string \<Rightarrow> stage option" where
  "from_hook_name name = List.find (\<lambda>s. hook_name s = name) stage_all"

datatype state =
    Initial | Negotiated | Ready | InMail | InRecipients | InData | InHeaders | InBody
  | Stopped | Closed

fun state_name :: "state \<Rightarrow> string" where
  "state_name Initial = ''initial''"
| "state_name Negotiated = ''negotiated''"
| "state_name Ready = ''ready''"
| "state_name InMail = ''mail''"
| "state_name InRecipients = ''recipients''"
| "state_name InData = ''data''"
| "state_name InHeaders = ''headers''"
| "state_name InBody = ''body''"
| "state_name Stopped = ''stopped''"
| "state_name Closed = ''closed''"

record envelope_address =
  address :: bytes
  parameters :: "bytes list"

definition envelope_address_from :: "bytes list \<Rightarrow> envelope_address result" where
  "envelope_address_from flds =
     (case flds of
        [] \<Rightarrow> Inl (Panic ''removal index (is 0) should be < len (is 0)'')
      | a # ps \<Rightarrow> Inr \<lparr>address = a, parameters = ps\<rparr>)"

record message =
  sender :: "envelope_address option"
  recipients :: "envelope_address list"
  headers :: "(bytes \<times> bytes) list"
  body :: bytes
  msg_bytes :: nat
  msg_envelope_bytes :: nat

definition default_message :: message where
  "default_message = \<lparr>sender = None, recipients = [], headers = [], body = [],
     msg_bytes = 0, msg_envelope_bytes = 0\<rparr>"

type_synonym macros = "(bytes, bytes) bmap"

record session =
  state :: state
  opts :: "options option"
  conn :: "connection option"
  helo :: "bytes option"
  message :: message
  limits :: limits
  macros :: "(byte, macros) bmap"
  pending_macros :: "(byte, macros) bmap"
  pending :: "stage option"
  stages :: "stage list"
  wanted_actions :: u32
  macro_lists :: macro_lists

record step =
  step_frames :: "frame list"
  event :: "stage option"
  close :: bool

definition empty_step :: step where
  "empty_step = \<lparr>step_frames = [], event = None, close = False\<rparr>"

datatype verdict =
    Continue | Accept | Reject | Tempfail | Discard
  | Reply u16 "bytes option" bytes
  | Shutdown

record decision =
  verdict :: verdict
  modifications :: "modification list"

definition default_decision :: decision where
  "default_decision = \<lparr>verdict = Continue, modifications = []\<rparr>"

section \<open>Small operations\<close>

definition session_new :: "limits \<Rightarrow> stage list \<Rightarrow> u32 \<Rightarrow> session" where
  "session_new lims sts wanted = \<lparr>
     state = Initial, opts = None, conn = None, helo = None, message = default_message,
     limits = lims, macros = [], pending_macros = [], pending = None, stages = sts,
     wanted_actions = wanted AND SUPPORTED_ACTIONS, macro_lists = []\<rparr>"

definition request_macros :: "macro_lists \<Rightarrow> session \<Rightarrow> session" where
  "request_macros ml s = s\<lparr>macro_lists := ml\<rparr>"

definition require :: "byte \<Rightarrow> state list \<Rightarrow> session \<Rightarrow> unit result" where
  "require cmd states s =
     ensure (state s \<in> set states) (Sequence cmd (state_name (state s)))"

definition conn_stage :: "byte \<Rightarrow> bool" where
  "conn_stage c = (c = CHR ''C'' \<or> c = CHR ''H'')"

definition reset_message :: "session \<Rightarrow> session" where
  "reset_message s = s\<lparr>message := default_message,
     macros := bmap_retain conn_stage (macros s),
     pending_macros := bmap_retain conn_stage (pending_macros s),
     pending := None\<rparr>"

definition activate_macros :: "byte \<Rightarrow> session \<Rightarrow> session" where
  "activate_macros cmd s =
     (case map_of (pending_macros s) cmd of
        Some values \<Rightarrow>
          s\<lparr>pending_macros := bmap_remove cmd (pending_macros s),
            macros := bmap_insert cmd values (macros s)\<rparr>
      | None \<Rightarrow> s\<lparr>macros := bmap_remove cmd (macros s)\<rparr>)"

fun find_macro :: "(byte, macros) bmap \<Rightarrow> bytes \<Rightarrow> byte list \<Rightarrow> bytes option" where
  "find_macro ms name [] = None"
| "find_macro ms name (st # sts) =
     (case map_of ms st of
        None \<Rightarrow> find_macro ms name sts
      | Some m \<Rightarrow>
          (case map_of m name of
             Some v \<Rightarrow> Some v
           | None \<Rightarrow>
               (case map_of m (''{'' @ name @ ''}'') of
                  Some v \<Rightarrow> Some v
                | None \<Rightarrow> find_macro ms name sts)))"

definition macro_value :: "session \<Rightarrow> bytes \<Rightarrow> bytes option" where
  "macro_value s name = find_macro (macros s) name ''EBNLTURMHC''"

definition set_msg_bytes :: "nat \<Rightarrow> session \<Rightarrow> session" where
  "set_msg_bytes n s = s\<lparr>message := (message s)\<lparr>msg_bytes := n\<rparr>\<rparr>"

definition account :: "nat \<Rightarrow> session \<Rightarrow> unit result \<times> session" where
  "account n =
     bind_s (check_s (\<lambda>s. ok_or (Limit ''message'') (checked_add (msg_bytes (message s)) n)))
       (\<lambda>b. bind_s (modify_s (set_msg_bytes b)) (\<lambda>_.
          check_s (\<lambda>s. ensure (msg_bytes (message s) \<le> lim_message_bytes (limits s))
            (Limit ''message''))))"

definition set_envelope_bytes :: "nat \<Rightarrow> session \<Rightarrow> session" where
  "set_envelope_bytes n s = s\<lparr>message := (message s)\<lparr>msg_envelope_bytes := n\<rparr>\<rparr>"

fun count_envelope :: "bytes list \<Rightarrow> session \<Rightarrow> unit result \<times> session" where
  "count_envelope [] s = (Inr (), s)"
| "count_envelope (f # fs) s =
     (case checked_add (msg_envelope_bytes (message s)) (length f + 1) of
        None \<Rightarrow> (Inl (Limit ''envelope''), s)
      | Some n \<Rightarrow> count_envelope fs (set_envelope_bytes n s))"

definition account_envelope :: "bytes list \<Rightarrow> session \<Rightarrow> unit result \<times> session" where
  "account_envelope flds =
     bind_s (count_envelope flds) (\<lambda>_.
       check_s (\<lambda>s. ensure (msg_envelope_bytes (message s) \<le> lim_envelope_bytes (limits s))
         (Limit ''envelope'')))"

definition leading_space :: "session \<Rightarrow> bool" where
  "leading_space s =
     (case opts s of None \<Rightarrow> False | Some o' \<Rightarrow> protocol o' AND HEADER_LEADING_SPACE \<noteq> 0)"

definition raw_header :: "bool \<Rightarrow> bytes \<times> bytes \<Rightarrow> bytes" where
  "raw_header ls h =
     (case h of (name, value) \<Rightarrow>
        name @ CHR '':'' #
        (if \<not> ls \<and> (value = [] \<or> hd value \<notin> {CR, LF}) then [SP] else []) @ value @ [CR, LF])"

definition raw_message :: "session \<Rightarrow> bytes" where
  "raw_message s =
     concat (map (raw_header (leading_space s)) (headers (message s))) @ [CR, LF] @
     body (message s)"

section \<open>Receiving a frame\<close>

text \<open>The capability word the negotiation wants to keep: the reply is suppressed for a stage
  nobody subscribed.\<close>

definition wanted_protocol :: "stage list \<Rightarrow> u32" where
  "wanted_protocol sts =
     foldl (\<lambda>p (stage, flag). if stage \<notin> set sts then p OR flag else p)
       (NR_HEADER OR NR_DATA OR NR_UNKNOWN OR NR_EOH OR NR_BODY OR HEADER_LEADING_SPACE)
       [(StConnect, NR_CONNECT), (StHelo, NR_HELO), (StMail, NR_MAIL), (StRecipient, NR_RCPT)]"

definition receive_negotiate :: "byte \<Rightarrow> options \<Rightarrow> session \<Rightarrow> step result \<times> session" where
  "receive_negotiate opcode offered s =
     (case bind_r (require opcode [Initial] s) (\<lambda>_.
        bind_r (ensure (VERSION \<le> version offered) (Invalid ''milter v6 required'')) (\<lambda>_.
          let o' = \<lparr>version = VERSION,
                    actions = actions offered AND wanted_actions s,
                    protocol = protocol offered AND wanted_protocol (stages s)\<rparr> in
          bind_r (frame_with_macros o' (macro_lists s)) (\<lambda>f. Inr (o', f)))) of
        Inl e \<Rightarrow> (Inl e, s)
      | Inr (o', f) \<Rightarrow>
          (Inr (empty_step\<lparr>step_frames := [f]\<rparr>), s\<lparr>opts := Some o', state := Negotiated\<rparr>))"

definition macro_size :: "macros \<Rightarrow> nat" where
  "macro_size m = bmap_total (\<lambda>k v. length k + length v) m"

definition macro_total :: "session \<Rightarrow> nat" where
  "macro_total s =
     bmap_total (\<lambda>_. macro_size) (macros s) + bmap_total (\<lambda>_. macro_size) (pending_macros s)"

definition receive_macro ::
  "byte \<Rightarrow> (bytes \<times> bytes) list \<Rightarrow> session \<Rightarrow> step result \<times> session" where
  "receive_macro stage values =
     bind_s (modify_s (\<lambda>s. s\<lparr>pending_macros :=
         bmap_insert stage (bmap_collect values) (pending_macros s)\<rparr>)) (\<lambda>_.
     bind_s (check_s (\<lambda>s. ensure (macro_total s \<le> lim_macro_bytes (limits s)) (Limit ''macros'')))
       (\<lambda>_. return_s empty_step))"

text \<open>MAIL starts a new transaction; its own macro batch survives the reset. The batch is taken
  out of the pending map before the state is checked.\<close>

definition begin_mail :: "byte \<Rightarrow> session \<Rightarrow> unit result \<times> session" where
  "begin_mail opcode s =
     (let batch = map_of (pending_macros s) (CHR ''M'');
          s1 = s\<lparr>pending_macros := bmap_remove (CHR ''M'') (pending_macros s)\<rparr> in
      case require opcode [Ready] s1 of
        Inl e \<Rightarrow> (Inl e, s1)
      | Inr _ \<Rightarrow>
          (let s2 = reset_message s1 in
           (Inr (),
            (case batch of
               None \<Rightarrow> s2
             | Some values \<Rightarrow>
                 s2\<lparr>pending_macros := bmap_insert (CHR ''M'') values (pending_macros s2)\<rparr>))))"

definition add_recipient :: "envelope_address \<Rightarrow> session \<Rightarrow> session" where
  "add_recipient r s = s\<lparr>message := (message s)\<lparr>recipients := recipients (message s) @ [r]\<rparr>\<rparr>"

definition add_header :: "bytes \<times> bytes \<Rightarrow> session \<Rightarrow> session" where
  "add_header h s = s\<lparr>message := (message s)\<lparr>headers := headers (message s) @ [h]\<rparr>\<rparr>"

definition add_body :: "bytes \<Rightarrow> session \<Rightarrow> session" where
  "add_body b s = s\<lparr>message := (message s)\<lparr>body := body (message s) @ b\<rparr>\<rparr>"

text \<open>What an arm of the big match leaves in \<open>step.event\<close>, \<open>reply_bit\<close> and \<open>step.close\<close>.\<close>

type_synonym outcome = "stage option \<times> u32 option \<times> bool"

fun dispatch :: "byte \<Rightarrow> command \<Rightarrow> session \<Rightarrow> outcome result \<times> session" where
  "dispatch op (Connect info) =
     bind_s (check_s (require op [Negotiated])) (\<lambda>_.
     bind_s (modify_s (\<lambda>s. s\<lparr>conn := Some info, state := Ready\<rparr>)) (\<lambda>_.
       return_s (Some StConnect, Some NR_CONNECT, False)))"
| "dispatch op (Helo h) =
     bind_s (check_s (require op [Ready])) (\<lambda>_.
     bind_s (modify_s (\<lambda>s. s\<lparr>helo := Some h\<rparr>)) (\<lambda>_.
       return_s (Some StHelo, Some NR_HELO, False)))"
| "dispatch op (Mail flds) =
     bind_s (account_envelope flds) (\<lambda>_.
     bind_s (check_s (\<lambda>_. envelope_address_from flds)) (\<lambda>a.
     bind_s (modify_s (\<lambda>s. s\<lparr>message := (message s)\<lparr>sender := Some a\<rparr>, state := InMail\<rparr>)) (\<lambda>_.
       return_s (Some StMail, Some NR_MAIL, False))))"
| "dispatch op (Recipient flds) =
     bind_s (check_s (require op [InMail, InRecipients])) (\<lambda>_.
     bind_s (account_envelope flds) (\<lambda>_.
     bind_s (check_s (\<lambda>s. ensure
         (length (recipients (message s)) < lim_recipients (limits s)) (Limit ''recipients''))) (\<lambda>_.
     bind_s (check_s (\<lambda>_. envelope_address_from flds)) (\<lambda>a.
     bind_s (modify_s (\<lambda>s. (add_recipient a s)\<lparr>state := InRecipients\<rparr>)) (\<lambda>_.
       return_s (Some StRecipient, Some NR_RCPT, False))))))"
| "dispatch op Data =
     bind_s (check_s (require op [InRecipients])) (\<lambda>_.
     bind_s (modify_s (\<lambda>s. s\<lparr>state := InData\<rparr>)) (\<lambda>_.
       return_s (None, Some NR_DATA, False)))"
| "dispatch op (Header name value) =
     bind_s (check_s (require op [InData, InHeaders])) (\<lambda>_.
     bind_s (check_s (\<lambda>s. ensure (length (headers (message s)) < lim_headers (limits s))
         (Limit ''headers''))) (\<lambda>_.
     bind_s (account (length name + length value + 4)) (\<lambda>_.
     bind_s (modify_s (\<lambda>s. (add_header (name, value) s)\<lparr>state := InHeaders\<rparr>)) (\<lambda>_.
       return_s (None, Some NR_HEADER, False)))))"
| "dispatch op EndHeaders =
     bind_s (check_s (require op [InData, InHeaders])) (\<lambda>_.
     bind_s (account 2) (\<lambda>_.
     bind_s (modify_s (\<lambda>s. s\<lparr>state := InBody\<rparr>)) (\<lambda>_.
       return_s (None, Some NR_EOH, False))))"
| "dispatch op (Body b) =
     bind_s (check_s (require op [InBody])) (\<lambda>_.
     bind_s (account (length b)) (\<lambda>_.
     bind_s (modify_s (add_body b)) (\<lambda>_.
       return_s (None, Some NR_BODY, False))))"
| "dispatch op EndMessage =
     bind_s (check_s (require op [InBody])) (\<lambda>_.
       return_s (Some StEndMessage, None, False))"
| "dispatch op Abort =
     bind_s (modify_s reset_message) (\<lambda>_.
     bind_s (modify_s (\<lambda>s.
         if conn s \<noteq> None \<and> state s \<noteq> Stopped then s\<lparr>state := Ready\<rparr> else s)) (\<lambda>_.
       return_s (None, None, False)))"
| "dispatch op QuitNewConnection =
     bind_s (modify_s reset_message) (\<lambda>_.
     bind_s (modify_s (\<lambda>s. s\<lparr>conn := None, helo := None, macros := [], pending_macros := [],
         state := Negotiated\<rparr>)) (\<lambda>_.
       return_s (None, None, False)))"
| "dispatch op Quit =
     bind_s (modify_s reset_message) (\<lambda>_.
     bind_s (modify_s (\<lambda>s. s\<lparr>state := Closed\<rparr>)) (\<lambda>_.
       return_s (None, None, True)))"
| "dispatch op (Unknown u) = return_s (None, Some NR_UNKNOWN, False)"
| "dispatch op _ = fail_s (Panic ''unreachable'')"

text \<open>After the match: keep only subscribed events (and EOM), then either wait for the callback
  or answer CONTINUE unless the MTA agreed that no reply is sent.\<close>

definition finish_step :: "outcome \<Rightarrow> session \<Rightarrow> step result \<times> session" where
  "finish_step out s =
     (case out of (ev, reply_bit, cl) \<Rightarrow>
        (let ev' = (case ev of
                      Some st \<Rightarrow> if st \<noteq> StEndMessage \<and> st \<notin> set (stages s) then None else ev
                    | None \<Rightarrow> None) in
         case ev' of
           Some st \<Rightarrow>
             (Inr \<lparr>step_frames = [], event = ev', close = cl\<rparr>, s\<lparr>pending := Some st\<rparr>)
         | None \<Rightarrow>
             (case reply_bit of
                None \<Rightarrow> (Inr \<lparr>step_frames = [], event = None, close = cl\<rparr>, s)
              | Some b \<Rightarrow>
                  (case opts s of
                     None \<Rightarrow> (Inl (Panic ''negotiated''), s)
                   | Some o' \<Rightarrow>
                       (Inr \<lparr>step_frames =
                               (if protocol o' AND b = 0 then [empty_frame (CHR ''c'')] else []),
                             event = None, close = cl\<rparr>, s)))))"

fun is_mail :: "command \<Rightarrow> bool" where
  "is_mail (Mail f) = True"
| "is_mail _ = False"

definition receive_command :: "byte \<Rightarrow> command \<Rightarrow> session \<Rightarrow> step result \<times> session" where
  "receive_command op cmd =
     bind_s (if is_mail cmd then begin_mail op else return_s ()) (\<lambda>_.
     bind_s (modify_s (activate_macros op)) (\<lambda>_.
     bind_s (dispatch op cmd) finish_step))"

definition receive :: "frame \<Rightarrow> session \<Rightarrow> step result \<times> session" where
  "receive f s =
     (if pending s \<noteq> None then (Inl (Invalid ''callback has no decision yet''), s)
      else (case decode f of
        Inl e \<Rightarrow> (Inl e, s)
      | Inr cmd \<Rightarrow>
          if state s = Closed then (Inl (Invalid ''closed session''), s)
          else (case cmd of
            Negotiate offered \<Rightarrow> receive_negotiate (frame.command f) offered s
          | _ \<Rightarrow>
              if state s = Initial then (Inl (Invalid ''negotiate first''), s)
              else (case cmd of
                Macro st values \<Rightarrow> receive_macro st values s
              | _ \<Rightarrow> receive_command (frame.command f) cmd s))))"

section \<open>Completing a callback\<close>

definition emit_frame :: "limits \<Rightarrow> frame list \<times> nat \<Rightarrow> frame \<Rightarrow> (frame list \<times> nat) result" where
  "emit_frame lims acc f =
     (case acc of (out, output_bytes) \<Rightarrow>
        bind_r (ensure (length (payload f) + 1 \<le> lim_frame_bytes lims) (Limit ''output frame''))
          (\<lambda>_. bind_r (ok_or (Limit ''output'') (checked_add output_bytes (length (payload f))))
          (\<lambda>n. bind_r (ensure (n \<le> lim_message_bytes lims) (Limit ''output''))
          (\<lambda>_. Inr (out @ [f], n)))))"

definition emit_modification ::
  "session \<Rightarrow> options \<Rightarrow> frame list \<times> nat \<Rightarrow> modification \<Rightarrow> (frame list \<times> nat) result" where
  "emit_modification s o' acc m =
     (case acc of (out, output_bytes) \<Rightarrow>
        bind_r (ensure (actions o' AND capability m \<noteq> 0) NotNegotiated) (\<lambda>_.
        bind_r (payload_bytes m (leading_space s)) (\<lambda>size.
        bind_r (ok_or (Limit ''output'') (checked_add output_bytes size)) (\<lambda>next_bytes.
        bind_r (ensure (next_bytes \<le> lim_message_bytes (limits s)) (Limit ''output'')) (\<lambda>_.
        bind_r (frames m (leading_space s)) (\<lambda>fs.
          fold_r (emit_frame (limits s)) (out, output_bytes) fs))))))"

text \<open>The frame of a verdict, and whether it rejects, finishes or disconnects.\<close>

definition enhanced_ok :: "u16 \<Rightarrow> bytes \<Rightarrow> bool" where
  "enhanced_ok code enhanced =
     (let parts = split_on (CHR ''.'') enhanced in
      length parts = 3 \<and> parts ! 0 = dec (unat code div 100) \<and>
      list_all (\<lambda>p. p \<noteq> [] \<and> length p \<le> 3 \<and> list_all is_ascii_digit p) (tl parts))"

fun verdict_frame :: "verdict \<Rightarrow> (frame \<times> bool \<times> bool \<times> bool) result" where
  "verdict_frame Continue = Inr (empty_frame (CHR ''c''), False, False, False)"
| "verdict_frame Accept = Inr (empty_frame (CHR ''a''), False, True, False)"
| "verdict_frame Reject = Inr (empty_frame (CHR ''r''), True, False, False)"
| "verdict_frame Tempfail = Inr (empty_frame (CHR ''t''), True, False, False)"
| "verdict_frame Discard = Inr (empty_frame (CHR ''d''), False, True, False)"
| "verdict_frame (Reply code enhanced msg) =
     bind_r (ensure (400 \<le> unat code \<and> unat code < 600)
        (Invalid ''SMTP error code must be 4xx or 5xx'')) (\<lambda>_.
     bind_r (clean msg) (\<lambda>_.
     bind_r (case enhanced of
               None \<Rightarrow> Inr (dec (unat code))
             | Some e \<Rightarrow>
                 bind_r (ensure (enhanced_ok code e) (Invalid ''enhanced SMTP code'')) (\<lambda>_.
                   Inr (dec (unat code) @ [SP] @ e))) (\<lambda>txt.
     bind_r (string_frame (CHR ''y'') [txt @ [SP] @ msg]) (\<lambda>f.
       Inr (f, True, False, False)))))"
| "verdict_frame Shutdown = Inr (empty_frame SHUTDOWN, True, False, True)"

definition pop_recipient :: "session \<Rightarrow> session" where
  "pop_recipient s = s\<lparr>message := (message s)\<lparr>recipients := butlast (recipients (message s))\<rparr>\<rparr>"

definition after_verdict :: "stage \<Rightarrow> bool \<Rightarrow> bool \<Rightarrow> bool \<Rightarrow> session \<Rightarrow> session" where
  "after_verdict stage rejected finished disconnect s =
     (if disconnect then (reset_message s)\<lparr>state := Stopped\<rparr>
      else if rejected \<and> stage = StRecipient then
        (let s' = pop_recipient s in
         s'\<lparr>state := (if recipients (message s') = [] then InMail else InRecipients)\<rparr>)
      else if rejected \<and> (stage = StConnect \<or> stage = StHelo) then s\<lparr>state := Stopped\<rparr>
      else if stage = StEndMessage \<or> rejected \<or> finished then
        (reset_message s)\<lparr>state := Ready\<rparr>
      else s)"

text \<open>Everything \<open>complete\<close> checks before it touches the session.\<close>

definition check_decision ::
  "session \<Rightarrow> decision \<Rightarrow> (stage \<times> frame list \<times> bool \<times> bool \<times> bool) result" where
  "check_decision s d =
     bind_r (ok_or (Invalid ''no pending callback'') (pending s)) (\<lambda>stage.
     bind_r (ok_or (Panic ''negotiated'') (opts s)) (\<lambda>o'.
     bind_r (ensure (modifications d = [] \<or> stage = StEndMessage)
        (Invalid ''modifications require EOM'')) (\<lambda>_.
     bind_r (ensure (length (modifications d) \<le> lim_modifications (limits s))
        (Limit ''modifications'')) (\<lambda>_.
     bind_r (fold_r (emit_modification s o') ([], 0) (modifications d)) (\<lambda>(out, _).
     bind_r (verdict_frame (verdict d)) (\<lambda>(final, rejected, finished, disconnect).
     bind_r (ensure (length (payload final) + 1 \<le> lim_frame_bytes (limits s))
        (Limit ''SMTP reply'')) (\<lambda>_.
       Inr (stage, (if rejected \<or> verdict d = Discard then [] else out) @ [final],
            rejected, finished, disconnect))))))))"

definition complete :: "decision \<Rightarrow> session \<Rightarrow> frame list result \<times> session" where
  "complete d s =
     (case check_decision s d of
        Inl e \<Rightarrow> (Inl e, s)
      | Inr (stage, out, rejected, finished, disconnect) \<Rightarrow>
          (Inr out, after_verdict stage rejected finished disconnect (s\<lparr>pending := None\<rparr>)))"

end
