(* ===== verification/Session_Inv.thy ===== *)
theory Session_Inv
  imports Session Transition
begin

text \<open>
  The invariant of a milter session and its preservation by \<open>receive\<close> and \<open>complete\<close>:
  \<open>phase_inv\<close> ties the protocol state to the data collected so far and to the pending
  callback, \<open>size_inv\<close> states the resource limits with exact accounting, \<open>macro_inv\<close> the
  macro budget, \<open>opts_inv\<close> that only offered, wanted and supported capabilities are in force.
\<close>

named_theorems session_simps \<open>projections of the session operations\<close>

section \<open>The invariant\<close>

definition header_cost :: "(bytes \<times> bytes) list \<Rightarrow> nat" where
  "header_cost hs = sum_list (map (\<lambda>(n, v). length n + length v + 4) hs)"

definition address_cost :: "envelope_address \<Rightarrow> nat" where
  "address_cost a = sum_list (map (\<lambda>f. length f + 1) (address a # parameters a))"

definition envelope_cost :: "message \<Rightarrow> nat" where
  "envelope_cost m = (case sender m of None \<Rightarrow> 0 | Some a \<Rightarrow> address_cost a) +
     sum_list (map address_cost (recipients m))"

fun stage_state :: "stage \<Rightarrow> state" where
  "stage_state StConnect = Ready"
| "stage_state StHelo = Ready"
| "stage_state StMail = InMail"
| "stage_state StRecipient = InRecipients"
| "stage_state StEndMessage = InBody"

text \<open>What the message under construction holds in each state. The byte count is exact: four bytes
  of overhead per header, two for the blank line.\<close>

fun message_fits :: "state \<Rightarrow> message \<Rightarrow> bool" where
  "message_fits InMail m = (sender m \<noteq> None \<and> recipients m = [] \<and> headers m = [] \<and>
     body m = [] \<and> msg_bytes m = 0)"
| "message_fits InRecipients m = (sender m \<noteq> None \<and> recipients m \<noteq> [] \<and> headers m = [] \<and>
     body m = [] \<and> msg_bytes m = 0)"
| "message_fits InData m = (sender m \<noteq> None \<and> recipients m \<noteq> [] \<and> headers m = [] \<and>
     body m = [] \<and> msg_bytes m = 0)"
| "message_fits InHeaders m = (sender m \<noteq> None \<and> recipients m \<noteq> [] \<and> headers m \<noteq> [] \<and>
     body m = [] \<and> msg_bytes m = header_cost (headers m))"
| "message_fits InBody m = (sender m \<noteq> None \<and> recipients m \<noteq> [] \<and>
     msg_bytes m = header_cost (headers m) + 2 + length (body m))"
| "message_fits _ m = (m = default_message)"

fun conn_fits :: "state \<Rightarrow> connection option \<Rightarrow> bool" where
  "conn_fits Initial c = (c = None)"
| "conn_fits Negotiated c = (c = None)"
| "conn_fits Closed c = True"
| "conn_fits _ c = (c \<noteq> None)"

fun pending_fits :: "stage list \<Rightarrow> state \<Rightarrow> stage option \<Rightarrow> bool" where
  "pending_fits sts st None = True"
| "pending_fits sts st (Some p) =
     (st = stage_state p \<and> (p = StEndMessage \<or> p \<in> set sts))"

lemma stage_state_not_Initial [simp]: "stage_state st \<noteq> Initial" "Initial \<noteq> stage_state st"
  by (cases st; simp)+

lemma pending_fits_Initial [simp]: "pending_fits sts Initial p \<longleftrightarrow> p = None"
  by (cases p) auto

definition phase_inv :: "session \<Rightarrow> bool" where
  "phase_inv s \<longleftrightarrow>
     (state s = Initial \<longleftrightarrow> opts s = None) \<and> conn_fits (state s) (conn s) \<and>
     message_fits (state s) (message s) \<and> pending_fits (stages s) (state s) (pending s)"

definition size_inv :: "session \<Rightarrow> bool" where
  "size_inv s \<longleftrightarrow>
     length (recipients (message s)) \<le> lim_recipients (limits s) \<and>
     length (headers (message s)) \<le> lim_headers (limits s) \<and>
     msg_bytes (message s) \<le> lim_message_bytes (limits s) \<and>
     envelope_cost (message s) \<le> msg_envelope_bytes (message s) \<and>
     msg_envelope_bytes (message s) \<le> lim_envelope_bytes (limits s)"

definition macro_inv :: "session \<Rightarrow> bool" where
  "macro_inv s \<longleftrightarrow> bmap_invar (macros s) \<and> bmap_invar (pending_macros s) \<and>
     macro_total s \<le> lim_macro_bytes (limits s)"

definition opts_inv :: "session \<Rightarrow> bool" where
  "opts_inv s \<longleftrightarrow> wanted_actions s AND SUPPORTED_ACTIONS = wanted_actions s \<and>
     (\<forall>o'. opts s = Some o' \<longrightarrow>
        version o' = VERSION \<and> actions o' AND wanted_actions s = actions o' \<and>
        protocol o' AND wanted_protocol (stages s) = protocol o')"

definition session_inv :: "session \<Rightarrow> bool" where
  "session_inv s \<longleftrightarrow> phase_inv s \<and> size_inv s \<and> macro_inv s \<and> opts_inv s"

section \<open>Projections of the operations\<close>

lemma reset_message_sel [session_simps]:
  "state (reset_message s) = state s" "opts (reset_message s) = opts s"
  "conn (reset_message s) = conn s" "helo (reset_message s) = helo s"
  "message (reset_message s) = default_message" "limits (reset_message s) = limits s"
  "macros (reset_message s) = bmap_retain conn_stage (macros s)"
  "pending_macros (reset_message s) = bmap_retain conn_stage (pending_macros s)"
  "pending (reset_message s) = None" "stages (reset_message s) = stages s"
  "wanted_actions (reset_message s) = wanted_actions s"
  "macro_lists (reset_message s) = macro_lists s"
  by (simp_all add: reset_message_def)

lemma activate_macros_sel [session_simps]:
  "state (activate_macros c s) = state s" "opts (activate_macros c s) = opts s"
  "conn (activate_macros c s) = conn s" "helo (activate_macros c s) = helo s"
  "message (activate_macros c s) = message s" "limits (activate_macros c s) = limits s"
  "pending (activate_macros c s) = pending s" "stages (activate_macros c s) = stages s"
  "wanted_actions (activate_macros c s) = wanted_actions s"
  "macro_lists (activate_macros c s) = macro_lists s"
  by (simp_all add: activate_macros_def split: option.splits)

lemma begin_mail_iff:
  "begin_mail op s = (Inr u, t) \<longleftrightarrow> state s = Ready \<and>
   (let p = bmap_retain conn_stage (bmap_remove (CHR ''M'') (pending_macros s)) in
    t = s\<lparr>message := default_message, macros := bmap_retain conn_stage (macros s),
      pending_macros := (case map_of (pending_macros s) (CHR ''M'') of
        None \<Rightarrow> p | Some v \<Rightarrow> bmap_insert (CHR ''M'') v p), pending := None\<rparr>)"
  by (cases "state s = Ready")
    (auto simp: begin_mail_def reset_message_def require_def Let_def split: option.splits)

lemma header_cost_simps [simp]:
  "header_cost [] = 0" "header_cost (hs @ [(n, v)]) = header_cost hs + (length n + length v + 4)"
  by (simp_all add: header_cost_def)

lemma default_message_sel [simp]:
  "sender default_message = None" "recipients default_message = []"
  "headers default_message = []" "body default_message = []" "msg_bytes default_message = 0"
  "msg_envelope_bytes default_message = 0"
  by (simp_all add: default_message_def)

lemma envelope_cost_default [simp]: "envelope_cost default_message = 0"
  by (simp add: envelope_cost_def)

lemma account_iff [result_simps]:
  "account n s = (Inr u, t) \<longleftrightarrow>
   msg_bytes (message s) + n \<le> usize_max \<and>
   msg_bytes (message s) + n \<le> lim_message_bytes (limits s) \<and>
   t = set_msg_bytes (msg_bytes (message s) + n) s"
  by (auto simp: account_def result_simps set_msg_bytes_def)

lemma count_envelope_iff:
  "count_envelope fs s = (Inr u, t) \<longleftrightarrow>
   (let n = msg_envelope_bytes (message s) + sum_list (map (\<lambda>f. length f + 1) fs) in
    (fs = [] \<or> n \<le> usize_max) \<and> t = set_envelope_bytes n s)"
proof (induction fs arbitrary: s)
  case Nil
  then show ?case by (auto simp: set_envelope_bytes_def)
next
  case (Cons f fs)
  let ?n = "msg_envelope_bytes (message s) + (length f + 1)"
  let ?m = "msg_envelope_bytes (message s) + sum_list (map (\<lambda>f. length f + 1) (f # fs))"
  have "msg_envelope_bytes (message (set_envelope_bytes ?n s)) = ?n"
    and "\<And>k. set_envelope_bytes k (set_envelope_bytes ?n s) = set_envelope_bytes k s"
    by (simp_all add: set_envelope_bytes_def)
  moreover have "?m = ?n + sum_list (map (\<lambda>f. length f + 1) fs)" by simp
  ultimately have "count_envelope fs (set_envelope_bytes ?n s) = (Inr u, t) \<longleftrightarrow>
      (fs = [] \<or> ?m \<le> usize_max) \<and> t = set_envelope_bytes ?m s"
    unfolding Cons.IH Let_def by metis
  moreover have "?n \<le> ?m" by simp
  moreover have "fs = [] \<Longrightarrow> ?n = ?m" by simp
  ultimately show ?case
    unfolding Let_def by (cases "?n \<le> usize_max") (auto simp: checked_add_def simp del: list.map sum_list.Cons)
qed

lemma account_envelope_iff [result_simps]:
  "account_envelope fs s = (Inr u, t) \<longleftrightarrow>
   (let n = msg_envelope_bytes (message s) + sum_list (map (\<lambda>f. length f + 1) fs) in
    (fs = [] \<or> n \<le> usize_max) \<and> n \<le> lim_envelope_bytes (limits s) \<and>
    t = set_envelope_bytes n s)"
  by (auto simp: account_envelope_def result_simps count_envelope_iff set_envelope_bytes_def Let_def)

lemma require_iff [result_simps]: "require c sts s = Inr u \<longleftrightarrow> state s \<in> set sts"
  by (simp add: require_def result_simps)

lemma envelope_address_from_iff [result_simps]:
  "envelope_address_from fs = Inr a \<longleftrightarrow> fs = address a # parameters a"
  by (cases a) (auto simp: envelope_address_from_def split: list.splits)

section \<open>The macro budget\<close>

lemma macro_inv_reset: "macro_inv s \<Longrightarrow> macro_inv (reset_message s)"
  unfolding macro_inv_def macro_total_def
  using bm.total_retain [of "macros s" "\<lambda>_. macro_size" conn_stage]
    bm.total_retain [of "pending_macros s" "\<lambda>_. macro_size" conn_stage]
  by (simp add: session_simps bm.invar_retain)

lemma macro_inv_activate:
  assumes "macro_inv s"
  shows "macro_inv (activate_macros c s)"
proof (cases "map_of (pending_macros s) c")
  case None
  with assms show ?thesis
    using bm.total_remove_le [of "macros s" "\<lambda>_. macro_size" c]
    by (simp add: macro_inv_def macro_total_def activate_macros_def bm.invar_remove)
next
  case (Some v)
  with assms show ?thesis
    using bm.total_move_le [of "macros s" "pending_macros s" c v "\<lambda>_. macro_size"]
    by (simp add: macro_inv_def macro_total_def activate_macros_def bm.invar_remove bm.invar_insert)
qed

lemma macro_inv_begin_mail:
  assumes "macro_inv s" and "begin_mail op s = (Inr u, t)"
  shows "macro_inv t"
proof -
  let ?M = "CHR ''M''" and ?w = "\<lambda>_ :: byte. macro_size"
  let ?q = "bmap_remove ?M (pending_macros s)"
  let ?p = "bmap_retain conn_stage ?q"
  have inv: "bmap_invar (macros s)" "bmap_invar (pending_macros s)" "bmap_invar ?q" "bmap_invar ?p"
    using assms(1) by (simp_all add: macro_inv_def bm.invar_remove bm.invar_retain)
  have le: "bmap_total ?w (bmap_retain conn_stage (macros s)) \<le> bmap_total ?w (macros s)"
    "bmap_total ?w ?p \<le> bmap_total ?w ?q" "bmap_total ?w (bmap_remove ?M ?p) \<le> bmap_total ?w ?p"
    using inv by (simp_all add: bm.total_retain bm.total_remove_le)
  have q: "bmap_total ?w (pending_macros s) = bmap_total ?w ?q +
      (case map_of (pending_macros s) ?M of None \<Rightarrow> 0 | Some v \<Rightarrow> macro_size v)"
    using inv(2) by (rule bm.total_remove)
  show ?thesis
  proof (cases "map_of (pending_macros s) ?M")
    case None
    with assms inv le q show ?thesis
      by (simp add: macro_inv_def macro_total_def begin_mail_iff Let_def bm.invar_retain)
  next
    case (Some v)
    with assms inv le q bm.total_insert [OF inv(4), of ?w ?M v] show ?thesis
      by (simp add: macro_inv_def macro_total_def begin_mail_iff Let_def bm.invar_retain
          bm.invar_insert)
  qed
qed

lemma macro_inv_cong:
  "macros t = macros s \<Longrightarrow> pending_macros t = pending_macros s \<Longrightarrow> limits t = limits s \<Longrightarrow>
   macro_inv t = macro_inv s"
  by (simp add: macro_inv_def macro_total_def)

section \<open>Accepted commands\<close>

lemmas update_defs = set_msg_bytes_def set_envelope_bytes_def add_recipient_def add_header_def
  add_body_def

lemma dispatch_config:
  assumes "dispatch op c s = (Inr out, t)"
  shows "limits t = limits s \<and> stages t = stages s \<and> wanted_actions t = wanted_actions s \<and>
    macro_lists t = macro_lists s \<and> opts t = opts s"
  using assms
  by (cases c) (auto simp: result_simps update_defs session_simps Let_def split: if_splits)

lemma dispatch_macros:
  assumes "dispatch op c s = (Inr out, t)"
  shows "(macros t, pending_macros t) =
    (if c = QuitNewConnection then ([], [])
     else if c \<in> {Abort, Quit} then (macros (reset_message s), pending_macros (reset_message s))
     else (macros s, pending_macros s))"
  using assms
  by (cases c) (auto simp: result_simps update_defs session_simps Let_def split: if_splits)

lemma dispatch_macro_inv:
  assumes "dispatch op c s = (Inr out, t)" and "macro_inv s"
  shows "macro_inv t"
proof -
  have "limits t = limits s" using dispatch_config [OF assms(1)] by simp
  moreover note dispatch_macros [OF assms(1)]
  moreover have "macro_inv (reset_message s)" using assms(2) by (rule macro_inv_reset)
  ultimately show ?thesis
    using macro_inv_cong [of t "reset_message s"] macro_inv_cong [of t s] assms(2)
    by (auto simp: session_simps macro_inv_def [of t] macro_total_def [of t] split: if_splits)
qed

lemma dispatch_size_inv:
  assumes "dispatch op c s = (Inr out, t)" and "size_inv s"
    and "is_mail c \<Longrightarrow> message s = default_message"
  shows "size_inv t"
proof (cases c)
  case (Mail fs)
  with assms show ?thesis
    by (auto simp: result_simps update_defs Let_def size_inv_def envelope_cost_def
        address_cost_def)
next
  case (Recipient fs)
  with assms show ?thesis
    by (auto simp: result_simps update_defs Let_def size_inv_def envelope_cost_def
        address_cost_def)
next
  case Abort
  with assms show ?thesis
    by (auto simp: result_simps session_simps size_inv_def split: if_splits)
qed (use assms in \<open>auto simp: result_simps update_defs session_simps size_inv_def envelope_cost_def\<close>)

text \<open>What a command does to the protocol state and to the message it is collecting.\<close>

lemma dispatch_phase_inv:
  assumes "dispatch op c s = (Inr (ev, rb, cl), t)" and "phase_inv s" and "pending s = None"
    and "state s \<noteq> Initial" and "state s \<noteq> Closed" and "is_mail c \<Longrightarrow> state s = Ready"
  shows "phase_inv t \<and> pending t = None \<and> (\<forall>st. ev = Some st \<longrightarrow> state t = stage_state st)"
proof (cases c)
  case Abort
  with assms show ?thesis
    by (cases "state s") (auto simp: result_simps session_simps phase_inv_def split: if_splits)
next
  case (Unknown u)
  with assms show ?thesis by (auto simp: result_simps)
qed (use assms in \<open>auto simp: result_simps update_defs session_simps Let_def phase_inv_def\<close>)

section \<open>Preservation by \<open>receive\<close>\<close>

text \<open>The event of a finished step is the one the match raised, if it is subscribed.\<close>

definition subscribed :: "stage list \<Rightarrow> stage option \<Rightarrow> stage option" where
  "subscribed sts ev = (case ev of
     None \<Rightarrow> None | Some st \<Rightarrow> if st = StEndMessage \<or> st \<in> set sts then Some st else None)"

lemma finish_step_iff:
  "finish_step (ev, rb, cl) s = (Inr stp, t) \<longleftrightarrow>
   (case subscribed (stages s) ev of
      Some st \<Rightarrow> stp = \<lparr>step_frames = [], event = Some st, close = cl\<rparr> \<and> t = s\<lparr>pending := Some st\<rparr>
    | None \<Rightarrow> t = s \<and>
        (case rb of
           None \<Rightarrow> stp = \<lparr>step_frames = [], event = None, close = cl\<rparr>
         | Some b \<Rightarrow> (\<exists>o'. opts s = Some o' \<and>
             stp = \<lparr>step_frames = (if protocol o' AND b = 0 then [empty_frame (CHR ''c'')] else []),
               event = None, close = cl\<rparr>)))"
  by (cases ev) (auto simp: finish_step_def subscribed_def Let_def split: option.splits)

lemma subscribed_Some:
  "subscribed sts ev = Some st \<Longrightarrow> ev = Some st \<and> (st = StEndMessage \<or> st \<in> set sts)"
  by (auto simp: subscribed_def split: option.splits if_splits)

lemma finish_step_session:
  assumes "finish_step (ev, rb, cl) s = (Inr stp, t)"
  shows "t = (case subscribed (stages s) ev of None \<Rightarrow> s | Some st \<Rightarrow> s\<lparr>pending := Some st\<rparr>)"
  using assms by (auto simp: finish_step_iff split: option.splits)

lemma begin_mail_session:
  assumes "begin_mail op s = (Inr u, t)" and "session_inv s"
  shows "session_inv t \<and> state t = Ready \<and> message t = default_message \<and> pending t = None \<and>
    stages t = stages s"
  using assms macro_inv_begin_mail [OF _ assms(1)]
  by (auto simp: session_inv_def begin_mail_iff Let_def phase_inv_def size_inv_def opts_inv_def)

lemma activate_macros_session: "session_inv s \<Longrightarrow> session_inv (activate_macros c s)"
  using macro_inv_activate [of s c]
  by (auto simp: session_inv_def phase_inv_def size_inv_def opts_inv_def session_simps)

lemma dispatch_session_inv:
  assumes "dispatch op c s = (Inr (ev, rb, cl), t)" and "session_inv s" and "pending s = None"
    and "state s \<noteq> Initial" and "state s \<noteq> Closed"
    and "is_mail c \<Longrightarrow> state s = Ready \<and> message s = default_message"
  shows "session_inv t \<and> pending t = None \<and> (\<forall>st. ev = Some st \<longrightarrow> state t = stage_state st)"
proof -
  have "phase_inv t \<and> pending t = None \<and> (\<forall>st. ev = Some st \<longrightarrow> state t = stage_state st)"
    using assms by (intro dispatch_phase_inv [OF assms(1)]) (auto simp: session_inv_def)
  moreover have "size_inv t" "macro_inv t"
    using assms dispatch_size_inv dispatch_macro_inv by (auto simp: session_inv_def)
  moreover have "opts_inv t"
    using dispatch_config [OF assms(1)] assms(2) by (simp add: session_inv_def opts_inv_def)
  ultimately show ?thesis by (simp add: session_inv_def)
qed

lemma session_inv_pending:
  assumes "session_inv s" and "state s = stage_state st" and "st = StEndMessage \<or> st \<in> set (stages s)"
  shows "session_inv (s\<lparr>pending := Some st\<rparr>)"
  using assms
  by (auto simp: session_inv_def phase_inv_def size_inv_def macro_inv_def macro_total_def opts_inv_def)

lemma receive_command_Inr:
  assumes "receive_command op c s = (Inr stp, t)"
  obtains s1 ev rb cl s2 where
    "(if is_mail c then begin_mail op s = (Inr (), s1) else s1 = s)"
    "dispatch op c (activate_macros op s1) = (Inr (ev, rb, cl), s2)"
    "finish_step (ev, rb, cl) s2 = (Inr stp, t)"
  using assms by (auto simp: receive_command_def result_simps split: if_splits)

lemma receive_command_inv:
  assumes "receive_command op c s = (Inr stp, t)" and "session_inv s" and "pending s = None"
    and "state s \<noteq> Initial" and "state s \<noteq> Closed"
  shows "session_inv t"
proof -
  from assms(1) obtain s1 ev rb cl s2 where
    s1: "if is_mail c then begin_mail op s = (Inr (), s1) else s1 = s" and
    s2: "dispatch op c (activate_macros op s1) = (Inr (ev, rb, cl), s2)" and
    fin: "finish_step (ev, rb, cl) s2 = (Inr stp, t)" by (rule receive_command_Inr)
  have inv1: "session_inv s1 \<and> pending s1 = None \<and> state s1 \<noteq> Initial \<and> state s1 \<noteq> Closed"
    and mail: "is_mail c \<Longrightarrow> state s1 = Ready \<and> message s1 = default_message"
    using s1 assms begin_mail_session by (auto split: if_splits)
  have "session_inv s2 \<and> pending s2 = None \<and> (\<forall>st. ev = Some st \<longrightarrow> state s2 = stage_state st)"
    by (rule dispatch_session_inv [OF s2])
      (use inv1 mail in \<open>auto simp: session_simps activate_macros_session\<close>)
  with finish_step_session [OF fin] show ?thesis
    by (cases "subscribed (stages s2) ev") (auto dest!: subscribed_Some intro!: session_inv_pending)
qed

lemma receive_macro_inv:
  assumes "receive_macro st vs s = (Inr stp, t)" and "session_inv s"
  shows "session_inv t"
  using assms
  by (auto simp: receive_macro_def result_simps session_inv_def phase_inv_def size_inv_def
      macro_inv_def opts_inv_def bm.invar_insert)

lemma and_subset: "(a AND b) AND b = (a AND b :: 'a :: len word)"
  by (simp add: and.assoc)

lemma receive_negotiate_iff:
  "receive_negotiate op offered s = (Inr stp, t) \<longleftrightarrow>
   state s = Initial \<and> VERSION \<le> version offered \<and>
   (let o' = \<lparr>version = VERSION, actions = actions offered AND wanted_actions s,
        protocol = protocol offered AND wanted_protocol (stages s)\<rparr> in
    \<exists>f. frame_with_macros o' (macro_lists s) = Inr f \<and> stp = empty_step\<lparr>step_frames := [f]\<rparr> \<and>
      t = s\<lparr>opts := Some o', state := Negotiated\<rparr>)"
  by (cases "state s = Initial")
    (auto simp: receive_negotiate_def require_def result_simps Let_def split: sum.splits)

lemma receive_negotiate_inv:
  assumes "receive_negotiate op offered s = (Inr stp, t)" and "session_inv s"
  shows "session_inv t"
proof -
  from assms obtain o' where st: "state s = Initial" and t: "t = s\<lparr>opts := Some o', state := Negotiated\<rparr>"
    and o': "version o' = VERSION" "actions o' AND wanted_actions s = actions o'"
      "protocol o' AND wanted_protocol (stages s) = protocol o'"
    by (auto simp: receive_negotiate_iff Let_def and_subset)
  from assms(2) st have "pending s = None" by (simp add: session_inv_def phase_inv_def)
  with assms(2) st o' show ?thesis
    by (simp add: t session_inv_def phase_inv_def size_inv_def macro_inv_def macro_total_def
        opts_inv_def)
qed

theorem receive_inv:
  assumes "session_inv s" and "receive f s = (Inr stp, t)"
  shows "session_inv t"
  using assms receive_negotiate_inv receive_macro_inv receive_command_inv
  by (auto simp: receive_def split: if_splits sum.splits command.splits)

section \<open>Preservation by \<open>complete\<close>\<close>

lemma verdict_frame_flags:
  "verdict_frame v = Inr (f, rejected, finished, disconnect) \<Longrightarrow>
   rejected = (v \<notin> {Continue, Accept, Discard}) \<and> finished = (v \<in> {Accept, Discard}) \<and>
   disconnect = (v = Shutdown)"
  by (cases v) (auto simp: result_simps)

lemma check_decision_Inr:
  assumes "check_decision s d = Inr (stage, out, rejected, finished, disconnect)"
  obtains o' edits n final where "pending s = Some stage" "opts s = Some o'"
    "modifications d = [] \<or> stage = StEndMessage"
    "length (modifications d) \<le> lim_modifications (limits s)"
    "fold_r (emit_modification s o') ([], 0) (modifications d) = Inr (edits, n)"
    "verdict_frame (verdict d) = Inr (final, rejected, finished, disconnect)"
    "length (payload final) + 1 \<le> lim_frame_bytes (limits s)"
    "out = (if rejected \<or> verdict d = Discard then [] else edits) @ [final]"
  using assms by (auto simp: check_decision_def result_simps split: prod.splits)

lemma complete_Inr:
  assumes "complete d s = (Inr out, t)"
  obtains stage rejected finished disconnect where
    "check_decision s d = Inr (stage, out, rejected, finished, disconnect)"
    "t = after_verdict stage rejected finished disconnect (s\<lparr>pending := None\<rparr>)"
  using assms by (auto simp: complete_def split: sum.splits)

lemma sum_list_butlast_le: "sum_list (map f (butlast xs)) \<le> (sum_list (map f xs) :: nat)"
  by (induction xs) auto

lemma after_verdict_size_inv:
  "size_inv s \<Longrightarrow> size_inv (after_verdict stage rejected finished disconnect s)"
proof -
  assume s: "size_inv s"
  have "sum_list (map address_cost (butlast (recipients (message s)))) \<le>
      sum_list (map address_cost (recipients (message s)))" by (rule sum_list_butlast_le)
  with s show ?thesis
    by (auto simp: after_verdict_def Let_def size_inv_def session_simps pop_recipient_def
        envelope_cost_def)
qed

lemma after_verdict_macro_inv:
  "macro_inv s \<Longrightarrow> macro_inv (after_verdict stage rejected finished disconnect s)"
  using macro_inv_reset [of s]
  by (auto simp: after_verdict_def Let_def macro_inv_def macro_total_def pop_recipient_def)

lemma after_verdict_phase_inv:
  assumes "phase_inv s" and "state s = stage_state stage" and "pending s = None"
  shows "phase_inv (after_verdict stage rejected finished disconnect s)"
  using assms
  by (cases stage) (auto simp: after_verdict_def Let_def phase_inv_def session_simps pop_recipient_def)

theorem complete_inv:
  assumes "session_inv s" and "complete d s = (Inr out, t)"
  shows "session_inv t"
proof -
  from assms(2) obtain stage rejected finished disconnect where
    c: "check_decision s d = Inr (stage, out, rejected, finished, disconnect)" and
    t: "t = after_verdict stage rejected finished disconnect (s\<lparr>pending := None\<rparr>)"
    by (rule complete_Inr)
  from c have p: "pending s = Some stage" by (rule check_decision_Inr)
  let ?s = "s\<lparr>pending := None\<rparr>"
  from assms(1) p have "phase_inv ?s" "size_inv ?s" "macro_inv ?s" "state ?s = stage_state stage"
    by (auto simp: session_inv_def phase_inv_def size_inv_def macro_inv_def macro_total_def)
  then have "phase_inv t" "size_inv t" "macro_inv t"
    unfolding t
    by (simp_all add: after_verdict_phase_inv after_verdict_size_inv after_verdict_macro_inv)
  moreover have "opts_inv t"
    using assms(1) unfolding t
    by (auto simp: session_inv_def opts_inv_def after_verdict_def Let_def session_simps pop_recipient_def)
  ultimately show ?thesis by (simp add: session_inv_def)
qed

theorem complete_error_unchanged: "complete d s = (Inl e, t) \<Longrightarrow> t = s"
  by (auto simp: complete_def split: sum.splits)

end
