(* ===== verification/Protocol_Automaton.thy ===== *)
theory Protocol_Automaton
  imports Session_Inv
begin

text \<open>
  The order of MTA commands as an abstract automaton over the protocol states alone, and the
  refinement: \<open>receive\<close> follows it exactly. Where the automaton has no transition \<open>receive\<close>
  fails; where it has one, \<open>receive\<close> either moves to the automaton's next state or reports a
  resource limit (or, for negotiation, a version or macro-list problem).
\<close>

fun proto :: "state \<Rightarrow> command \<Rightarrow> state option" where
  "proto Initial c = (case c of Negotiate o' \<Rightarrow> Some Negotiated | _ \<Rightarrow> None)"
| "proto Closed c = None"
| "proto st (Negotiate o') = None"
| "proto st (Macro m vs) = Some st"
| "proto st (Connect i) = (if st = Negotiated then Some Ready else None)"
| "proto st (Helo h) = (if st = Ready then Some Ready else None)"
| "proto st (Mail fs) = (if st = Ready then Some InMail else None)"
| "proto st (Recipient fs) = (if st \<in> {InMail, InRecipients} then Some InRecipients else None)"
| "proto st Data = (if st = InRecipients then Some InData else None)"
| "proto st (Header n v) = (if st \<in> {InData, InHeaders} then Some InHeaders else None)"
| "proto st EndHeaders = (if st \<in> {InData, InHeaders} then Some InBody else None)"
| "proto st (Body b) = (if st = InBody then Some InBody else None)"
| "proto st EndMessage = (if st = InBody then Some InBody else None)"
| "proto st Abort = (if st \<in> {Negotiated, Stopped} then Some st else Some Ready)"
| "proto st QuitNewConnection = Some Negotiated"
| "proto st Quit = Some Closed"
| "proto st (Unknown u) = Some st"

lemma bind_s_Inl_iff:
  "bind_s m f s = (Inl e, t) \<longleftrightarrow>
   m s = (Inl e, t) \<or> (\<exists>x s'. m s = (Inr x, s') \<and> f x s' = (Inl e, t))"
  by (auto simp: bind_s.simps split: prod.splits sum.splits)

lemma state_Inl_iffs:
  "return_s x s = (Inl e, t) \<longleftrightarrow> False"
  "fail_s e' s = (Inl e, t) \<longleftrightarrow> e = e' \<and> t = s"
  "modify_s g s = (Inl e, t) \<longleftrightarrow> False"
  "check_s h s = (Inl e, t) \<longleftrightarrow> h s = Inl e \<and> t = s"
  by (auto simp: state_defs)

lemma account_Inl: "account n s = (Inl e, t) \<Longrightarrow> e = Limit ''message''"
  by (auto simp: account_def bind_s_Inl_iff state_Inl_iffs result_simps)

lemma count_envelope_Inl: "count_envelope fs s = (Inl e, t) \<Longrightarrow> e = Limit ''envelope''"
  by (induction fs arbitrary: s) (auto split: option.splits)

lemma account_envelope_Inl: "account_envelope fs s = (Inl e, t) \<Longrightarrow> e = Limit ''envelope''"
  by (auto simp: account_envelope_def bind_s_Inl_iff state_Inl_iffs result_simps
      dest: count_envelope_Inl)

lemma require_Inl_iff:
  "require op sts s = Inl e \<longleftrightarrow> state s \<notin> set sts \<and> e = Sequence op (state_name (state s))"
  by (auto simp: require_def result_simps)

lemma envelope_address_from_Inl: "envelope_address_from fs = Inl e \<Longrightarrow> fs = []"
  by (auto simp: envelope_address_from_def split: list.splits)

definition is_limit :: "error \<Rightarrow> bool" where
  "is_limit e \<longleftrightarrow> (\<exists>m. e = Limit m)"

lemma is_limit_Limit [simp]: "is_limit (Limit m)"
  by (simp add: is_limit_def)

lemmas Inl_simps = bind_s_Inl_iff state_Inl_iffs require_Inl_iff ensure_Inl_iff

text \<open>One command after the macros have been activated.\<close>

lemma dispatch_state:
  assumes "dispatch op c s = (Inr out, t)" and "phase_inv s"
    and "state s \<noteq> Initial" and "state s \<noteq> Closed" and "is_mail c \<Longrightarrow> state s = Ready"
  shows "proto (state s) c = Some (state t)"
proof (cases c)
  case Abort
  with assms show ?thesis
    by (cases "state s") (auto simp: result_simps session_simps phase_inv_def split: if_splits)
next
  case (Unknown u)
  with assms show ?thesis by (cases "state s") (auto simp: result_simps)
next
  case Quit
  with assms show ?thesis by (cases "state s") (auto simp: result_simps)
next
  case QuitNewConnection
  with assms show ?thesis by (cases "state s") (auto simp: result_simps)
qed (use assms in \<open>auto simp: result_simps update_defs Let_def\<close>)

lemma dispatch_error:
  assumes "dispatch op c s = (Inl e, t)" and "wf_command c"
    and "state s \<noteq> Initial" and "state s \<noteq> Closed" and "is_mail c \<Longrightarrow> state s = Ready"
    and "\<And>o'. c \<noteq> Negotiate o'" and "\<And>m vs. c \<noteq> Macro m vs"
  shows "if proto (state s) c = None then e = Sequence op (state_name (state s)) else is_limit e"
proof (cases c)
  case (Mail fs)
  with assms show ?thesis
    by (auto simp: Inl_simps result_simps dest!: account_envelope_Inl envelope_address_from_Inl)
next
  case (Recipient fs)
  with assms show ?thesis
    by (cases "state s")
      (auto simp: Inl_simps result_simps dest!: account_envelope_Inl envelope_address_from_Inl)
next
  case (Header n v)
  with assms show ?thesis
    by (cases "state s") (auto simp: Inl_simps result_simps dest!: account_Inl)
next
  case (Body b)
  with assms show ?thesis
    by (cases "state s") (auto simp: Inl_simps result_simps dest!: account_Inl)
next
  case EndHeaders
  with assms show ?thesis
    by (cases "state s") (auto simp: Inl_simps result_simps dest!: account_Inl)
next
  case (Connect i)
  with assms show ?thesis by (cases "state s") (auto simp: Inl_simps result_simps)
next
  case (Helo h)
  with assms show ?thesis by (cases "state s") (auto simp: Inl_simps result_simps)
next
  case Data
  with assms show ?thesis by (cases "state s") (auto simp: Inl_simps result_simps)
next
  case EndMessage
  with assms show ?thesis by (cases "state s") (auto simp: Inl_simps result_simps)
qed (use assms in \<open>auto simp: Inl_simps\<close>)

lemma begin_mail_error:
  "begin_mail op s = (Inl e, t) \<Longrightarrow> state s \<noteq> Ready \<and> e = Sequence op (state_name (state s))"
  by (cases "state s = Ready")
    (auto simp: begin_mail_def require_def Let_def split: option.splits)

lemma finish_step_ok:
  "opts s \<noteq> None \<Longrightarrow> \<exists>stp t. finish_step out s = (Inr stp, t)"
  by (cases out) (auto simp: finish_step_def Let_def split: option.splits)

lemma receive_command_ok:
  assumes "receive_command op c s = (Inr stp, t)" and "session_inv s"
    and "state s \<noteq> Initial" and "state s \<noteq> Closed"
  shows "proto (state s) c = Some (state t)"
proof -
  from assms(1) obtain s1 ev rb cl s2 where
    s1: "if is_mail c then begin_mail op s = (Inr (), s1) else s1 = s" and
    s2: "dispatch op c (activate_macros op s1) = (Inr (ev, rb, cl), s2)" and
    fin: "finish_step (ev, rb, cl) s2 = (Inr stp, t)" by (rule receive_command_Inr)
  have "state t = state s2" using finish_step_session [OF fin] by (auto split: option.splits)
  moreover have inv: "session_inv s1" and st: "state s1 = state s" "is_mail c \<Longrightarrow> state s1 = Ready"
  proof -
    have "is_mail c \<Longrightarrow> state s = Ready" using s1 begin_mail_iff [of op s "()" s1] by simp
    then show "session_inv s1" "state s1 = state s" "is_mail c \<Longrightarrow> state s1 = Ready"
      using s1 assms(2) begin_mail_session [of op s "()" s1] by (auto split: if_splits)
  qed
  moreover have "phase_inv (activate_macros op s1)"
    using activate_macros_session [OF inv] by (simp add: session_inv_def)
  ultimately show ?thesis
    using dispatch_state [OF s2] assms(3,4) by (simp add: activate_macros_sel)
qed

lemma receive_command_error:
  assumes "receive_command op c s = (Inl e, t)" and "session_inv s" and "wf_command c"
    and "state s \<noteq> Initial" and "state s \<noteq> Closed"
    and "\<And>o'. c \<noteq> Negotiate o'" and "\<And>m vs. c \<noteq> Macro m vs"
  shows "if proto (state s) c = None then e = Sequence op (state_name (state s)) else is_limit e"
proof -
  consider "is_mail c" "begin_mail op s = (Inl e, t)"
    | s1 where "if is_mail c then begin_mail op s = (Inr (), s1) else s1 = s"
        "dispatch op c (activate_macros op s1) = (Inl e, t)"
    | s1 out s2 where "if is_mail c then begin_mail op s = (Inr (), s1) else s1 = s"
        "dispatch op c (activate_macros op s1) = (Inr out, s2)" "finish_step out s2 = (Inl e, t)"
    using assms(1) by (auto simp: receive_command_def Inl_simps result_simps split: if_splits)
  then show ?thesis
  proof cases
    case 1
    then have "state s \<noteq> Ready" and e: "e = Sequence op (state_name (state s))"
      by (auto dest: begin_mail_error)
    moreover obtain fs where "c = Mail fs" using 1(1) by (cases c) auto
    ultimately have "proto (state s) c = None" using assms(4,5) by (cases "state s") auto
    with e show ?thesis by simp
  next
    case (2 s1)
    then have "state s1 = state s \<and> (is_mail c \<longrightarrow> state s1 = Ready)"
      by (auto simp: begin_mail_iff Let_def split: if_splits)
    then have st: "state (activate_macros op s1) = state s" "is_mail c \<Longrightarrow> state s = Ready"
      by (auto simp: session_simps)
    show ?thesis
      using dispatch_error [OF 2(2) assms(3) _ _ _ assms(6,7), unfolded st(1)] assms(4,5) st(2)
      by simp
  next
    case (3 s1 out s2)
    then have "opts s1 = opts s" by (auto simp: begin_mail_iff Let_def split: if_splits)
    with dispatch_config [OF 3(2)] have "opts s2 = opts s" by (simp add: session_simps)
    moreover have "opts s \<noteq> None" using assms(2,4) by (auto simp: session_inv_def phase_inv_def)
    ultimately show ?thesis using finish_step_ok [of s2 out] 3(3) by auto
  qed
qed

lemma frame_with_macros_error: "frame_with_macros o' ml = Inl e \<Longrightarrow> e = Invalid ''macro name''"
  by (auto simp: frame_with_macros_def Let_def encode_macro_lists_def encode_macro_classes
      result_simps split: if_splits)

lemma receive_negotiate_error:
  "receive_negotiate op offered s = (Inl e, t) \<Longrightarrow>
   (if state s = Initial then e \<in> {Invalid ''milter v6 required'', Invalid ''macro name''}
    else e = Sequence op (state_name (state s)))"
  by (cases "state s = Initial")
    (auto simp: receive_negotiate_def require_def Let_def result_simps
      dest!: frame_with_macros_error split: sum.splits)

lemma receive_macro_error: "receive_macro st vs s = (Inl e, t) \<Longrightarrow> is_limit e"
  by (auto simp: receive_macro_def Inl_simps result_simps)

text \<open>The errors that answer a command the automaton does not allow.\<close>

definition out_of_order :: "byte \<Rightarrow> state \<Rightarrow> error" where
  "out_of_order op st =
     (if st = Closed then Invalid ''closed session'' else Sequence op (state_name st))"

lemma receive_eq:
  assumes "pending s = None" and "decode f = Inr c"
  shows "receive f s =
    (if state s = Closed then (Inl (Invalid ''closed session''), s)
     else case c of
       Negotiate o' \<Rightarrow> receive_negotiate (frame.command f) o' s
     | Macro m vs \<Rightarrow> if state s = Initial then (Inl (Invalid ''negotiate first''), s)
         else receive_macro m vs s
     | _ \<Rightarrow> if state s = Initial then (Inl (Invalid ''negotiate first''), s)
         else receive_command (frame.command f) c s)"
  using assms by (cases c) (simp_all add: receive_def)

definition refines_step :: "frame \<Rightarrow> command \<Rightarrow> session \<Rightarrow> step result \<times> session \<Rightarrow> bool" where
  "refines_step f c s rt =
     (case rt of (r, t) \<Rightarrow>
        (case proto (state s) c of
           None \<Rightarrow> r = Inl (if state s = Initial then Invalid ''negotiate first''
                      else out_of_order (frame.command f) (state s))
         | Some q \<Rightarrow>
             (case r of
                Inr stp \<Rightarrow> state t = q
              | Inl e \<Rightarrow> is_limit e \<or> state s = Initial \<and>
                  e \<in> {Invalid ''milter v6 required'', Invalid ''macro name''})))"

lemma refines_negotiate:
  assumes "state s \<noteq> Closed"
  shows "refines_step f (Negotiate o') s (receive_negotiate (frame.command f) o' s)"
proof -
  obtain r t where r: "receive_negotiate (frame.command f) o' s = (r, t)" by fastforce
  have "proto (state s) (Negotiate o') = (if state s = Initial then Some Negotiated else None)"
    by (cases "state s") auto
  then have "refines_step f (Negotiate o') s (r, t)"
    using r receive_negotiate_error [of "frame.command f" o' s _ t]
      receive_negotiate_iff [of "frame.command f" o' s _ t] assms
    by (cases r) (auto simp: refines_step_def out_of_order_def Let_def split: if_splits)
  with r show ?thesis by simp
qed

lemma refines_macro:
  assumes "state s \<noteq> Closed" and "state s \<noteq> Initial"
  shows "refines_step f (Macro m vs) s (receive_macro m vs s)"
proof -
  obtain r t where r: "receive_macro m vs s = (r, t)" by fastforce
  have "proto (state s) (Macro m vs) = Some (state s)" using assms by (cases "state s") auto
  then have "refines_step f (Macro m vs) s (r, t)"
    using r receive_macro_error [of m vs s _ t]
    by (cases r) (auto simp: refines_step_def receive_macro_def result_simps)
  with r show ?thesis by simp
qed

lemma refines_command:
  assumes "session_inv s" and "wf_command c" and "state s \<noteq> Initial" and "state s \<noteq> Closed"
    and "\<And>o'. c \<noteq> Negotiate o'" and "\<And>m vs. c \<noteq> Macro m vs"
  shows "refines_step f c s (receive_command (frame.command f) c s)"
proof -
  obtain r t where r: "receive_command (frame.command f) c s = (r, t)" by fastforce
  show ?thesis
  proof (cases r)
    case (Inr stp)
    with r receive_command_ok [OF _ assms(1,3,4), of "frame.command f" c stp t] show ?thesis
      by (simp add: refines_step_def)
  next
    case (Inl e)
    then have "receive_command (frame.command f) c s = (Inl e, t)" using r by simp
    from receive_command_error [OF this assms] have
      "if proto (state s) c = None then e = Sequence (frame.command f) (state_name (state s))
       else is_limit e" .
    with r Inl assms(3,4) show ?thesis
      by (auto simp: refines_step_def out_of_order_def split: if_splits option.splits)
  qed
qed

lemma refines_refused:
  "(\<And>o'. c \<noteq> Negotiate o') \<Longrightarrow> state s = Initial \<Longrightarrow>
   refines_step f c s (Inl (Invalid ''negotiate first''), s)"
  by (cases c) (auto simp: refines_step_def)

theorem receive_refines:
  assumes "session_inv s" and "pending s = None" and "decode f = Inr c"
  shows "refines_step f c s (receive f s)"
proof (cases "state s = Closed")
  case True
  with receive_eq [OF assms(2,3)] show ?thesis by (simp add: refines_step_def out_of_order_def)
next
  case False
  note eq = receive_eq [OF assms(2,3)]
  have wf: "wf_command c" using assms(3) by (simp add: decode_iff)
  consider o' where "c = Negotiate o'" | m vs where "c = Macro m vs"
    | "\<And>o'. c \<noteq> Negotiate o'" "\<And>m vs. c \<noteq> Macro m vs" by blast
  then show ?thesis
  proof cases
    case 1
    with eq False refines_negotiate show ?thesis by simp
  next
    case 2
    with eq False refines_macro refines_refused [of c s f] show ?thesis
      by (cases "state s = Initial") auto
  next
    case 3
    have "receive f s = (if state s = Initial then (Inl (Invalid ''negotiate first''), s)
        else receive_command (frame.command f) c s)"
      using eq False 3 by (cases c) auto
    with refines_command [OF assms(1) wf _ False 3] refines_refused [OF 3(1)] show ?thesis
      by (cases "state s = Initial") auto
  qed
qed

section \<open>Sessions as a transition system\<close>

text \<open>The calls a driver makes: a frame of the MTA or the decision on the pending callback. A
  failed \<open>receive\<close> ends the connection, a failed \<open>complete\<close> leaves the session as it was.\<close>

inductive session_step :: "session \<Rightarrow> session \<Rightarrow> bool" where
  step_receive: "receive f s = (Inr stp, t) \<Longrightarrow> session_step s t"
| step_complete: "complete d s = (r, t) \<Longrightarrow> session_step s t"

inductive session_start :: "session \<Rightarrow> bool" where
  start: "session_start (request_macros ml (session_new lims sts wanted))"

lemma session_start_inv: "session_start s \<Longrightarrow> session_inv s"
  by (induction rule: session_start.induct)
    (auto simp: session_new_def request_macros_def session_inv_def phase_inv_def size_inv_def
      macro_inv_def macro_total_def opts_inv_def and_subset bmap_total_def)

lemma session_step_inv: "session_inv s \<Longrightarrow> session_step s t \<Longrightarrow> session_inv t"
  by (erule session_step.cases)
    (metis receive_inv, metis complete_inv complete_error_unchanged sum.exhaust)

interpretation session_sys: invariant_system session_start session_step session_inv
  by unfold_locales (auto intro: session_start_inv session_step_inv)

lemmas reachable_inv = session_sys.reach_inv

end
