(* ===== verification/Decision_Safety.thy ===== *)
theory Decision_Safety
  imports Protocol_Automaton
begin

text \<open>
  What a callback's answer may contain and what it does to the session: the frames \<open>complete\<close>
  emits and their sizes, the transition of the protocol state for every stage and verdict, the
  absence of panics, and the answers \<open>receive\<close> gives without a callback.
\<close>

section \<open>The emission loop\<close>

definition frame_fits :: "limits \<Rightarrow> frame \<Rightarrow> bool" where
  "frame_fits lims f \<longleftrightarrow> length (payload f) + 1 \<le> lim_frame_bytes lims"

lemma emit_frame_iff:
  "emit_frame lims (out, n) f = Inr (out', n') \<longleftrightarrow>
   frame_fits lims f \<and> out' = out @ [f] \<and> n' = n + length (payload f) \<and>
   n' \<le> usize_max \<and> n' \<le> lim_message_bytes lims"
  by (auto simp: emit_frame_def result_simps frame_fits_def)

lemma emit_frames_Inr:
  "fold_r (emit_frame lims) (out, n) fs = Inr (out', n') \<Longrightarrow>
   list_all (frame_fits lims) fs \<and> out' = out @ fs \<and> n' = n + frames_size fs \<and>
   (fs \<noteq> [] \<longrightarrow> n' \<le> lim_message_bytes lims)"
proof (induction fs arbitrary: out n)
  case (Cons f fs)
  then obtain o1 n1 where 1: "emit_frame lims (out, n) f = Inr (o1, n1)"
    and 2: "fold_r (emit_frame lims) (o1, n1) fs = Inr (out', n')"
    by (auto simp: result_simps)
  from Cons.IH [OF 2] 1 show ?case by (auto simp: emit_frame_iff)
qed simp

text \<open>One modification: negotiated, serialised by \<open>frames\<close>, within the limits.\<close>

lemma emit_modification_Inr:
  assumes "emit_modification s o' (out, n) m = Inr (out', n')"
  shows "\<exists>fs. frames m (leading_space s) = Inr fs \<and> actions o' AND capability m \<noteq> 0 \<and>
    list_all (frame_fits (limits s)) fs \<and> out' = out @ fs \<and> n' = n + frames_size fs \<and>
    n' \<le> lim_message_bytes (limits s)"
proof -
  from assms obtain fs where a: "actions o' AND capability m \<noteq> 0"
    and fs: "frames m (leading_space s) = Inr fs"
    and e: "fold_r (emit_frame (limits s)) (out, n) fs = Inr (out', n')"
    by (auto simp: emit_modification_def result_simps)
  moreover have "fs \<noteq> []" using frames_opcodes [OF fs] by simp
  ultimately show ?thesis using emit_frames_Inr [OF e] by auto
qed

lemma emit_modifications_Inr:
  "fold_r (emit_modification s o') (out, n) ms = Inr (out', n') \<Longrightarrow>
   \<exists>fss. list_all2 (\<lambda>m fs. frames m (leading_space s) = Inr fs) ms fss \<and>
     list_all (\<lambda>m. actions o' AND capability m \<noteq> 0) ms \<and>
     list_all (frame_fits (limits s)) (concat fss) \<and>
     out' = out @ concat fss \<and> n' = n + frames_size (concat fss) \<and>
     (ms \<noteq> [] \<longrightarrow> n' \<le> lim_message_bytes (limits s))"
proof (induction ms arbitrary: out n)
  case Nil
  then show ?case by (auto intro: exI [of _ "[]"])
next
  case (Cons m ms)
  then obtain o1 n1 where 1: "emit_modification s o' (out, n) m = Inr (o1, n1)"
    and 2: "fold_r (emit_modification s o') (o1, n1) ms = Inr (out', n')"
    by (auto simp: result_simps)
  from emit_modification_Inr [OF 1] obtain fs where
    fs: "frames m (leading_space s) = Inr fs" "actions o' AND capability m \<noteq> 0"
      "list_all (frame_fits (limits s)) fs" "o1 = out @ fs" "n1 = n + frames_size fs"
      "n1 \<le> lim_message_bytes (limits s)" by blast
  from Cons.IH [OF 2] obtain fss where
    "list_all2 (\<lambda>m fs. frames m (leading_space s) = Inr fs) ms fss"
    "list_all (\<lambda>m. actions o' AND capability m \<noteq> 0) ms"
    "list_all (frame_fits (limits s)) (concat fss)"
    "out' = o1 @ concat fss" "n' = n1 + frames_size (concat fss)"
    "ms \<noteq> [] \<longrightarrow> n' \<le> lim_message_bytes (limits s)" by blast
  moreover then have "ms = [] \<longrightarrow> fss = []" by auto
  ultimately show ?case using fs by (intro exI [of _ "fs # fss"]) auto
qed

section \<open>The frames of an answer\<close>

definition edits_allowed :: "verdict \<Rightarrow> bool" where
  "edits_allowed v \<longleftrightarrow> v \<in> {Continue, Accept}"

fun verdict_opcode :: "verdict \<Rightarrow> byte" where
  "verdict_opcode Continue = CHR ''c''"
| "verdict_opcode Accept = CHR ''a''"
| "verdict_opcode Reject = CHR ''r''"
| "verdict_opcode Tempfail = CHR ''t''"
| "verdict_opcode Discard = CHR ''d''"
| "verdict_opcode (Reply code e m) = CHR ''y''"
| "verdict_opcode Shutdown = CHR ''4''"

lemma verdict_frame_opcode:
  "verdict_frame v = Inr (f, flags) \<Longrightarrow> frame.command f = verdict_opcode v"
  by (cases v) (auto simp: result_simps string_frame_eq empty_frame_def SHUTDOWN_def
      split: if_splits)

lemma verdict_opcode_final: "verdict_opcode v \<notin> modification_opcodes"
  by (cases v) (simp_all add: modification_opcodes_def)

lemma frames_all_opcodes:
  "list_all2 (\<lambda>m fs. frames m ls = Inr fs) ms fss \<Longrightarrow> f \<in> set (concat fss) \<Longrightarrow>
   frame.command f \<in> modification_opcodes"
  by (induction rule: list_all2_induct) (auto dest: frames_opcodes)

text \<open>An answer that was accepted, in one statement.\<close>

lemma complete_frames:
  assumes "complete d s = (Inr out, t)"
  obtains stage o' fss final flags where
    "pending s = Some stage" "opts s = Some o'"
    "list_all2 (\<lambda>m fs. frames m (leading_space s) = Inr fs) (modifications d) fss"
    "list_all (\<lambda>m. actions o' AND capability m \<noteq> 0) (modifications d)"
    "modifications d = [] \<or> stage = StEndMessage"
    "length (modifications d) \<le> lim_modifications (limits s)"
    "frames_size (concat fss) \<le> lim_message_bytes (limits s)"
    "verdict_frame (verdict d) = Inr (final, flags)"
    "list_all (frame_fits (limits s)) (concat fss @ [final])"
    "out = (if edits_allowed (verdict d) then concat fss else []) @ [final]"
proof -
  from assms obtain stage rejected finished disconnect where
    c: "check_decision s d = Inr (stage, out, rejected, finished, disconnect)"
    by (rule complete_Inr)
  from c obtain o' edits n final where
    1: "pending s = Some stage" "opts s = Some o'" "modifications d = [] \<or> stage = StEndMessage"
      "length (modifications d) \<le> lim_modifications (limits s)" and
    e: "fold_r (emit_modification s o') ([], 0) (modifications d) = Inr (edits, n)" and
    v: "verdict_frame (verdict d) = Inr (final, rejected, finished, disconnect)"
      "length (payload final) + 1 \<le> lim_frame_bytes (limits s)" and
    out: "out = (if rejected \<or> verdict d = Discard then [] else edits) @ [final]"
    by (rule check_decision_Inr)
  from emit_modifications_Inr [OF e] obtain fss where
    2: "list_all2 (\<lambda>m fs. frames m (leading_space s) = Inr fs) (modifications d) fss"
      "list_all (\<lambda>m. actions o' AND capability m \<noteq> 0) (modifications d)"
      "list_all (frame_fits (limits s)) (concat fss)" "edits = concat fss"
      "modifications d \<noteq> [] \<longrightarrow> frames_size (concat fss) \<le> lim_message_bytes (limits s)"
    by auto
  have size: "frames_size (concat fss) \<le> lim_message_bytes (limits s)"
    using 2(1,5) by (cases "modifications d = []") auto
  have "out = (if edits_allowed (verdict d) then concat fss else []) @ [final]"
    using verdict_frame_flags [OF v(1)] out 2(4)
    by (cases "verdict d") (auto simp: edits_allowed_def)
  with 1 2 v size show ?thesis by (intro that) (auto simp: frame_fits_def)
qed

section \<open>The protocol state after an answer\<close>

text \<open>The automaton's answer to a verdict: a rejected recipient is withdrawn, a rejected
  connection or greeting blocks further mail, everything else that ends the transaction returns
  to \<open>Ready\<close>.\<close>

fun rejects :: "verdict \<Rightarrow> bool" where
  "rejects Reject = True"
| "rejects Tempfail = True"
| "rejects (Reply c e m) = True"
| "rejects _ = False"

fun answer_state :: "stage \<Rightarrow> nat \<Rightarrow> verdict \<Rightarrow> state" where
  "answer_state st rcpts Shutdown = Stopped"
| "answer_state StEndMessage rcpts v = Ready"
| "answer_state st rcpts Accept = Ready"
| "answer_state st rcpts Discard = Ready"
| "answer_state st rcpts Continue = stage_state st"
| "answer_state StConnect rcpts v = Stopped"
| "answer_state StHelo rcpts v = Stopped"
| "answer_state StMail rcpts v = Ready"
| "answer_state StRecipient rcpts v = (if rcpts \<le> 1 then InMail else InRecipients)"

lemma butlast_Nil_iff: "butlast xs = [] \<longleftrightarrow> length xs \<le> 1"
  by (cases xs) (auto simp: butlast_conv_take)

text \<open>The message after an answer.\<close>

definition answer_message :: "stage \<Rightarrow> verdict \<Rightarrow> message \<Rightarrow> message" where
  "answer_message st v m =
     (if v = Continue \<and> st \<noteq> StEndMessage then m
      else if rejects v \<and> st = StRecipient then m\<lparr>recipients := butlast (recipients m)\<rparr>
      else if rejects v \<and> st \<in> {StConnect, StHelo} then m
      else default_message)"

lemma after_verdict_answer:
  assumes "verdict_frame v = Inr (f, rejected, finished, disconnect)"
    and "state s = stage_state st"
  shows "state (after_verdict st rejected finished disconnect s) =
      answer_state st (length (recipients (message s))) v"
    and "message (after_verdict st rejected finished disconnect s) =
      answer_message st v (message s)"
  using verdict_frame_flags [OF assms(1)] assms(2)
  by (cases v; cases st; simp add: after_verdict_def Let_def pop_recipient_def session_simps
      butlast_Nil_iff answer_message_def)+

lemma complete_answer:
  assumes "session_inv s" and "complete d s = (Inr out, t)" and "pending s = Some st"
  shows "state t = answer_state st (length (recipients (message s))) (verdict d) \<and>
    message t = answer_message st (verdict d) (message s) \<and> pending t = None"
proof -
  from assms(2) obtain stage rejected finished disconnect where
    c: "check_decision s d = Inr (stage, out, rejected, finished, disconnect)" and
    t: "t = after_verdict stage rejected finished disconnect (s\<lparr>pending := None\<rparr>)"
    by (rule complete_Inr)
  from c obtain final where p: "pending s = Some stage"
    and v: "verdict_frame (verdict d) = Inr (final, rejected, finished, disconnect)"
    by (rule check_decision_Inr)
  have "stage = st" using p assms(3) by simp
  moreover have "state s = stage_state st"
    using assms(1,3) by (simp add: session_inv_def phase_inv_def)
  ultimately have "state t = answer_state st (length (recipients (message s))) (verdict d)"
    "message t = answer_message st (verdict d) (message s)"
    using after_verdict_answer [OF v, of "s\<lparr>pending := None\<rparr>" st] by (simp_all add: t)
  moreover have "pending t = None"
    by (auto simp: t after_verdict_def Let_def session_simps pop_recipient_def)
  ultimately show ?thesis by simp
qed

section \<open>The fallback answer always goes through\<close>

lemma complete_plain:
  assumes "session_inv s" and "pending s = Some st" and "1 \<le> lim_frame_bytes (limits s)"
    and "modifications d = []" and "\<And>c e m. verdict d \<noteq> Reply c e m"
  shows "\<exists>t. complete d s = (Inr [empty_frame (verdict_opcode (verdict d))], t)"
proof -
  have "opts s \<noteq> None"
    using assms(1,2) by (auto simp: session_inv_def phase_inv_def)
  with assms show ?thesis
    by (cases "verdict d")
      (auto simp: complete_def check_decision_def empty_frame_def SHUTDOWN_def)
qed

section \<open>No panics\<close>

definition no_panic :: "'a result \<Rightarrow> bool" where
  "no_panic r \<longleftrightarrow> (\<forall>m. r \<noteq> Inl (Panic m))"

lemma no_panic_simps [simp]:
  "no_panic (Inr x)" "no_panic (Inl e) \<longleftrightarrow> (\<forall>m. e \<noteq> Panic m)"
  by (auto simp: no_panic_def)

lemma no_panic_bind:
  "no_panic m \<Longrightarrow> (\<And>x. m = Inr x \<Longrightarrow> no_panic (f x)) \<Longrightarrow> no_panic (bind_r m f)"
  by (cases m) auto

lemma no_panic_map_r [simp]: "no_panic (map_r f r) = no_panic r"
  by (cases r) auto

lemma no_panic_ensure: "(\<And>m. e \<noteq> Panic m) \<Longrightarrow> no_panic (ensure c e)"
  by (cases c) auto

lemma no_panic_ok_or: "m \<noteq> None \<or> (\<forall>p. e \<noteq> Panic p) \<Longrightarrow> no_panic (ok_or e m)"
  by (cases m) auto

lemma no_panic_fold_r: "(\<And>a x. no_panic (f a x)) \<Longrightarrow> no_panic (fold_r f a xs)"
  by (induction xs arbitrary: a) (auto intro: no_panic_bind)

lemmas no_panic_intros = no_panic_bind no_panic_ensure no_panic_ok_or no_panic_fold_r

lemma header_value_no_panic: "no_panic (header_value v)"
  by (induction v rule: header_value.induct) (auto split: list.splits)

lemma clean_no_panic: "no_panic (clean v)"
  by (auto simp: clean_def intro!: no_panic_intros)

lemma string_frame_no_panic: "no_panic (string_frame c vs)"
  by (auto simp: string_frame_eq)

lemma frames_no_panic: "no_panic (frames m ls)"
  by (cases m)
    (auto simp: raw_header_frames_def header_frames_def address_frames_def text_frames_def Let_def
      header_value_no_panic clean_no_panic string_frame_no_panic
      intro!: no_panic_intros split: option.splits)

lemma emit_modification_no_panic: "no_panic (emit_modification s o' a m)"
  by (cases a)
    (auto simp: emit_modification_def emit_frame_def payload_bytes_eq frames_no_panic
      intro!: no_panic_intros)

lemma verdict_frame_no_panic: "no_panic (verdict_frame v)"
  by (cases v)
    (auto simp: clean_no_panic string_frame_no_panic intro!: no_panic_intros split: option.splits)

lemma complete_no_panic:
  assumes "session_inv s" and "complete d s = (r, t)"
  shows "no_panic r"
proof -
  have "pending s \<noteq> None \<Longrightarrow> opts s \<noteq> None"
    using assms(1) by (auto simp: session_inv_def phase_inv_def)
  then have "no_panic (check_decision s d)"
    by (auto simp: check_decision_def result_simps emit_modification_no_panic verdict_frame_no_panic
        intro!: no_panic_intros)
  with assms(2) show ?thesis by (cases "check_decision s d") (auto simp: complete_def)
qed

lemma strings_no_panic: "no_panic (strings p)"
  by (auto simp: strings_def)

lemma macro_pairs_no_panic: "no_panic (macro_pairs fs)"
  by (induction fs rule: macro_pairs.induct) auto

lemma check_ip_no_panic: "no_panic (check_ip fam a)"
  by (auto simp: check_ip_def Let_def split: option.splits)

lemma decode_peer_no_panic: "no_panic (decode_peer fam tail)"
  by (auto simp: decode_peer_def Let_def strings_no_panic check_ip_no_panic intro!: no_panic_intros)

lemma decode_connect_no_panic: "no_panic (decode_connect p)"
  by (auto simp: decode_connect_def Let_def decode_peer_no_panic intro!: no_panic_intros)

lemma decode_macro_no_panic: "no_panic (decode_macro p)"
  by (auto simp: decode_macro_def strings_no_panic macro_pairs_no_panic intro!: no_panic_intros
      split: list.splits)

lemma decode_negotiate_no_panic: "no_panic (decode_negotiate p)"
  by (simp add: decode_negotiate_def Let_def)

lemma decode_no_panic: "no_panic (decode f)"
  unfolding decode_def Let_def
  by (simp add: decode_negotiate_no_panic decode_connect_no_panic decode_macro_no_panic
      strings_no_panic no_panic_bind)

lemma receive_no_panic:
  assumes "session_inv s"
  shows "no_panic (fst (receive f s))"
proof (cases "pending s = None")
  case True
  show ?thesis
  proof (cases "decode f")
    case (Inl e)
    with True decode_no_panic [of f] show ?thesis by (simp add: receive_def)
  next
    case (Inr c)
    from receive_refines [OF assms True Inr] show ?thesis
      by (auto simp: refines_step_def out_of_order_def is_limit_def no_panic_def
          split: option.splits prod.splits sum.splits if_splits)
  qed
qed (auto simp: receive_def)

section \<open>Answers without a callback\<close>

text \<open>The stage a command raises and the capability bit that suppresses its plain answer.\<close>

fun command_stage :: "command \<Rightarrow> stage option" where
  "command_stage (Connect i) = Some StConnect"
| "command_stage (Helo h) = Some StHelo"
| "command_stage (Mail fs) = Some StMail"
| "command_stage (Recipient fs) = Some StRecipient"
| "command_stage EndMessage = Some StEndMessage"
| "command_stage _ = None"

fun reply_bit :: "command \<Rightarrow> u32 option" where
  "reply_bit (Connect i) = Some NR_CONNECT"
| "reply_bit (Helo h) = Some NR_HELO"
| "reply_bit (Mail fs) = Some NR_MAIL"
| "reply_bit (Recipient fs) = Some NR_RCPT"
| "reply_bit Data = Some NR_DATA"
| "reply_bit (Header n v) = Some NR_HEADER"
| "reply_bit EndHeaders = Some NR_EOH"
| "reply_bit (Body b) = Some NR_BODY"
| "reply_bit (Unknown u) = Some NR_UNKNOWN"
| "reply_bit _ = None"

lemma dispatch_outcome:
  "dispatch op c s = (Inr out, t) \<Longrightarrow> out = (command_stage c, reply_bit c, c = Quit)"
  by (cases c) (auto simp: result_simps)

definition quiet_reply :: "session \<Rightarrow> command \<Rightarrow> frame list" where
  "quiet_reply s c =
     (case (reply_bit c, opts s) of
        (Some b, Some o') \<Rightarrow> if protocol o' AND b = 0 then [empty_frame (CHR ''c'')] else []
      | _ \<Rightarrow> [])"

definition answers :: "session \<Rightarrow> command \<Rightarrow> step \<Rightarrow> session \<Rightarrow> bool" where
  "answers s c stp t \<longleftrightarrow>
     event stp = subscribed (stages s) (command_stage c) \<and> pending t = event stp \<and>
     close stp = (c = Quit) \<and>
     step_frames stp = (if event stp = None then quiet_reply s c else [])"

lemma receive_command_answers:
  assumes "receive_command op c s = (Inr stp, t)" and "session_inv s" and "pending s = None"
    and "state s \<noteq> Initial" and "state s \<noteq> Closed"
  shows "answers s c stp t"
proof -
  from assms(1) obtain s1 ev rb cl s2 where
    s1: "if is_mail c then begin_mail op s = (Inr (), s1) else s1 = s" and
    s2: "dispatch op c (activate_macros op s1) = (Inr (ev, rb, cl), s2)" and
    fin: "finish_step (ev, rb, cl) s2 = (Inr stp, t)" by (rule receive_command_Inr)
  have inv1: "session_inv s1 \<and> pending s1 = None \<and> state s1 \<noteq> Initial \<and> state s1 \<noteq> Closed \<and>
      stages s1 = stages s \<and> opts s1 = opts s"
    and mail: "is_mail c \<Longrightarrow> state s1 = Ready \<and> message s1 = default_message"
    using s1 assms begin_mail_session begin_mail_iff [of op s "()" s1]
    by (auto simp: Let_def split: if_splits)
  have p2: "pending s2 = None"
    using dispatch_session_inv [OF s2] inv1 mail
    by (auto simp: session_simps activate_macros_session)
  have "stages s2 = stages s" "opts s2 = opts s"
    using dispatch_config [OF s2] inv1 by (auto simp: session_simps)
  moreover have "ev = command_stage c \<and> rb = reply_bit c \<and> cl = (c = Quit)"
    using dispatch_outcome [OF s2] by simp
  ultimately show ?thesis
    using fin p2 by (auto simp: answers_def finish_step_iff quiet_reply_def split: option.splits)
qed

theorem receive_answers:
  assumes "session_inv s" and "receive f s = (Inr stp, t)" and "decode f = Inr c"
  shows "case c of Negotiate o' \<Rightarrow> True | Macro m vs \<Rightarrow> stp = empty_step | _ \<Rightarrow> answers s c stp t"
proof -
  have p: "pending s = None" using assms(2) by (auto simp: receive_def split: if_splits)
  note eq = receive_eq [OF p assms(3)]
  consider o' where "c = Negotiate o'" | m vs where "c = Macro m vs"
    | "\<And>o'. c \<noteq> Negotiate o'" "\<And>m vs. c \<noteq> Macro m vs" by blast
  then show ?thesis
  proof cases
    case 2
    then have "receive_macro m vs s = (Inr stp, t)" using eq assms(2) by (auto split: if_splits)
    with 2 show ?thesis by (auto simp: receive_macro_def result_simps)
  next
    case 3
    have r: "receive_command (frame.command f) c s = (Inr stp, t)" "state s \<noteq> Initial"
      "state s \<noteq> Closed"
      using eq assms(2) 3 by (cases c; auto split: if_splits)+
    from receive_command_answers [OF r(1) assms(1) p r(2,3)] 3 show ?thesis by (cases c) auto
  qed simp
qed

text \<open>A stage is answered silently only when nobody subscribed to it.\<close>

fun stage_bit :: "stage \<Rightarrow> u32" where
  "stage_bit StConnect = NR_CONNECT"
| "stage_bit StHelo = NR_HELO"
| "stage_bit StMail = NR_MAIL"
| "stage_bit StRecipient = NR_RCPT"
| "stage_bit StEndMessage = 0"

lemma wanted_protocol_stage:
  "wanted_protocol sts AND stage_bit st = 0 \<longleftrightarrow> st = StEndMessage \<or> st \<in> set sts"
  by (cases st; cases "StConnect \<in> set sts"; cases "StHelo \<in> set sts"; cases "StMail \<in> set sts";
      cases "StRecipient \<in> set sts") (simp_all add: wanted_protocol_def protocol_defs)

section \<open>The assembled message\<close>

lemma raw_header_length: "length (raw_header ls (n, v)) \<le> length n + length v + 4"
  by (simp add: raw_header_def)

lemma raw_headers_length: "length (concat (map (raw_header ls) hs)) \<le> header_cost hs"
proof (induction hs)
  case (Cons h hs)
  obtain n v where h: "h = (n, v)" by fastforce
  have "header_cost (h # hs) = length n + length v + 4 + header_cost hs"
    by (simp add: h header_cost_def)
  with Cons raw_header_length [of ls n v] show ?case by (simp add: h)
qed simp

lemma raw_message_length:
  assumes "session_inv s" and "state s = InBody"
  shows "length (raw_message s) \<le> msg_bytes (message s)"
    and "msg_bytes (message s) \<le> lim_message_bytes (limits s)"
  using assms raw_headers_length [of "leading_space s" "headers (message s)"]
  by (auto simp: raw_message_def session_inv_def phase_inv_def size_inv_def)

section \<open>Macro scopes\<close>

text \<open>Only the batch announced for this very command is visible after it.\<close>

lemma activate_macros_lookup:
  "bmap_invar (macros s) \<Longrightarrow> map_of (macros (activate_macros c s)) =
     (map_of (macros s))(c := map_of (pending_macros s) c)"
  by (auto simp: activate_macros_def bm.get_insert bm.get_remove split: option.splits)

lemma begin_mail_macro:
  assumes "begin_mail op s = (Inr u, t)" and "macro_inv s"
  shows "map_of (pending_macros t) (CHR ''M'') = map_of (pending_macros s) (CHR ''M'')"
    and "bmap_invar (macros t)"
  using assms
  by (auto simp: begin_mail_iff Let_def macro_inv_def conn_stage_def bm.invar_retain
      bm.invar_remove bm.invar_insert bm.get_insert bm.get_remove bm.get_retain
      split: option.splits)

lemma receive_command_macros:
  assumes "receive_command op c s = (Inr stp, t)" and "session_inv s"
    and "c \<notin> {Abort, Quit, QuitNewConnection}" and "is_mail c \<Longrightarrow> op = CHR ''M''"
  shows "map_of (macros t) op = map_of (pending_macros s) op"
proof -
  from assms(1) obtain s1 ev rb cl s2 where
    s1: "if is_mail c then begin_mail op s = (Inr (), s1) else s1 = s" and
    s2: "dispatch op c (activate_macros op s1) = (Inr (ev, rb, cl), s2)" and
    fin: "finish_step (ev, rb, cl) s2 = (Inr stp, t)" by (rule receive_command_Inr)
  have inv: "macro_inv s" using assms(2) by (simp add: session_inv_def)
  have "macros t = macros s2" using finish_step_session [OF fin] by (auto split: option.splits)
  also have "macros s2 = macros (activate_macros op s1)"
    using dispatch_macros [OF s2] assms(3) by simp
  finally have "map_of (macros t) op = map_of (pending_macros s1) op"
    using activate_macros_lookup [of s1 op] begin_mail_macro(2) [OF _ inv] s1 inv
    by (auto simp: macro_inv_def split: if_splits)
  also have "\<dots> = map_of (pending_macros s) op"
    using s1 begin_mail_macro(1) [OF _ inv] assms(4) by (auto split: if_splits)
  finally show ?thesis .
qed

lemma find_macro_cong:
  "(\<And>c. c \<in> set cs \<Longrightarrow> map_of ms c = map_of ms' c) \<Longrightarrow>
   find_macro ms name cs = find_macro ms' name cs"
  by (induction cs) (auto split: option.splits)

section \<open>What a session never changes\<close>

lemma receive_Inr:
  assumes "receive f s = (Inr stp, t)"
  obtains (negotiate) o' where "decode f = Inr (Negotiate o')" "pending s = None"
      "receive_negotiate (frame.command f) o' s = (Inr stp, t)"
  | (macro) m vs where "decode f = Inr (Macro m vs)" "pending s = None" "receive_macro m vs s = (Inr stp, t)"
  | (other) c where "decode f = Inr c" "pending s = None" "\<And>o'. c \<noteq> Negotiate o'"
      "\<And>m vs. c \<noteq> Macro m vs" "state s \<noteq> Initial" "state s \<noteq> Closed"
      "receive_command (frame.command f) c s = (Inr stp, t)"
proof -
  have p: "pending s = None" using assms by (auto simp: receive_def split: if_splits)
  obtain c where c: "decode f = Inr c"
    using assms p by (cases "decode f") (auto simp: receive_def)
  note eq = receive_eq [OF p c]
  consider o' where "c = Negotiate o'" | m vs where "c = Macro m vs"
    | "\<And>o'. c \<noteq> Negotiate o'" "\<And>m vs. c \<noteq> Macro m vs" by blast
  then show ?thesis
  proof cases
    case 1
    with eq assms c p show ?thesis by (intro negotiate) (auto split: if_splits)
  next
    case 2
    with eq assms c p show ?thesis by (intro macro) (auto split: if_splits)
  next
    case 3
    then have "receive_command (frame.command f) c s = (Inr stp, t)" "state s \<noteq> Initial"
      "state s \<noteq> Closed"
      using eq assms by (cases c; auto split: if_splits)+
    with c p 3 show ?thesis by (intro other)
  qed
qed

lemma receive_keeps:
  assumes "receive f s = (Inr stp, t)"
  shows "limits t = limits s \<and> stages t = stages s \<and> wanted_actions t = wanted_actions s \<and>
    macro_lists t = macro_lists s"
  using assms
proof (cases rule: receive_Inr)
  case (other c)
  from other(7) obtain s1 ev rb cl s2 where
    "if is_mail c then begin_mail (frame.command f) s = (Inr (), s1) else s1 = s" and
    s2: "dispatch (frame.command f) c (activate_macros (frame.command f) s1) = (Inr (ev, rb, cl), s2)" and
    fin: "finish_step (ev, rb, cl) s2 = (Inr stp, t)" by (rule receive_command_Inr)
  then have "limits s1 = limits s \<and> stages s1 = stages s \<and> wanted_actions s1 = wanted_actions s \<and>
      macro_lists s1 = macro_lists s"
    by (auto simp: begin_mail_iff Let_def split: if_splits)
  with dispatch_config [OF s2] finish_step_session [OF fin] show ?thesis
    by (auto simp: session_simps split: option.splits)
qed (auto simp: receive_macro_def receive_negotiate_iff Let_def result_simps)

lemma complete_keeps:
  assumes "complete d s = (Inr out, t)"
  shows "limits t = limits s \<and> stages t = stages s \<and> wanted_actions t = wanted_actions s \<and>
    macro_lists t = macro_lists s \<and> opts t = opts s"
  using assms
  by (rule complete_Inr) (auto simp: after_verdict_def Let_def session_simps pop_recipient_def)

end
