(* ===== verification/Stats.thy ===== *)
theory Stats
  imports Wire
begin

text \<open>
  \<open>src/src/stats.rs\<close>: the operational counters. Atomic counters and the counters behind the
  mutexes are 64-bit words (an increment wraps). Elapsed times are nanoseconds; the histogram's
  comparison \<open>elapsed <= bound\<close> is taken on them, which agrees with the \<open>f64\<close> comparison because
  every bound is a whole number of nanoseconds. The running sum is the only floating-point
  accumulation: addition, conversion and printing of \<open>f64\<close> are arguments.
\<close>

section \<open>Data\<close>

definition FAILURE_KINDS :: "string list" where
  "FAILURE_KINDS = [''timeout'', ''connect'', ''request'', ''body'', ''decode'', ''transport'',
     ''http_status'', ''io'', ''invalid'', ''limit'', ''protocol'', ''capability'', ''upstream'',
     ''cancelled'']"

text \<open>The bounds in nanoseconds, with the text \<open>f64\<close>'s \<open>Display\<close> gives them in seconds.\<close>

definition BUCKETS :: "(nat \<times> string) list" where
  "BUCKETS = [(1000000, ''0.001''), (5000000, ''0.005''), (10000000, ''0.01''),
     (25000000, ''0.025''), (50000000, ''0.05''), (100000000, ''0.1''), (250000000, ''0.25''),
     (500000000, ''0.5''), (1000000000, ''1''), (5000000000, ''5''), (20000000000, ''20''),
     (60000000000, ''60'')]"

record 'f measurements =
  buckets :: "u64 list"
  count :: u64
  sum_seconds :: 'f
  success :: u64
  failures :: "u64 list"

record 'f operation_stats =
  op_active :: u64
  measured :: "'f measurements"

record 'f stats =
  ready :: bool
  active :: u64
  connections :: u64
  overload :: u64
  messages :: u64
  progress :: u64
  errors :: u64
  policy_errors :: u64
  hook_retries :: u64
  policy_op :: "'f operation_stats"
  registration_op :: "'f operation_stats"
  hook_op :: "'f operation_stats"
  registration_wait_op :: "'f operation_stats"
  deregistration_op :: "'f operation_stats"
  drain_graceful :: u64
  drain_forced :: u64
  listener :: nat
  connection_failures :: "u64 list"

definition default_measurements :: "'f \<Rightarrow> 'f measurements" where
  "default_measurements z = \<lparr>buckets = replicate (length BUCKETS) 0, count = 0, sum_seconds = z,
     success = 0, failures = replicate (length FAILURE_KINDS) 0\<rparr>"

definition default_operation_stats :: "'f \<Rightarrow> 'f operation_stats" where
  "default_operation_stats z = \<lparr>op_active = 0, measured = default_measurements z\<rparr>"

definition default_stats :: "'f \<Rightarrow> 'f stats" where
  "default_stats z = \<lparr>ready = False, active = 0, connections = 0, overload = 0, messages = 0,
     progress = 0, errors = 0, policy_errors = 0, hook_retries = 0,
     policy_op = default_operation_stats z, registration_op = default_operation_stats z,
     hook_op = default_operation_stats z, registration_wait_op = default_operation_stats z,
     deregistration_op = default_operation_stats z, drain_graceful = 0, drain_forced = 0,
     listener = 0, connection_failures = replicate (length FAILURE_KINDS) 0\<rparr>"

section \<open>Operations\<close>

definition kind_index :: "string \<Rightarrow> nat result" where
  "kind_index k = ok_or (Panic ''fixed error category'') (position (\<lambda>v. v = k) FAILURE_KINDS)"

definition record_failure :: "u64 list \<Rightarrow> string \<Rightarrow> u64 list result" where
  "record_failure counts k = map_r (\<lambda>i. counts[i := counts ! i + 1]) (kind_index k)"

record observation =
  started :: nat
  outcome :: string

definition op_begin :: "nat \<Rightarrow> 'f operation_stats \<Rightarrow> observation \<times> 'f operation_stats" where
  "op_begin now ops =
     (\<lparr>started = now, outcome = ''cancelled''\<rparr>, ops\<lparr>op_active := op_active ops + 1\<rparr>)"

text \<open>The destructor of an observation: every observation, finished or cancelled, ends here.\<close>

definition count_elapsed :: "nat \<Rightarrow> u64 list \<Rightarrow> u64 list" where
  "count_elapsed elapsed counts =
     map2 (\<lambda>(bound, _) c. if elapsed \<le> bound then c + 1 else c) BUCKETS counts"

definition op_drop ::
  "('f \<Rightarrow> 'f \<Rightarrow> 'f) \<Rightarrow> (nat \<Rightarrow> 'f) \<Rightarrow> nat \<Rightarrow> observation \<Rightarrow> 'f operation_stats \<Rightarrow>
   'f operation_stats result" where
  "op_drop f64_add as_secs_f64 now obs ops =
     (let elapsed = now - started obs; v = measured ops;
          v1 = v\<lparr>count := count v + 1, sum_seconds := f64_add (sum_seconds v) (as_secs_f64 elapsed),
                 buckets := count_elapsed elapsed (buckets v)\<rparr> in
      bind_r (if outcome obs = ''success'' then Inr (v1\<lparr>success := success v1 + 1\<rparr>)
              else map_r (\<lambda>fs. v1\<lparr>failures := fs\<rparr>) (record_failure (failures v1) (outcome obs)))
        (\<lambda>v2. Inr (ops\<lparr>measured := v2, op_active := op_active ops - 1\<rparr>)))"

definition finish_error :: "error option \<Rightarrow> observation \<Rightarrow> observation" where
  "finish_error err obs =
     obs\<lparr>outcome := (case err of None \<Rightarrow> ''success'' | Some e \<Rightarrow> kind e)\<rparr>"

definition result_err :: "'a result \<Rightarrow> error option" where
  "result_err r = (case r of Inl e \<Rightarrow> Some e | Inr _ \<Rightarrow> None)"

definition finish :: "'a result \<Rightarrow> observation \<Rightarrow> observation" where
  "finish r obs = finish_error (result_err r) obs"

definition connection_error :: "error \<Rightarrow> 'f stats \<Rightarrow> 'f stats result" where
  "connection_error e s =
     (let s1 = s\<lparr>errors := errors s + 1\<rparr> in
      map_r (\<lambda>fs. s1\<lparr>connection_failures := fs\<rparr>)
        (record_failure (connection_failures s1) (kind e)))"

section \<open>Rendering\<close>

definition quoted :: "string \<Rightarrow> string" where
  "quoted s = [CHR 0x22] @ s @ [CHR 0x22]"

definition show_u64 :: "u64 \<Rightarrow> string" where
  "show_u64 w = dec (unat w)"

definition op_render :: "('f \<Rightarrow> string) \<Rightarrow> string \<Rightarrow> 'f operation_stats \<Rightarrow> string" where
  "op_render show_f64 op ops =
     (let v = measured ops; lbl = ''{operation='' @ quoted op in
      ''milter_operations_active'' @ lbl @ ''} '' @ show_u64 (op_active ops) @ [LF] @
      ''milter_operations_total'' @ lbl @ '',outcome='' @ quoted ''success'' @ ''} '' @
        show_u64 (success v) @ [LF] @
      concat (map2 (\<lambda>k c. ''milter_operations_total'' @ lbl @ '',outcome='' @ quoted k @ ''} '' @
        show_u64 c @ [LF]) FAILURE_KINDS (failures v)) @
      concat (map2 (\<lambda>(_, bound) c. ''milter_operation_duration_seconds_bucket'' @ lbl @ '',le='' @
        quoted bound @ ''} '' @ show_u64 c @ [LF]) BUCKETS (buckets v)) @
      ''milter_operation_duration_seconds_bucket'' @ lbl @ '',le='' @ quoted ''+Inf'' @ ''} '' @
        show_u64 (count v) @ [LF] @
      ''milter_operation_duration_seconds_count'' @ lbl @ ''} '' @ show_u64 (count v) @ [LF] @
      ''milter_operation_duration_seconds_sum'' @ lbl @ ''} '' @ show_f64 (sum_seconds v) @ [LF])"

definition scalar_metrics :: "'f stats \<Rightarrow> (string \<times> string \<times> u64) list" where
  "scalar_metrics s = [
     (''connections_active'', ''gauge'', active s),
     (''connections_total'', ''counter'', connections s),
     (''overload_total'', ''counter'', overload s),
     (''messages_total'', ''counter'', messages s),
     (''progress_total'', ''counter'', progress s),
     (''protocol_errors_total'', ''counter'', errors s),
     (''policy_errors_total'', ''counter'', policy_errors s),
     (''hook_retries_total'', ''counter'', hook_retries s),
     (''ready'', ''gauge'', of_bool (ready s))]"

definition operations :: "'f stats \<Rightarrow> (string \<times> 'f operation_stats) list" where
  "operations s = [(''policy'', policy_op s), (''registration'', registration_op s),
     (''hook'', hook_op s), (''registration_wait'', registration_wait_op s),
     (''deregistration'', deregistration_op s)]"

definition render :: "('f \<Rightarrow> string) \<Rightarrow> 'f stats \<Rightarrow> string" where
  "render show_f64 s =
     concat (map (\<lambda>(name, knd, value). ''# TYPE milter_'' @ name @ '' '' @ knd @ [LF] @
       ''milter_'' @ name @ '' '' @ show_u64 value @ [LF]) (scalar_metrics s)) @
     ''# TYPE milter_listener_up gauge'' @ [LF] @
     concat (map (\<lambda>(transport, ident). ''milter_listener_up{transport='' @ quoted transport @ ''} '' @
       dec (of_bool (listener s = ident)) @ [LF]) [(''tcp'', 1), (''unix'', 2)]) @
     ''# TYPE milter_drain_total counter'' @ [LF] @
     concat (map (\<lambda>(oc, value). ''milter_drain_total{outcome='' @ quoted oc @ ''} '' @
       show_u64 value @ [LF])
       [(''graceful'', drain_graceful s), (''forced'', drain_forced s)]) @
     ''# TYPE milter_connection_failures_total counter'' @ [LF] @
     concat (map2 (\<lambda>k value. ''milter_connection_failures_total{kind='' @ quoted k @ ''} '' @
       show_u64 value @ [LF]) FAILURE_KINDS (connection_failures s)) @
     ''# TYPE milter_operations_active gauge'' @ [LF] @
     ''# TYPE milter_operations_total counter'' @ [LF] @
     ''# TYPE milter_operation_duration_seconds histogram'' @ [LF] @
     concat (map (\<lambda>(name, ops). op_render show_f64 name ops) (operations s))"

section \<open>Every error has its category\<close>

lemma kind_category: "(\<And>m. e \<noteq> Panic m) \<Longrightarrow> kind e \<in> set (butlast FAILURE_KINDS)"
  by (cases e rule: kind.cases) (auto simp: FAILURE_KINDS_def)

lemma kind_index_iff:
  "kind_index k = Inr i \<longleftrightarrow> i < length FAILURE_KINDS \<and> FAILURE_KINDS ! i = k"
proof -
  have "distinct FAILURE_KINDS" by (simp add: FAILURE_KINDS_def)
  then have "position (\<lambda>v. v = k) FAILURE_KINDS = Some i \<longleftrightarrow>
      i < length FAILURE_KINDS \<and> FAILURE_KINDS ! i = k"
    by (auto simp: position_Some_iff nth_eq_iff_index_eq)
  then show ?thesis by (simp add: kind_index_def result_simps)
qed

lemma kind_index_total: "k \<in> set FAILURE_KINDS \<Longrightarrow> \<exists>i. kind_index k = Inr i"
  by (auto simp: kind_index_iff in_set_conv_nth)

lemma record_failure_Inr:
  assumes "record_failure counts k = Inr counts'" and "length counts = length FAILURE_KINDS"
  shows "k \<in> set FAILURE_KINDS \<and> counts' = map2 (\<lambda>k' c. if k' = k then c + 1 else c) FAILURE_KINDS counts"
proof -
  from assms(1) obtain i where i: "i < length FAILURE_KINDS" "FAILURE_KINDS ! i = k"
    and c: "counts' = counts[i := counts ! i + 1]"
    by (auto simp: record_failure_def result_simps kind_index_iff)
  have "distinct FAILURE_KINDS" by (simp add: FAILURE_KINDS_def)
  with i assms(2) have
    "counts' = map2 (\<lambda>k' c. if k' = k then c + 1 else c) FAILURE_KINDS counts"
    by (intro nth_equalityI) (auto simp: c nth_list_update nth_eq_iff_index_eq)
  with i show ?thesis by auto
qed

lemma record_failure_total: "k \<in> set FAILURE_KINDS \<Longrightarrow> \<exists>c. record_failure counts k = Inr c"
  using kind_index_total by (fastforce simp: record_failure_def)

section \<open>The counters refine the history of observations\<close>

text \<open>A completed observation, as its elapsed time and its outcome, and the measurements a history
  of them amounts to.\<close>

type_synonym history = "(nat \<times> string) list"

definition tally :: "('b \<Rightarrow> bool) \<Rightarrow> 'b list \<Rightarrow> u64" where
  "tally P h = of_nat (length (filter P h))"

definition summary ::
  "('f \<Rightarrow> 'f \<Rightarrow> 'f) \<Rightarrow> (nat \<Rightarrow> 'f) \<Rightarrow> 'f \<Rightarrow> history \<Rightarrow> 'f measurements" where
  "summary f64_add as_secs_f64 z h =
     \<lparr>buckets = map (\<lambda>(bound, _). tally (\<lambda>(e, _). e \<le> bound) h) BUCKETS,
      count = tally (\<lambda>_. True) h,
      sum_seconds = foldl f64_add z (map (as_secs_f64 \<circ> fst) h),
      success = tally (\<lambda>(_, k). k = ''success'') h,
      failures = map (\<lambda>k. tally (\<lambda>(_, k'). k' = k) h) FAILURE_KINDS\<rparr>"

lemma tally_snoc [simp]: "tally P (h @ [x]) = (if P x then tally P h + 1 else tally P h)"
  by (simp add: tally_def)

lemma tally_Nil [simp]: "tally P [] = 0"
  by (simp add: tally_def)

lemma summary_Nil: "summary f64_add secs z [] = default_measurements z"
  by (simp add: summary_def default_measurements_def map_replicate_const case_prod_unfold)

lemma map2_map: "map2 g xs (map f xs) = map (\<lambda>x. g x (f x)) xs"
  by (induction xs) auto

lemma op_drop_refines:
  assumes "measured ops = summary f64_add secs z h"
    and "outcome obs \<in> insert ''success'' (set FAILURE_KINDS)"
  shows "op_drop f64_add secs now obs ops =
    Inr (ops\<lparr>measured := summary f64_add secs z (h @ [(now - started obs, outcome obs)]),
             op_active := op_active ops - 1\<rparr>)"
proof -
  have ns: "''success'' \<notin> set FAILURE_KINDS" by (simp add: FAILURE_KINDS_def)
  have b: "count_elapsed e (map (\<lambda>(bound, _). tally (\<lambda>(e, _). e \<le> bound) h) BUCKETS) =
      map (\<lambda>(bound, _). tally (\<lambda>(e, _). e \<le> bound) (h @ [(e, k)])) BUCKETS" for e k
    by (auto simp: count_elapsed_def map2_map)
  let ?fs = "map (\<lambda>k. tally (\<lambda>(_, k'). k' = k) h) FAILURE_KINDS"
  show ?thesis
  proof (cases "outcome obs = ''success''")
    case True
    have "?fs = map (\<lambda>k. tally (\<lambda>(_, k'). k' = k) (h @ [(now - started obs, ''success'')]))
        FAILURE_KINDS"
      using ns by (auto intro!: map_cong)
    with True b [of "now - started obs" "''success''"] show ?thesis
      by (simp add: op_drop_def Let_def assms(1) summary_def)
  next
    case False
    with assms(2) have k: "outcome obs \<in> set FAILURE_KINDS" by simp
    then obtain fs where fs: "record_failure ?fs (outcome obs) = Inr fs"
      using record_failure_total by blast
    have "fs = map (\<lambda>k. tally (\<lambda>(_, k'). k' = k) (h @ [(now - started obs, outcome obs)]))
        FAILURE_KINDS"
      using record_failure_Inr [OF fs] by (auto simp: map2_map)
    with False fs b [of "now - started obs" "outcome obs"] show ?thesis
      by (simp add: op_drop_def Let_def assms(1) summary_def)
  qed
qed

lemma finish_outcome:
  "(\<And>m. e \<noteq> Panic m) \<Longrightarrow> outcome (finish_error (Some e) obs) \<in> set FAILURE_KINDS"
  "outcome (finish_error None obs) = ''success''"
  using kind_category [of e] by (auto simp: finish_error_def dest: in_set_butlastD)

section \<open>The rendering has a fixed number of lines\<close>

definition line_count :: "string \<Rightarrow> nat" where
  "line_count s = length (filter (\<lambda>c. c = LF) s)"

lemma line_count_simps [simp]:
  "line_count [] = 0" "line_count (c # s) = of_bool (c = LF) + line_count s"
  "line_count (s @ t) = line_count s + line_count t"
  by (simp_all add: line_count_def)

lemma line_count_dec [simp]: "line_count (dec n) = 0"
  using dec_ascii [of LF n] by (auto simp: line_count_def filter_empty_conv)

lemma line_count_show_u64 [simp]: "line_count (show_u64 w) = 0"
  by (simp add: show_u64_def)

lemma line_count_concat: "line_count (concat xs) = sum_list (map line_count xs)"
  by (induction xs) auto

lemma line_count_map2:
  "length xs = length ys \<Longrightarrow> (\<And>x y. x \<in> set xs \<Longrightarrow> line_count (f x y) = 1) \<Longrightarrow>
   line_count (concat (map2 f xs ys)) = length xs"
  by (induction xs ys rule: list_induct2) auto

lemma line_count_quoted [simp]: "line_count (quoted s) = line_count s"
  by (simp add: quoted_def)

lemma line_count_kind: "k \<in> set FAILURE_KINDS \<Longrightarrow> line_count k = 0"
  by (auto simp: FAILURE_KINDS_def)

lemma line_count_bound: "b \<in> set BUCKETS \<Longrightarrow> line_count (snd b) = 0"
  by (auto simp: BUCKETS_def)

lemma line_count_op_render:
  assumes "length (failures (measured ops)) = length FAILURE_KINDS"
    and "length (buckets (measured ops)) = length BUCKETS"
    and "line_count op = 0" and "\<And>x. line_count (show_f64 x) = 0"
  shows "line_count (op_render show_f64 op ops) = 31"
proof -
  have "line_count (concat (map2 (\<lambda>k c. ''milter_operations_total'' @ (''{operation='' @ quoted op) @
      '',outcome='' @ quoted k @ ''} '' @ show_u64 c @ [LF]) FAILURE_KINDS
      (failures (measured ops)))) = length FAILURE_KINDS"
    using assms by (intro line_count_map2) (auto simp: line_count_kind)
  moreover have "line_count (concat (map2 (\<lambda>(_, bound) c.
      ''milter_operation_duration_seconds_bucket'' @ (''{operation='' @ quoted op) @ '',le='' @
      quoted bound @ ''} '' @ show_u64 c @ [LF]) BUCKETS (buckets (measured ops)))) = length BUCKETS"
    using assms line_count_bound by (intro line_count_map2) (auto dest!: line_count_bound)
  moreover have "length FAILURE_KINDS = 14" "length BUCKETS = 12"
    by (simp_all add: FAILURE_KINDS_def BUCKETS_def)
  ultimately show ?thesis using assms(3,4) by (simp add: op_render_def Let_def)
qed

definition op_shape :: "'f operation_stats \<Rightarrow> bool" where
  "op_shape ops \<longleftrightarrow> length (failures (measured ops)) = length FAILURE_KINDS \<and>
     length (buckets (measured ops)) = length BUCKETS"

definition stats_shape :: "'f stats \<Rightarrow> bool" where
  "stats_shape s \<longleftrightarrow> length (connection_failures s) = length FAILURE_KINDS \<and>
     list_all (\<lambda>(name, ops). op_shape ops) (operations s)"

lemma default_stats_shape: "stats_shape (default_stats z)"
  by (simp add: stats_shape_def operations_def op_shape_def default_stats_def
      default_operation_stats_def default_measurements_def)

lemma render_line_count:
  assumes "stats_shape s" and "\<And>x. line_count (show_f64 x) = 0"
  shows "line_count (render show_f64 s) = 197"
proof -
  have op: "op_shape ops \<Longrightarrow> line_count op = 0 \<Longrightarrow> line_count (op_render show_f64 op ops) = 31"
    for op ops using assms(2) by (simp add: line_count_op_render op_shape_def)
  have "line_count (concat (map2 (\<lambda>k value. ''milter_connection_failures_total{kind='' @ quoted k @
      ''} '' @ show_u64 value @ [LF]) FAILURE_KINDS (connection_failures s))) = length FAILURE_KINDS"
    using assms(1) by (intro line_count_map2) (auto simp: line_count_kind stats_shape_def)
  moreover have "length FAILURE_KINDS = 14" by (simp add: FAILURE_KINDS_def)
  ultimately show ?thesis
    using assms(1) op
    by (simp add: render_def scalar_metrics_def operations_def stats_shape_def)
qed

section \<open>Histogram buckets are cumulative\<close>

lemma filter_length_mono: "(\<And>x. P x \<Longrightarrow> Q x) \<Longrightarrow> length (filter P h) \<le> length (filter Q h)"
  by (induction h) auto

lemma tally_mono:
  assumes "length h < 2 ^ 64" and "\<And>x. P x \<Longrightarrow> Q x"
  shows "tally P h \<le> tally Q h"
proof -
  have "length (filter P h) \<le> length (filter Q h)" using assms(2) by (rule filter_length_mono)
  moreover have "length (filter Q h) \<le> length h" by simp
  ultimately have "length (filter P h) < 2 ^ 64" "length (filter Q h) < 2 ^ 64"
    "length (filter P h) \<le> length (filter Q h)" using assms(1) by linarith+
  then show ?thesis
    by (simp add: tally_def word_le_nat_alt unat_of_nat take_bit_nat_eq_self)
qed

lemma BUCKETS_ascending: "sorted (map fst BUCKETS)"
  by (simp add: BUCKETS_def)

lemma summary_cumulative:
  assumes "length h < 2 ^ 64"
  shows "sorted (buckets (summary f64_add secs z h) @ [count (summary f64_add secs z h)])"
proof -
  have "sorted (map (\<lambda>(bound, _). tally (\<lambda>(e, _). e \<le> bound) h) BUCKETS)"
    using BUCKETS_ascending
    by (auto simp: sorted_map case_prod_unfold intro!: tally_mono [OF assms] elim!: sorted_wrt_mono_rel [rotated])
  then show ?thesis
    by (auto simp: summary_def sorted_append intro!: tally_mono [OF assms])
qed

section \<open>Ending an observation\<close>

lemma op_drop_ok:
  assumes "outcome obs \<in> insert ''success'' (set FAILURE_KINDS)"
  shows "\<exists>ops'. op_drop fadd secs now obs ops = Inr ops' \<and> (op_shape ops \<longrightarrow> op_shape ops') \<and>
    op_active ops' = op_active ops - 1"
proof (cases "outcome obs = ''success''")
  case True
  then show ?thesis by (simp add: op_drop_def Let_def op_shape_def count_elapsed_def)
next
  case False
  with assms obtain fs where fs:
    "record_failure (failures (measured ops)) (outcome obs) = Inr fs"
    using record_failure_total by blast
  then have "length fs = length (failures (measured ops))"
    by (auto simp: record_failure_def result_simps)
  with False fs show ?thesis by (simp add: op_drop_def Let_def op_shape_def count_elapsed_def)
qed

lemma stats_shape_updates [simp]:
  "stats_shape (s\<lparr>progress := n\<rparr>) = stats_shape s" "stats_shape (s\<lparr>messages := n\<rparr>) = stats_shape s"
  "stats_shape (s\<lparr>policy_errors := n\<rparr>) = stats_shape s"
  "stats_shape s \<Longrightarrow> op_shape (policy_op s)"
  "stats_shape s \<Longrightarrow> op_shape ops \<Longrightarrow> stats_shape (s\<lparr>policy_op := ops\<rparr>)"
  by (auto simp: stats_shape_def operations_def)

end
