(* ===== verification/Server.thy ===== *)
theory Server
  imports Decision_Safety Stats
begin

text \<open>
  \<open>src/src/server.rs\<close>, the connection driver: one milter connection as a state (bytes still to
  be read, bytes written, session, counters) and one turn of its loop. What the runtime and the
  network decide in a turn - which branch of a \<open>select\<close> wins, which timers fire, how many bytes
  a socket accepts - is the argument \<open>turn\<close>; a run is a list of turns.
\<close>

section \<open>Configuration and policies\<close>

record config =
  cfg_limits :: limits
  max_connections :: nat
  idle_timeout :: "nat option"
  frame_timeout :: nat
  policy_timeout :: nat
  progress_interval :: "nat option"
  write_timeout :: nat
  shutdown_timeout :: nat
  fail_open :: bool

definition default_config :: config where
  "default_config = \<lparr>cfg_limits = default_limits, max_connections = 128, idle_timeout = None,
     frame_timeout = 60000, policy_timeout = 20000, progress_interval = Some 10000, write_timeout = 10000,
     shutdown_timeout = 30000, fail_open = False\<rparr>"

text \<open>A policy. Its evaluation may depend on the outside world, the argument of type \<open>'e\<close>.\<close>

record 'e policy =
  pol_stages :: "stage list"
  pol_actions :: u32
  pol_macros :: macro_lists
  pol_evaluate :: "'e \<Rightarrow> stage \<Rightarrow> session \<Rightarrow> decision result"

definition passthrough :: "'e policy" where
  "passthrough = \<lparr>pol_stages = [], pol_actions = 0, pol_macros = [],
     pol_evaluate = (\<lambda>_ _ _. Inr default_decision)\<rparr>"

text \<open>The floating-point operations of the counters.\<close>

record 'f float_ops =
  f64_add :: "'f \<Rightarrow> 'f \<Rightarrow> 'f"
  as_secs_f64 :: "nat \<Rightarrow> 'f"

section \<open>One turn of the environment\<close>

text \<open>A socket that takes everything (\<open>None\<close>), or only the next \<open>n\<close> bytes before error \<open>e\<close>.\<close>

type_synonym socket = "(nat \<times> error) option"

record 'e turn =
  stop_wins :: bool
  idle_expired :: bool
  read_error :: "io_kind option"
  frame_fault :: "error option"
  ticks :: "socket list"
  deadline_hit :: bool
  outside :: 'e
  write_socket :: socket
  begun :: nat
  ended :: nat

record 'f conn_state =
  c_in :: bytes
  c_out :: bytes
  c_session :: session
  c_stats :: "'f stats"

section \<open>Reading and writing\<close>

definition read_next_frame :: "config \<Rightarrow> 'e turn \<Rightarrow> bytes \<Rightarrow> frame option result \<times> bytes" where
  "read_next_frame cfg u r =
     (if idle_timeout cfg \<noteq> None \<and> idle_expired u then (Inl Timeout, r)
      else (case read_error u of
        Some k \<Rightarrow> (Inl (Io k), r)
      | None \<Rightarrow>
          (case r of
             [] \<Rightarrow> (Inr None, [])
           | first # r' \<Rightarrow>
               (case frame_fault u of
                  Some e \<Rightarrow> (Inl e, r')
                | None \<Rightarrow>
                    bind_s (read_frame_after_start first (lim_frame_bytes (cfg_limits cfg)))
                      (\<lambda>f. return_s (Some f)) r'))))"

fun write_frames :: "socket \<Rightarrow> frame list \<Rightarrow> bytes \<Rightarrow> unit result \<times> bytes" where
  "write_frames sock [] out = (Inr (), out)"
| "write_frames sock (f # fs) out =
     (case encode_frame f of
        Inl e \<Rightarrow> (Inl e, out)
      | Inr bs \<Rightarrow>
          (case sock of
             None \<Rightarrow> write_frames None fs (out @ bs)
           | Some (n, e) \<Rightarrow>
               if length bs \<le> n then write_frames (Some (n - length bs, e)) fs (out @ bs)
               else (Inl e, out @ take n bs)))"

definition send :: "socket \<Rightarrow> frame list \<Rightarrow> 'f conn_state \<Rightarrow> unit result \<times> 'f conn_state" where
  "send sock fs c = (case write_frames sock fs (c_out c) of (r, out) \<Rightarrow> (r, c\<lparr>c_out := out\<rparr>))"

definition update_stats ::
  "('f stats \<Rightarrow> 'f stats) \<Rightarrow> 'f conn_state \<Rightarrow> 'f conn_state" where
  "update_stats g c = c\<lparr>c_stats := g (c_stats c)\<rparr>"

section \<open>A callback\<close>

text \<open>The keepalive loop: every tick is counted and writes one PROGRESS frame.\<close>

fun keepalive :: "socket list \<Rightarrow> 'f conn_state \<Rightarrow> unit result \<times> 'f conn_state" where
  "keepalive [] c = (Inr (), c)"
| "keepalive (sock # ts) c =
     bind_s (modify_s (update_stats (\<lambda>s. s\<lparr>progress := progress s + 1\<rparr>))) (\<lambda>_.
     bind_s (send sock [empty_frame PROGRESS]) (\<lambda>_. keepalive ts)) c"

definition evaluate_with_progress ::
  "'e policy \<Rightarrow> config \<Rightarrow> 'e turn \<Rightarrow> stage \<Rightarrow> 'f conn_state \<Rightarrow>
   decision result \<times> 'f conn_state" where
  "evaluate_with_progress pol cfg u stage =
     bind_s (keepalive (if progress_interval cfg = None then [] else ticks u)) (\<lambda>_.
       check_s (\<lambda>c. if deadline_hit u then Inl Timeout
                    else pol_evaluate pol (outside u) stage (c_session c)))"

definition complete_conn :: "decision \<Rightarrow> 'f conn_state \<Rightarrow> frame list result \<times> 'f conn_state" where
  "complete_conn d c =
     (case complete d (c_session c) of (r, s) \<Rightarrow> (r, c\<lparr>c_session := s\<rparr>))"

definition finish_observation ::
  "'f float_ops \<Rightarrow> 'e turn \<Rightarrow> observation option \<Rightarrow> 'a result \<Rightarrow> 'f conn_state \<Rightarrow>
   unit result \<times> 'f conn_state" where
  "finish_observation fl u obs r c =
     (case obs of
        None \<Rightarrow> (Inr (), c)
      | Some b \<Rightarrow>
          (case op_drop (f64_add fl) (as_secs_f64 fl) (ended u) (finish r b)
                  (policy_op (c_stats c)) of
             Inl e \<Rightarrow> (Inl e, c)
           | Inr ops \<Rightarrow> (Inr (), update_stats (\<lambda>s. s\<lparr>policy_op := ops\<rparr>) c)))"

definition fallback :: "config \<Rightarrow> decision" where
  "fallback cfg = \<lparr>verdict = (if fail_open cfg then Continue else Tempfail), modifications = []\<rparr>"

text \<open>The policy's answer applied to the session, as a value: a failure does not end the turn.\<close>

definition evaluate_and_complete ::
  "'e policy \<Rightarrow> config \<Rightarrow> 'e turn \<Rightarrow> stage \<Rightarrow> 'f conn_state \<Rightarrow>
   frame list result \<times> 'f conn_state" where
  "evaluate_and_complete pol cfg u stage =
     bind_s (if stage \<in> set (pol_stages pol) then evaluate_with_progress pol cfg u stage
             else return_s default_decision) complete_conn"

definition callback ::
  "'f float_ops \<Rightarrow> 'e policy \<Rightarrow> config \<Rightarrow> 'e turn \<Rightarrow> stage \<Rightarrow> 'f conn_state \<Rightarrow>
   frame list result \<times> 'f conn_state" where
  "callback fl pol cfg u stage c =
     (let c1 = (if stage = StEndMessage
                then update_stats (\<lambda>s. s\<lparr>messages := messages s + 1\<rparr>) c else c);
          (obs, c2) =
            (if stage \<in> set (pol_stages pol)
             then (case op_begin (begun u) (policy_op (c_stats c1)) of
                     (b, ops) \<Rightarrow> (Some b, update_stats (\<lambda>s. s\<lparr>policy_op := ops\<rparr>) c1))
             else (None, c1));
          (r, c3) = evaluate_and_complete pol cfg u stage c2 in
      bind_s (finish_observation fl u obs r) (\<lambda>_.
        (case r of
           Inr replies \<Rightarrow> return_s replies
         | Inl e \<Rightarrow>
             bind_s (modify_s (update_stats (\<lambda>s. s\<lparr>policy_errors := policy_errors s + 1\<rparr>)))
               (\<lambda>_. complete_conn (fallback cfg)))) c3)"

section \<open>The loop\<close>

definition receive_conn :: "frame \<Rightarrow> 'f conn_state \<Rightarrow> step result \<times> 'f conn_state" where
  "receive_conn f c = (case receive f (c_session c) of (r, s) \<Rightarrow> (r, c\<lparr>c_session := s\<rparr>))"

text \<open>What the loop does with a frame: \<open>Some ()\<close> when it returns.\<close>

definition serve_frame ::
  "'f float_ops \<Rightarrow> 'e policy \<Rightarrow> config \<Rightarrow> 'e turn \<Rightarrow> frame \<Rightarrow> 'f conn_state \<Rightarrow>
   unit option result \<times> 'f conn_state" where
  "serve_frame fl pol cfg u f =
     bind_s (receive_conn f) (\<lambda>stp.
     bind_s (case event stp of
               None \<Rightarrow> return_s []
             | Some stage \<Rightarrow> callback fl pol cfg u stage) (\<lambda>replies.
     bind_s (send (write_socket u) (step_frames stp @ replies)) (\<lambda>_.
       return_s (if close stp then Some () else None))))"

definition read_conn :: "config \<Rightarrow> 'e turn \<Rightarrow> 'f conn_state \<Rightarrow> frame option result \<times> 'f conn_state" where
  "read_conn cfg u c =
     (case read_next_frame cfg u (c_in c) of (r, rest) \<Rightarrow> (r, c\<lparr>c_in := rest\<rparr>))"

definition connection_turn ::
  "'f float_ops \<Rightarrow> 'e policy \<Rightarrow> config \<Rightarrow> 'e turn \<Rightarrow> 'f conn_state \<Rightarrow>
   unit option result \<times> 'f conn_state" where
  "connection_turn fl pol cfg u =
     (if stop_wins u then return_s (Some ())
      else bind_s (read_conn cfg u) (\<lambda>fr.
        (case fr of
           None \<Rightarrow> return_s (Some ())
         | Some f \<Rightarrow> serve_frame fl pol cfg u f)))"

text \<open>\<open>None\<close>: the connection is still open after the given turns.\<close>

fun connection_loop ::
  "'f float_ops \<Rightarrow> 'e policy \<Rightarrow> config \<Rightarrow> 'e turn list \<Rightarrow> 'f conn_state \<Rightarrow>
   unit result option \<times> 'f conn_state" where
  "connection_loop fl pol cfg [] c = (None, c)"
| "connection_loop fl pol cfg (u # us) c =
     (case connection_turn fl pol cfg u c of
        (Inl e, c') \<Rightarrow> (Some (Inl e), c')
      | (Inr (Some x), c') \<Rightarrow> (Some (Inr x), c')
      | (Inr None, c') \<Rightarrow> connection_loop fl pol cfg us c')"

definition connection_start :: "'e policy \<Rightarrow> config \<Rightarrow> bytes \<Rightarrow> 'f stats \<Rightarrow> 'f conn_state" where
  "connection_start pol cfg input st =
     \<lparr>c_in = input, c_out = [],
      c_session = request_macros (pol_macros pol)
        (session_new (cfg_limits cfg) (pol_stages pol) (pol_actions pol)),
      c_stats = st\<rparr>"

definition handle_connection ::
  "'f float_ops \<Rightarrow> 'e policy \<Rightarrow> config \<Rightarrow> 'e turn list \<Rightarrow> bytes \<Rightarrow> 'f stats \<Rightarrow>
   unit result option \<times> 'f conn_state" where
  "handle_connection fl pol cfg us input st =
     connection_loop fl pol cfg us (connection_start pol cfg input st)"

end
