(* ===== verification/Server_Inv.thy ===== *)
theory Server_Inv
  imports Server "HOL-Library.Sublist"
begin

text \<open>
  Properties of the connection driver: every callback is answered (by the policy's decision or
  by the configured fallback), every run ends after at most one turn per input byte, no run
  panics, and a pass-through policy puts nothing but negotiation and CONTINUE frames on the wire.
\<close>

section \<open>The connection invariant\<close>

definition conn_inv :: "'e policy \<Rightarrow> config \<Rightarrow> 'f conn_state \<Rightarrow> bool" where
  "conn_inv pol cfg c \<longleftrightarrow> session_inv (c_session c) \<and>
     limits (c_session c) = cfg_limits cfg \<and> stages (c_session c) = pol_stages pol \<and>
     wanted_actions (c_session c) = pol_actions pol AND SUPPORTED_ACTIONS \<and>
     macro_lists (c_session c) = pol_macros pol \<and> stats_shape (c_stats c)"

lemma connection_start_inv: "stats_shape st \<Longrightarrow> conn_inv pol cfg (connection_start pol cfg input st)"
  using session_start_inv [OF session_start.start]
  by (auto simp: conn_inv_def connection_start_def request_macros_def session_new_def)

section \<open>A callback is always answered\<close>

text \<open>Keepalives write PROGRESS frames and count them; nothing else changes.\<close>

definition progress_bytes :: bytes where
  "progress_bytes = to_be_bytes 1 @ [PROGRESS]"

lemma encode_progress: "encode_frame (empty_frame PROGRESS) = Inr progress_bytes"
  by (simp add: encode_frame_iff progress_bytes_def empty_frame_def)

fun tick_failure :: "socket list \<Rightarrow> error option" where
  "tick_failure [] = None"
| "tick_failure (None # ts) = tick_failure ts"
| "tick_failure (Some (n, e) # ts) = (if n < 5 then Some e else tick_failure ts)"

lemma keepalive_result:
  "\<exists>out st. keepalive ts c =
     (case tick_failure ts of None \<Rightarrow> Inr () | Some e \<Rightarrow> Inl e, c\<lparr>c_out := out, c_stats := st\<rparr>) \<and>
     (stats_shape (c_stats c) \<longrightarrow> stats_shape st) \<and> policy_op st = policy_op (c_stats c) \<and>
     (tick_failure ts = None \<longrightarrow>
        out = c_out c @ concat (replicate (length ts) progress_bytes) \<and>
        st = (c_stats c)\<lparr>progress := progress (c_stats c) + of_nat (length ts)\<rparr>)"
proof (induction ts arbitrary: c rule: tick_failure.induct)
  case 1
  show ?case by (intro exI [of _ "c_out c"] exI [of _ "c_stats c"]) simp
next
  case (2 ts)
  let ?c = "(update_stats (\<lambda>s. s\<lparr>progress := progress s + 1\<rparr>) c)\<lparr>c_out := c_out c @ progress_bytes\<rparr>"
  have "keepalive (None # ts) c = keepalive ts ?c"
    by (simp add: bind_s.simps modify_s_def send_def encode_progress update_stats_def)
  with 2 [of ?c] show ?case by (auto simp: update_stats_def add.assoc)
next
  case (3 n e ts)
  let ?c = "(update_stats (\<lambda>s. s\<lparr>progress := progress s + 1\<rparr>) c)\<lparr>c_out := c_out c @ progress_bytes\<rparr>"
  show ?case
  proof (cases "n < 5")
    case True
    then have "keepalive (Some (n, e) # ts) c =
        (Inl e, (update_stats (\<lambda>s. s\<lparr>progress := progress s + 1\<rparr>) c)\<lparr>c_out := c_out c @ take n progress_bytes\<rparr>)"
      by (simp add: bind_s.simps modify_s_def send_def encode_progress update_stats_def progress_bytes_def)
    with True show ?thesis
      by (intro exI [of _ "c_out c @ take n progress_bytes"]
          exI [of _ "(c_stats c)\<lparr>progress := progress (c_stats c) + 1\<rparr>"]) (simp add: update_stats_def)
  next
    case False
    then have "keepalive (Some (n, e) # ts) c = keepalive ts ?c"
      by (simp add: bind_s.simps modify_s_def send_def encode_progress update_stats_def progress_bytes_def)
    with False 3 [of ?c] show ?thesis by (auto simp: update_stats_def add.assoc)
  qed
qed

text \<open>The policy's answer as the driver sees it, and the decision that is finally applied.\<close>

definition policy_result :: "'e policy \<Rightarrow> config \<Rightarrow> 'e turn \<Rightarrow> stage \<Rightarrow> session \<Rightarrow> decision result" where
  "policy_result pol cfg u stage s =
     (if stage \<notin> set (pol_stages pol) then Inr default_decision
      else (case (if progress_interval cfg = None then None else tick_failure (ticks u)) of
        Some e \<Rightarrow> Inl e
      | None \<Rightarrow> if deadline_hit u then Inl Timeout else pol_evaluate pol (outside u) stage s))"

definition final_decision :: "config \<Rightarrow> session \<Rightarrow> decision result \<Rightarrow> decision" where
  "final_decision cfg s r =
     (case r of
        Inl e \<Rightarrow> fallback cfg
      | Inr d \<Rightarrow> if is_ok (fst (complete d s)) then d else fallback cfg)"

lemma evaluate_and_complete_result:
  assumes s: "c_session c = s"
  shows "\<exists>out st. evaluate_and_complete pol cfg u stage c =
     (case policy_result pol cfg u stage s of
        Inl e \<Rightarrow> (Inl e, c\<lparr>c_out := out, c_stats := st\<rparr>)
      | Inr d \<Rightarrow> (fst (complete d s),
          c\<lparr>c_out := out, c_stats := st, c_session := snd (complete d s)\<rparr>)) \<and>
     (stats_shape (c_stats c) \<longrightarrow> stats_shape st) \<and> policy_op st = policy_op (c_stats c)"
proof (cases "stage \<in> set (pol_stages pol)")
  case False
  then show ?thesis
    by (intro exI [of _ "c_out c"] exI [of _ "c_stats c"])
      (auto simp: s evaluate_and_complete_def policy_result_def return_s_def complete_conn_def
        bind_s.simps split: prod.splits)
next
  case True
  let ?ts = "if progress_interval cfg = None then [] else ticks u"
  have tf: "tick_failure ?ts = (if progress_interval cfg = None then None else tick_failure (ticks u))"
    by simp
  obtain out st where k: "keepalive ?ts c =
      (case tick_failure ?ts of None \<Rightarrow> Inr () | Some e \<Rightarrow> Inl e, c\<lparr>c_out := out, c_stats := st\<rparr>)"
    and sh: "stats_shape (c_stats c) \<longrightarrow> stats_shape st" "policy_op st = policy_op (c_stats c)"
    using keepalive_result [of ?ts c] by blast
  show ?thesis
    by (intro exI [of _ out] exI [of _ st] conjI sh)
      (use True k in \<open>auto simp: s evaluate_and_complete_def evaluate_with_progress_def policy_result_def
        tf [symmetric] check_s_def complete_conn_def bind_s.simps simp del: keepalive.simps
        split: prod.splits option.splits sum.splits\<close>)
qed

lemma finish_outcome_ok: "no_panic r \<Longrightarrow> outcome (finish r obs) \<in> insert ''success'' (set FAILURE_KINDS)"
  using finish_outcome by (cases r) (auto simp: finish_def result_err_def)

lemma finish_observation_ok:
  assumes "no_panic r"
  shows "\<exists>st. finish_observation fl u obs r c = (Inr (), c\<lparr>c_stats := st\<rparr>) \<and>
    (stats_shape (c_stats c) \<longrightarrow> stats_shape st)"
proof (cases obs)
  case None
  then show ?thesis by (intro exI [of _ "c_stats c"]) (simp add: finish_observation_def)
next
  case (Some b)
  obtain ops where "op_drop (f64_add fl) (as_secs_f64 fl) (ended u) (finish r b)
      (policy_op (c_stats c)) = Inr ops" "op_shape (policy_op (c_stats c)) \<longrightarrow> op_shape ops"
    using op_drop_ok [OF finish_outcome_ok [OF assms]] by blast
  with Some show ?thesis
    by (intro exI [of _ "(c_stats c)\<lparr>policy_op := ops\<rparr>"])
      (auto simp: finish_observation_def update_stats_def)
qed

definition observed :: "'e policy \<Rightarrow> 'e turn \<Rightarrow> stage \<Rightarrow> 'f conn_state \<Rightarrow> observation option \<times> 'f conn_state" where
  "observed pol u stage c =
     (let c1 = (if stage = StEndMessage
                then update_stats (\<lambda>s. s\<lparr>messages := messages s + 1\<rparr>) c else c) in
      if stage \<in> set (pol_stages pol)
      then (case op_begin (begun u) (policy_op (c_stats c1)) of
              (b, ops) \<Rightarrow> (Some b, update_stats (\<lambda>s. s\<lparr>policy_op := ops\<rparr>) c1))
      else (None, c1))"

lemma callback_eq:
  "callback fl pol cfg u stage c =
     (case observed pol u stage c of (obs, c2) \<Rightarrow>
      case evaluate_and_complete pol cfg u stage c2 of (r, c3) \<Rightarrow>
      bind_s (finish_observation fl u obs r) (\<lambda>_.
        (case r of
           Inr replies \<Rightarrow> return_s replies
         | Inl e \<Rightarrow>
             bind_s (modify_s (update_stats (\<lambda>s. s\<lparr>policy_errors := policy_errors s + 1\<rparr>)))
               (\<lambda>_. complete_conn (fallback cfg)))) c3)"
  by (simp add: callback_def observed_def Let_def)

lemma observed_result:
  "\<exists>obs st. observed pol u stage c = (obs, c\<lparr>c_stats := st\<rparr>) \<and>
     (stats_shape (c_stats c) \<longrightarrow> stats_shape st)"
  by (auto simp: observed_def update_stats_def op_begin_def Let_def op_shape_def stats_shape_def operations_def
      intro: exI [of _ "c_stats c"])

lemma fallback_plain:
  "modifications (fallback cfg) = []" "verdict (fallback cfg) \<noteq> Reply c e m"
  "verdict_opcode (verdict (fallback cfg)) = (if fail_open cfg then CHR ''c'' else CHR ''t'')"
  by (simp_all add: fallback_def)

lemma callback_of_result:
  assumes "observed pol u stage c = (obs, c2)"
    and "evaluate_and_complete pol cfg u stage c2 = (r, c3)"
    and "no_panic r" and "stats_shape (c_stats c3)"
  shows "\<exists>st. stats_shape st \<and> callback fl pol cfg u stage c =
    (case r of Inr replies \<Rightarrow> (Inr replies, c3\<lparr>c_stats := st\<rparr>)
     | Inl e \<Rightarrow> complete_conn (fallback cfg) (c3\<lparr>c_stats := st\<rparr>))"
proof -
  obtain st where f: "finish_observation fl u obs r c3 = (Inr (), c3\<lparr>c_stats := st\<rparr>)"
    and sh: "stats_shape st"
    using finish_observation_ok [OF assms(3)] assms(4) by blast
  show ?thesis
  proof (cases r)
    case (Inr replies)
    with f sh assms show ?thesis
      by (intro exI [of _ st]) (simp add: callback_eq return_s_def)
  next
    case (Inl e)
    with f sh assms show ?thesis
      by (intro exI [of _ "st\<lparr>policy_errors := policy_errors st + 1\<rparr>"])
        (simp add: callback_eq bind_s.simps modify_s_def update_stats_def)
  qed
qed

lemma complete_fallback:
  assumes "conn_inv pol cfg c" and "pending (c_session c) = Some stage"
    and "1 \<le> lim_frame_bytes (cfg_limits cfg)"
  shows "\<exists>t. complete (fallback cfg) (c_session c) =
    (Inr [empty_frame (if fail_open cfg then CHR ''c'' else CHR ''t'')], t)"
  using complete_plain [of "c_session c" stage "fallback cfg"] assms fallback_plain [of cfg]
  by (auto simp: conn_inv_def)

lemma complete_conn_inv:
  assumes "conn_inv pol cfg c" and "complete d (c_session c) = (Inr fs, c_session c')"
    and "stats_shape (c_stats c')"
  shows "conn_inv pol cfg c'"
  using complete_keeps [OF assms(2)] complete_inv [OF _ assms(2)] assms(1,3)
  by (simp add: conn_inv_def)

lemma callback_answer:
  assumes inv: "conn_inv pol cfg c" and p: "pending (c_session c) = Some stage"
    and lim: "1 \<le> lim_frame_bytes (cfg_limits cfg)"
    and np: "no_panic (policy_result pol cfg u stage (c_session c))"
  shows "\<exists>replies c'. callback fl pol cfg u stage c = (Inr replies, c') \<and>
    complete (final_decision cfg (c_session c) (policy_result pol cfg u stage (c_session c)))
      (c_session c) = (Inr replies, c_session c') \<and>
    conn_inv pol cfg c' \<and> c_in c' = c_in c"
proof -
  let ?s = "c_session c" and ?r = "policy_result pol cfg u stage (c_session c)"
  obtain obs st1 where o: "observed pol u stage c = (obs, c\<lparr>c_stats := st1\<rparr>)" and "stats_shape st1"
    using observed_result [of pol u stage c] inv by (auto simp: conn_inv_def)
  then obtain out st2 where sh: "stats_shape st2" and raw:
    "evaluate_and_complete pol cfg u stage (c\<lparr>c_stats := st1\<rparr>) =
      (case ?r of
         Inl e \<Rightarrow> (Inl e, c\<lparr>c_stats := st1\<rparr>\<lparr>c_out := out, c_stats := st2\<rparr>)
       | Inr d \<Rightarrow> (fst (complete d ?s), c\<lparr>c_stats := st1\<rparr>
           \<lparr>c_out := out, c_stats := st2, c_session := snd (complete d ?s)\<rparr>))"
    using evaluate_and_complete_result [of "c\<lparr>c_stats := st1\<rparr>" ?s pol cfg u stage] by auto
  obtain fb t where fb: "complete (fallback cfg) ?s = (Inr fb, t)"
    using complete_fallback [OF inv p lim] by blast
  have done': ?thesis if "callback fl pol cfg u stage c = (Inr fs, c')" "stats_shape (c_stats c')"
    "c_in c' = c_in c"
    "complete (final_decision cfg ?s ?r) ?s = (Inr fs, c_session c')" for fs c'
    using that complete_conn_inv [OF inv that(4,2)] by blast
  have refused: ?thesis if e: "no_panic (Inl e :: frame list result)"
    and ev: "evaluate_and_complete pol cfg u stage (c\<lparr>c_stats := st1\<rparr>) =
      (Inl e, c\<lparr>c_out := out, c_stats := st2\<rparr>)"
    and fd: "final_decision cfg ?s ?r = fallback cfg" for e
  proof -
    obtain st where "stats_shape st" "callback fl pol cfg u stage c =
        complete_conn (fallback cfg) (c\<lparr>c_out := out, c_stats := st\<rparr>)"
      using callback_of_result [OF o ev e, of fl] sh by auto
    with fb fd show ?thesis
      by (intro done' [of fb "c\<lparr>c_out := out, c_stats := st, c_session := t\<rparr>"])
        (simp_all add: complete_conn_def)
  qed
  show ?thesis
  proof (cases ?r)
    case (Inl e)
    with np raw show ?thesis by (intro refused [of e]) (auto simp: final_decision_def)
  next
    case (Inr d)
    obtain rd td where cd: "complete d ?s = (rd, td)" by fastforce
    have npd: "no_panic rd" using complete_no_panic [OF _ cd] inv by (simp add: conn_inv_def)
    show ?thesis
    proof (cases rd)
      case e: (Inl e)
      then have "td = ?s" using complete_error_unchanged [of d ?s e td] cd by simp
      with raw Inr cd e npd show ?thesis by (intro refused [of e]) (auto simp: final_decision_def)
    next
      case r: (Inr fs)
      have ev: "evaluate_and_complete pol cfg u stage (c\<lparr>c_stats := st1\<rparr>) =
          (rd, c\<lparr>c_out := out, c_stats := st2, c_session := td\<rparr>)"
        using raw Inr cd by simp
      obtain st where "stats_shape st" "callback fl pol cfg u stage c =
          (Inr fs, c\<lparr>c_out := out, c_session := td, c_stats := st\<rparr>)"
        using callback_of_result [OF o ev npd, of fl] sh r by auto
      with cd r Inr show ?thesis
        by (intro done' [of fs "c\<lparr>c_out := out, c_session := td, c_stats := st\<rparr>"])
          (simp_all add: final_decision_def)
    qed
  qed
qed

section \<open>Every run of the loop ends\<close>

lemma callback_in: "c_in (snd (callback fl pol cfg u stage c)) = c_in c"
proof -
  obtain obs st1 where o: "observed pol u stage c = (obs, c\<lparr>c_stats := st1\<rparr>)"
    using observed_result by blast
  obtain r c3 where ev: "evaluate_and_complete pol cfg u stage (c\<lparr>c_stats := st1\<rparr>) = (r, c3)"
    by fastforce
  have "c_in c3 = c_in c"
    using evaluate_and_complete_result [OF refl, of pol cfg u stage "c\<lparr>c_stats := st1\<rparr>"] ev
    by (cases "policy_result pol cfg u stage (c_session c)") auto
  moreover have "c_in (snd (finish_observation fl u obs r c3)) = c_in c3"
    by (auto simp: finish_observation_def update_stats_def split: option.splits sum.splits)
  ultimately show ?thesis using o ev
    by (auto simp: callback_eq bind_s.simps return_s_def modify_s_def update_stats_def
        complete_conn_def split: prod.splits sum.splits)
qed

lemma read_next_frame_consumes:
  "read_next_frame cfg u r = (Inr (Some f), rest) \<Longrightarrow> length rest < length r"
  by (cases r)
    (auto simp: read_next_frame_def result_simps read_frame_after_start_iff encode_frame_iff
      dest!: arg_cong [where f = length] split: if_splits option.splits)

lemma send_keeps:
  "send sock fs c = (r, c') \<Longrightarrow>
   c_in c' = c_in c \<and> c_session c' = c_session c \<and> c_stats c' = c_stats c"
  by (auto simp: send_def split: prod.splits)

lemma serve_frame_in:
  assumes "serve_frame fl pol cfg u f c = (r, c')"
  shows "c_in c' = c_in c"
proof -
  obtain r1 s1 where rc: "receive f (c_session c) = (r1, s1)" by fastforce
  show ?thesis
  proof (cases r1)
    case (Inl e)
    with assms rc show ?thesis by (auto simp: serve_frame_def receive_conn_def)
  next
    case (Inr stp)
    let ?c1 = "c\<lparr>c_session := s1\<rparr>"
    obtain r2 c2 where cb: "(case event stp of None \<Rightarrow> return_s []
        | Some stage \<Rightarrow> callback fl pol cfg u stage) ?c1 = (r2, c2)" by fastforce
    then have "c_in c2 = c_in c"
      using callback_in [of fl pol cfg u _ ?c1]
      by (auto simp: return_s_def split: option.splits dest!: arg_cong [where f = snd])
    with assms rc Inr cb show ?thesis
      by (auto dest!: send_keeps simp: serve_frame_def receive_conn_def bind_s.simps [where m = "send _ _"] return_s_def
          bind_s.simps [where s = ?c1] split: prod.splits sum.splits)
  qed
qed

lemma connection_turn_consumes:
  assumes "connection_turn fl pol cfg u c = (Inr None, c')"
  shows "length (c_in c') < length (c_in c)"
proof -
  from assms obtain f rest where
    "read_next_frame cfg u (c_in c) = (Inr (Some f), rest)"
    "serve_frame fl pol cfg u f (c\<lparr>c_in := rest\<rparr>) = (Inr None, c')"
    by (auto simp: connection_turn_def read_conn_def return_s_def bind_s.simps
        split: if_splits prod.splits sum.splits option.splits)
  then show ?thesis using serve_frame_in read_next_frame_consumes by fastforce
qed

lemma connection_loop_returns:
  "length (c_in c) < length us \<Longrightarrow> fst (connection_loop fl pol cfg us c) \<noteq> None"
proof (induction us arbitrary: c)
  case (Cons u us)
  then show ?case
    by (auto dest!: connection_turn_consumes split: prod.splits sum.splits option.splits)
qed simp

section \<open>No run panics\<close>

definition conn_ready :: "'e policy \<Rightarrow> config \<Rightarrow> 'f conn_state \<Rightarrow> bool" where
  "conn_ready pol cfg c \<longleftrightarrow> conn_inv pol cfg c \<and> pending (c_session c) = None"

text \<open>The outside world reports errors, it does not panic.\<close>

definition turn_sane :: "'e policy \<Rightarrow> 'e turn \<Rightarrow> bool" where
  "turn_sane pol u \<longleftrightarrow>
     (\<forall>stage s. no_panic (pol_evaluate pol (outside u) stage s)) \<and>
     (\<forall>m. tick_failure (ticks u) \<noteq> Some (Panic m)) \<and>
     (\<forall>n m. write_socket u \<noteq> Some (n, Panic m)) \<and> (\<forall>m. frame_fault u \<noteq> Some (Panic m))"

lemma policy_result_sane: "turn_sane pol u \<Longrightarrow> no_panic (policy_result pol cfg u stage s)"
  by (auto simp: policy_result_def turn_sane_def split: option.splits)

lemma receive_event:
  assumes "session_inv s" and "receive f s = (Inr stp, t)"
  shows "pending t = event stp"
  using assms(2)
proof (cases rule: receive_Inr)
  case negotiate
  then show ?thesis by (auto simp: receive_negotiate_iff Let_def empty_step_def)
next
  case macro
  then show ?thesis by (auto simp: receive_macro_def result_simps empty_step_def)
next
  case (other c)
  from receive_command_answers [OF other(7) assms(1) other(2,5,6)] show ?thesis
    by (simp add: answers_def)
qed

lemma write_frames_error:
  "write_frames sock fs out = (Inl e, out') \<Longrightarrow>
   e = Limit ''frame'' \<or> (\<exists>n. sock = Some (n, e))"
proof (induction sock fs out rule: write_frames.induct)
  case (2 sock f fs out)
  then show ?case
    by (cases "encode_frame f") (fastforce simp: encode_frame_error split: option.splits if_splits)+
qed simp

lemma send_no_panic:
  assumes "send sock fs c = (r, c')" and "\<And>n m. sock \<noteq> Some (n, Panic m)"
  shows "no_panic r"
proof (cases r)
  case (Inl e)
  then obtain out where "write_frames sock fs (c_out c) = (Inl e, out)"
    using assms(1) by (auto simp: send_def split: prod.splits)
  from write_frames_error [OF this] assms(2) Inl show ?thesis by auto
qed simp

lemma read_next_frame_no_panic:
  assumes "turn_sane pol u" and "read_next_frame cfg u r = (x, rest)"
  shows "no_panic x"
proof -
  have "no_panic (fst (read_exact n r'))" for n r' by (simp add: read_exact_def)
  then have rfa: "no_panic (fst (read_frame_after_start b mx r'))" for b mx r'
    by (auto simp: read_frame_after_start_def bind_s.simps state_defs Let_def no_panic_def
        split: prod.splits sum.splits)
      (metis fst_conv)+
  show ?thesis
  proof (cases r)
    case Nil
    with assms show ?thesis
      by (auto simp: read_next_frame_def split: if_splits option.splits)
  next
    case (Cons b r')
    with assms rfa [of b "lim_frame_bytes (cfg_limits cfg)" r'] show ?thesis
      by (auto simp: read_next_frame_def turn_sane_def bind_s.simps return_s_def
          split: if_splits option.splits prod.splits sum.splits)
  qed
qed

lemma serve_frame_inv:
  assumes inv: "conn_ready pol cfg c" and sane: "turn_sane pol u"
    and lim: "1 \<le> lim_frame_bytes (cfg_limits cfg)"
    and r: "serve_frame fl pol cfg u f c = (r, c')"
  shows "no_panic r \<and> (r = Inr None \<longrightarrow> conn_ready pol cfg c')"
proof -
  let ?s = "c_session c"
  have sinv: "session_inv ?s" using inv by (simp add: conn_ready_def conn_inv_def)
  obtain r1 t where rc: "receive f ?s = (r1, t)" by fastforce
  show ?thesis
  proof (cases r1)
    case (Inl e)
    with rc receive_no_panic [OF sinv, of f] r show ?thesis
      by (auto simp: serve_frame_def receive_conn_def)
  next
    case (Inr stp)
    let ?c1 = "c\<lparr>c_session := t\<rparr>"
    have c1: "conn_inv pol cfg ?c1"
      using receive_keeps [of f ?s stp t] receive_inv [OF sinv, of f stp t] rc Inr inv
      by (auto simp: conn_ready_def conn_inv_def)
    have pend: "pending t = event stp" using receive_event [OF sinv] rc Inr by blast
    obtain replies c2 where cb: "(case event stp of None \<Rightarrow> return_s []
        | Some stage \<Rightarrow> callback fl pol cfg u stage) ?c1 = (Inr replies, c2)"
      and c2: "conn_ready pol cfg c2"
    proof (cases "event stp")
      case None
      with that c1 pend show ?thesis by (simp add: return_s_def conn_ready_def)
    next
      case (Some stage)
      with pend obtain replies c2 where "callback fl pol cfg u stage ?c1 = (Inr replies, c2)"
        and inv2: "conn_inv pol cfg c2"
        and cm: "complete (final_decision cfg t (policy_result pol cfg u stage t)) t = (Inr replies, c_session c2)"
        using callback_answer [OF c1 _ lim policy_result_sane [OF sane], of stage fl] by auto
      moreover have "pending (c_session c2) = None"
        using complete_answer [OF _ cm] pend Some c1 by (simp add: conn_inv_def)
      ultimately show ?thesis using that Some by (simp add: conn_ready_def)
    qed
    obtain r3 c3 where sd: "send (write_socket u) (step_frames stp @ replies) c2 = (r3, c3)" by fastforce
    have "no_panic r3" by (rule send_no_panic [OF sd]) (use sane in \<open>simp add: turn_sane_def\<close>)
    moreover have "conn_ready pol cfg c3"
      using send_keeps [OF sd] c2 by (simp add: conn_ready_def conn_inv_def)
    moreover have "(r, c') = bind_s (send (write_socket u) (step_frames stp @ replies))
        (\<lambda>_. return_s (if close stp then Some () else None)) c2"
      using r rc Inr cb by (simp add: serve_frame_def receive_conn_def)
    ultimately show ?thesis using sd by (cases r3) (auto simp: return_s_def bind_s.simps)
  qed
qed

lemma connection_turn_inv:
  assumes "conn_ready pol cfg c" and "turn_sane pol u" and "1 \<le> lim_frame_bytes (cfg_limits cfg)"
    and "connection_turn fl pol cfg u c = (r, c')"
  shows "no_panic r \<and> (r = Inr None \<longrightarrow> conn_ready pol cfg c')"
proof -
  obtain x rest where rd: "read_next_frame cfg u (c_in c) = (x, rest)" by fastforce
  have x: "no_panic x" using read_next_frame_no_panic [OF assms(2) rd] .
  have c1: "conn_ready pol cfg (c\<lparr>c_in := rest\<rparr>)"
    using assms(1) by (simp add: conn_ready_def conn_inv_def)
  consider "stop_wins u \<or> x = Inr None" | e where "\<not> stop_wins u" "x = Inl e"
    | f where "\<not> stop_wins u" "x = Inr (Some f)" by (cases x; cases "stop_wins u") (auto simp: not_Some_eq)
  then show ?thesis
  proof cases
    case 3
    then have "serve_frame fl pol cfg u f (c\<lparr>c_in := rest\<rparr>) = (r, c')"
      using assms(4) rd by (simp add: connection_turn_def read_conn_def bind_s.simps)
    then show ?thesis by (rule serve_frame_inv [OF c1 assms(2,3)])
  qed (use assms(4) rd x in \<open>auto simp: connection_turn_def read_conn_def return_s_def bind_s.simps split: if_splits\<close>)
qed

lemma connection_loop_no_panic:
  assumes "conn_ready pol cfg c" and "\<And>u. u \<in> set us \<Longrightarrow> turn_sane pol u"
    and "1 \<le> lim_frame_bytes (cfg_limits cfg)"
    and "connection_loop fl pol cfg us c = (Some r, c')"
  shows "no_panic r"
  using assms
proof (induction us arbitrary: c)
  case (Cons u us)
  obtain r1 c1 where t: "connection_turn fl pol cfg u c = (r1, c1)" by fastforce
  have "no_panic r1 \<and> (r1 = Inr None \<longrightarrow> conn_ready pol cfg c1)"
    using connection_turn_inv [OF Cons.prems(1) _ Cons.prems(3) t] Cons.prems(2) by simp
  with Cons t show ?case by (auto split: sum.splits option.splits)
qed simp

section \<open>What reaches the wire\<close>

definition wire :: "frame list \<Rightarrow> bytes" where
  "wire fs = concat (map (\<lambda>f. case encode_frame f of Inl e \<Rightarrow> [] | Inr bs \<Rightarrow> bs) fs)"

lemma wire_simps [simp]: "wire [] = []" "wire (fs @ gs) = wire fs @ wire gs"
  by (simp_all add: wire_def)

lemma write_frames_prefix:
  "write_frames sock fs out = (r, out') \<Longrightarrow>
   \<exists>w. prefix w (wire fs) \<and> out' = out @ w \<and> (r = Inr () \<longrightarrow> w = wire fs)"
proof (induction sock fs out rule: write_frames.induct)
  case (2 sock f fs out)
  show ?case
  proof (cases "encode_frame f")
    case (Inl e)
    with 2 show ?thesis by auto
  next
    case (Inr bs)
    have wf: "wire (f # fs) = bs @ wire fs" by (simp add: wire_def Inr)
    show ?thesis
    proof (cases "\<exists>n e. sock = Some (n, e) \<and> n < length bs")
      case True
      with "2.prems" Inr have "r \<noteq> Inr ()" and "\<exists>n. out' = out @ take n bs" by auto
      then show ?thesis using wf by (auto simp: take_is_prefix prefix_append)
    next
      case False
      have "\<exists>w. prefix w (wire fs) \<and> out' = (out @ bs) @ w \<and> (r = Inr () \<longrightarrow> w = wire fs)"
        using 2 Inr False by (cases sock) (auto simp: not_less)
      then obtain w where "prefix w (wire fs)" "out' = out @ (bs @ w)" "r = Inr () \<longrightarrow> w = wire fs"
        by auto
      then show ?thesis using wf by (intro exI [of _ "bs @ w"]) simp
    qed
  qed
qed simp

definition plain_frames :: "frame list \<Rightarrow> bool" where
  "plain_frames fs \<longleftrightarrow> (\<forall>f \<in> set fs. frame.command f \<in> {CHR ''O'', CHR ''c''})"

lemma plain_frames_simps [simp]:
  "plain_frames []" "plain_frames (fs @ gs) \<longleftrightarrow> plain_frames fs \<and> plain_frames gs"
  "plain_frames [empty_frame (CHR ''c'')]"
  by (auto simp: plain_frames_def empty_frame_def)

lemma frame_with_macros_command:
  "frame_with_macros o' ml = Inr f \<Longrightarrow> frame.command f = CHR ''O''"
  by (auto simp: frame_with_macros_def Let_def options_frame_def result_simps split: if_splits)

lemma receive_plain:
  assumes "session_inv s" and "receive f s = (Inr stp, t)"
  shows "plain_frames (step_frames stp)"
  using assms(2)
proof (cases rule: receive_Inr)
  case negotiate
  then show ?thesis
    by (auto simp: receive_negotiate_iff Let_def empty_step_def plain_frames_def
        dest: frame_with_macros_command)
next
  case macro
  then show ?thesis by (auto simp: receive_macro_def result_simps empty_step_def)
next
  case (other c)
  from receive_command_answers [OF other(7) assms(1) other(2,5,6)] show ?thesis
    by (auto simp: answers_def quiet_reply_def split: option.splits)
qed

lemma callback_unsubscribed:
  assumes "stage \<notin> set (pol_stages pol)" and "complete default_decision (c_session c) = (Inr fs, t)"
  shows "\<exists>st. callback fl pol cfg u stage c = (Inr fs, c\<lparr>c_stats := st, c_session := t\<rparr>)"
  using assms
  by (auto simp: callback_eq observed_def Let_def update_stats_def evaluate_and_complete_def
      return_s_def complete_conn_def finish_observation_def bind_s.simps
      intro: exI [of _ "c_stats c"])

lemma passthrough_callback:
  fixes u :: "'e turn"
  assumes "conn_inv (passthrough :: 'e policy) cfg c" and "pending (c_session c) = Some stage"
    and "1 \<le> lim_frame_bytes (cfg_limits cfg)"
  shows "\<exists>c'. callback fl passthrough cfg u stage c = (Inr [empty_frame (CHR ''c'')], c') \<and>
    c_out c' = c_out c"
proof -
  obtain t where "complete default_decision (c_session c) = (Inr [empty_frame (CHR ''c'')], t)"
    using complete_plain [of "c_session c" stage default_decision] assms
    by (auto simp: conn_inv_def default_decision_def)
  then show ?thesis
    using callback_unsubscribed [of stage passthrough c _ t fl cfg u]
    by (auto simp: passthrough_def)
qed

lemma passthrough_frame_output:
  fixes u :: "'e turn"
  assumes inv: "conn_ready (passthrough :: 'e policy) cfg c" and lim: "1 \<le> lim_frame_bytes (cfg_limits cfg)"
    and r: "serve_frame fl passthrough cfg u f c = (r, c')"
  shows "\<exists>fs w. plain_frames fs \<and> prefix w (wire fs) \<and> c_out c' = c_out c @ w \<and>
    (is_ok r \<longrightarrow> w = wire fs)"
proof -
  let ?s = "c_session c"
  have sinv: "session_inv ?s" using inv by (simp add: conn_ready_def conn_inv_def)
  obtain r1 t where rc: "receive f ?s = (r1, t)" by fastforce
  show ?thesis
  proof (cases r1)
    case (Inl e)
    with rc r show ?thesis
      by (intro exI [of _ "[]"]) (auto simp: serve_frame_def receive_conn_def)
  next
    case (Inr stp)
    let ?c1 = "c\<lparr>c_session := t\<rparr>"
    have c1: "conn_inv (passthrough :: 'e policy) cfg ?c1"
      using receive_keeps [of f ?s stp t] receive_inv [OF sinv, of f stp t] rc Inr inv
      by (auto simp: conn_ready_def conn_inv_def)
    have pend: "pending t = event stp" using receive_event [OF sinv] rc Inr by blast
    obtain replies c2 where cb: "(case event stp of None \<Rightarrow> return_s []
        | Some stage \<Rightarrow> callback fl passthrough cfg u stage) ?c1 = (Inr replies, c2)"
      and c2: "plain_frames replies" "c_out c2 = c_out c"
    proof (cases "event stp")
      case None
      with that show ?thesis by (simp add: return_s_def)
    next
      case (Some stage)
      with that pend passthrough_callback [OF c1 _ lim, of stage fl u] show ?thesis by auto
    qed
    obtain r3 out where wr:
      "write_frames (write_socket u) (step_frames stp @ replies) (c_out c2) = (r3, out)" by fastforce
    have res: "(r, c') = bind_s (send (write_socket u) (step_frames stp @ replies))
        (\<lambda>_. return_s (if close stp then Some () else None)) c2"
      using r rc Inr cb by (simp add: serve_frame_def receive_conn_def)
    have "c_out c' = out" "is_ok r \<longrightarrow> r3 = Inr ()"
      using res wr by (cases r3; auto simp: send_def return_s_def bind_s.simps)+
    moreover have "plain_frames (step_frames stp @ replies)"
      using c2(1) receive_plain [OF sinv, of f stp t] rc Inr by simp
    ultimately show ?thesis using write_frames_prefix [OF wr] c2(2) by metis
  qed
qed

lemma passthrough_loop_output:
  fixes us :: "'e turn list"
  assumes "conn_ready (passthrough :: 'e policy) cfg c" and "\<And>u. u \<in> set us \<Longrightarrow> turn_sane (passthrough :: 'e policy) u"
    and "1 \<le> lim_frame_bytes (cfg_limits cfg)"
    and "connection_loop fl passthrough cfg us c = (r, c')"
  shows "\<exists>fs w. plain_frames fs \<and> prefix w (wire fs) \<and> c_out c' = c_out c @ w"
  using assms
proof (induction us arbitrary: c)
  case Nil
  then show ?case by (intro exI [of _ "[]"]) simp
next
  case (Cons u us)
  obtain r1 c1 where t: "connection_turn fl passthrough cfg u c = (r1, c1)" by fastforce
  have inv1: "r1 = Inr None \<longrightarrow> conn_ready (passthrough :: 'e policy) cfg c1"
    using connection_turn_inv [OF Cons.prems(1) _ Cons.prems(3) t] Cons.prems(2) by simp
  obtain x rest where rd: "read_next_frame cfg u (c_in c) = (x, rest)" by fastforce
  have cr: "conn_ready (passthrough :: 'e policy) cfg (c\<lparr>c_in := rest\<rparr>)"
    using Cons.prems(1) by (simp add: conn_ready_def conn_inv_def)
  obtain fs w where 1: "plain_frames fs" "prefix w (wire fs)" "c_out c1 = c_out c @ w"
    "is_ok r1 \<longrightarrow> w = wire fs"
  proof (cases "\<exists>f. x = Inr (Some f) \<and> \<not> stop_wins u")
    case True
    then obtain f where "serve_frame fl passthrough cfg u f (c\<lparr>c_in := rest\<rparr>) = (r1, c1)"
      using t rd by (auto simp: connection_turn_def read_conn_def bind_s.simps)
    from passthrough_frame_output [OF cr Cons.prems(3) this] that show ?thesis by auto
  next
    case False
    then have "c_out c1 = c_out c"
      using t rd by (auto simp: connection_turn_def read_conn_def bind_s.simps return_s_def
          split: if_splits sum.splits option.splits)
    with that [of "[]" "[]"] show ?thesis by simp
  qed
  show ?case
  proof (cases "r1 = Inr None")
    case True
    with t Cons.prems have "connection_loop fl passthrough cfg us c1 = (r, c')" by simp
    from Cons.IH [OF _ _ _ this] inv1 True Cons.prems obtain gs v where
      "plain_frames gs" "prefix v (wire gs)" "c_out c' = c_out c1 @ v" by auto
    with 1 True show ?thesis by (intro exI [of _ "fs @ gs"] exI [of _ "w @ v"]) simp
  next
    case False
    with t Cons.prems have "c' = c1" by (auto split: sum.splits option.splits)
    with 1 show ?thesis by blast
  qed
qed

end
