(* ===== verification/Listener.thy ===== *)
theory Listener
  imports Server_Inv
begin

text \<open>
  \<open>src/src/server.rs\<close>, \<open>serve\<close>: the accept loop, its connection tasks and the shutdown, as a
  step relation. The steps are the branches of the \<open>select\<close>, the end of a task and the branches
  of the drain; which one comes next is the scheduler's choice. A task holds its permit and its
  unit of the \<open>active\<close> gauge until its future is dropped; it stays in the join set until joined.
\<close>

datatype transport = Tcp | Unix

datatype task = Running | Ended

datatype phase = Accepting | Draining | Aborting | Returned "unit result"

record 'f server =
  sv_listener :: transport
  sv_stats :: "'f stats"
  permits :: nat
  tasks :: "task list"
  phase :: phase

section \<open>Steps\<close>

text \<open>Accepting fails when the system call does, and for TCP also when setting the option fails.\<close>

definition listener_accept :: "transport \<Rightarrow> io_kind option \<Rightarrow> io_kind option \<Rightarrow> unit result" where
  "listener_accept tr accept_failure nodelay_failure =
     (case tr of
        Tcp \<Rightarrow>
          (case accept_failure of
             Some k \<Rightarrow> Inl (Io k)
           | None \<Rightarrow> (case nodelay_failure of Some k \<Rightarrow> Inl (Io k) | None \<Rightarrow> Inr ()))
      | Unix \<Rightarrow> (case accept_failure of Some k \<Rightarrow> Inl (Io k) | None \<Rightarrow> Inr ()))"

definition listener_id :: "transport \<Rightarrow> nat" where
  "listener_id tr = (if tr = Tcp then 1 else 2)"

definition serve_start :: "config \<Rightarrow> transport \<Rightarrow> 'f stats \<Rightarrow> 'f server" where
  "serve_start cfg tr st =
     (if max_connections cfg = 0
      then \<lparr>sv_listener = tr, sv_stats = st, permits = 0, tasks = [],
            phase = Returned (Inl (Invalid ''max_connections must be positive''))\<rparr>
      else \<lparr>sv_listener = tr, sv_stats = st\<lparr>listener := listener_id tr\<rparr>, permits = max_connections cfg, tasks = [],
            phase = Accepting\<rparr>)"

definition clear_listener :: "'f server \<Rightarrow> 'f server" where
  "clear_listener s = s\<lparr>sv_stats := (sv_stats s)\<lparr>listener := 0, ready := False\<rparr>\<rparr>"

definition accept_connection :: "'f server \<Rightarrow> 'f server" where
  "accept_connection s =
     (if permits s = 0
      then s\<lparr>sv_stats := (sv_stats s)\<lparr>overload := overload (sv_stats s) + 1\<rparr>\<rparr>
      else s\<lparr>permits := permits s - 1,
             sv_stats := (sv_stats s)\<lparr>connections := connections (sv_stats s) + 1,
               active := active (sv_stats s) + 1\<rparr>,
             tasks := tasks s @ [Running]\<rparr>)"

text \<open>Dropping the task's future gives the permit and the gauge back.\<close>

definition drop_task :: "nat \<Rightarrow> 'f server \<Rightarrow> 'f server" where
  "drop_task i s = s\<lparr>permits := permits s + 1,
     sv_stats := (sv_stats s)\<lparr>active := active (sv_stats s) - 1\<rparr>, tasks := (tasks s)[i := Ended]\<rparr>"

text \<open>A task that ran to its end records the error of its connection first; if the connection
  panicked, nothing is recorded.\<close>

fun is_panic :: "error \<Rightarrow> bool" where
  "is_panic (Panic m) = True"
| "is_panic _ = False"

definition record_result :: "unit result \<Rightarrow> 'f stats \<Rightarrow> 'f stats" where
  "record_result r st =
     (case r of
        Inr _ \<Rightarrow> st
      | Inl e \<Rightarrow>
          if is_panic e then st
          else (case connection_error e st of
                  Inl _ \<Rightarrow> st\<lparr>errors := errors st + 1\<rparr>
                | Inr st' \<Rightarrow> st'))"

definition end_task :: "nat \<Rightarrow> unit result \<Rightarrow> 'f server \<Rightarrow> 'f server" where
  "end_task i r s = drop_task i (s\<lparr>sv_stats := record_result r (sv_stats s)\<rparr>)"

definition join_task :: "nat \<Rightarrow> 'f server \<Rightarrow> 'f server" where
  "join_task i s = s\<lparr>tasks := take i (tasks s) @ drop (i + 1) (tasks s)\<rparr>"

inductive serve_step :: "'f server \<Rightarrow> 'f server \<Rightarrow> bool" where
  stop: "phase s = Accepting \<Longrightarrow> serve_step s (clear_listener (s\<lparr>phase := Draining\<rparr>))"
| accept: "phase s = Accepting \<Longrightarrow> listener_accept (sv_listener s) a n = Inr () \<Longrightarrow>
    serve_step s (accept_connection s)"
| accept_error: "phase s = Accepting \<Longrightarrow> listener_accept (sv_listener s) a n = Inl e \<Longrightarrow>
    serve_step s (clear_listener (s\<lparr>phase := Returned (Inl e)\<rparr>))"
| join: "i < length (tasks s) \<Longrightarrow> tasks s ! i = Ended \<Longrightarrow> phase s \<in> {Accepting, Draining, Aborting} \<Longrightarrow>
    serve_step s (join_task i s)"
| task_end: "i < length (tasks s) \<Longrightarrow> tasks s ! i = Running \<Longrightarrow> serve_step s (end_task i r s)"
| task_abort: "i < length (tasks s) \<Longrightarrow> tasks s ! i = Running \<Longrightarrow>
    phase s = Aborting \<or> phase s = Returned (Inl e) \<Longrightarrow> serve_step s (drop_task i s)"
| drained: "phase s = Draining \<Longrightarrow> tasks s = [] \<Longrightarrow>
    serve_step s (clear_listener (s\<lparr>phase := Returned (Inr ()),
      sv_stats := (sv_stats s)\<lparr>drain_graceful := drain_graceful (sv_stats s) + 1\<rparr>\<rparr>))"
| deadline: "phase s = Draining \<Longrightarrow> tasks s \<noteq> [] \<Longrightarrow>
    serve_step s (s\<lparr>phase := Aborting,
      sv_stats := (sv_stats s)\<lparr>drain_forced := drain_forced (sv_stats s) + 1\<rparr>\<rparr>)"
| aborted: "phase s = Aborting \<Longrightarrow> tasks s = [] \<Longrightarrow>
    serve_step s (clear_listener (s\<lparr>phase := Returned (Inr ())\<rparr>))"

inductive_cases serve_stepE: "serve_step s t"

section \<open>The invariant\<close>

definition running :: "task list \<Rightarrow> nat" where
  "running ts = length (filter (\<lambda>t. t = Running) ts)"

lemma running_simps [simp]:
  "running [] = 0" "running (t # ts) = of_bool (t = Running) + running ts"
  "running (ts @ us) = running ts + running us"
  by (simp_all add: running_def)

lemma running_update:
  "i < length ts \<Longrightarrow> ts ! i = Running \<Longrightarrow> running (ts[i := Ended]) + 1 = running ts"
  by (induction ts arbitrary: i) (auto simp: less_Suc_eq_0_disj nth_Cons')

lemma running_remove:
  assumes "i < length ts"
  shows "running ts = running (take i ts @ drop (i + 1) ts) + of_bool (ts ! i = Running)"
  by (subst id_take_nth_drop [OF assms]) simp

definition serve_inv :: "config \<Rightarrow> transport \<Rightarrow> 'f server \<Rightarrow> bool" where
  "serve_inv cfg tr s \<longleftrightarrow>
     permits s + running (tasks s) = max_connections cfg \<and>
     active (sv_stats s) = of_nat (running (tasks s)) \<and>
     listener (sv_stats s) = (if phase s = Accepting then listener_id tr else 0) \<and>
     drain_graceful (sv_stats s) + drain_forced (sv_stats s) =
       (if phase s = Aborting \<or> phase s = Returned (Inr ()) then 1 else 0) \<and>
     (phase s = Returned (Inr ()) \<longrightarrow> tasks s = [])"

definition fresh_stats :: "'f stats \<Rightarrow> bool" where
  "fresh_stats st \<longleftrightarrow> active st = 0 \<and> listener st = 0 \<and> drain_graceful st = 0 \<and> drain_forced st = 0"

inductive serve_init :: "config \<Rightarrow> transport \<Rightarrow> 'f server \<Rightarrow> bool" for cfg tr where
  "fresh_stats st \<Longrightarrow> serve_init cfg tr (serve_start cfg tr st)"

lemma serve_start_inv: "serve_init cfg tr s \<Longrightarrow> serve_inv cfg tr s"
  by (induction rule: serve_init.induct) (auto simp: serve_inv_def serve_start_def fresh_stats_def)

lemma connection_error_keeps:
  "connection_error e st = Inr st' \<Longrightarrow> active st' = active st \<and> listener st' = listener st \<and>
   drain_graceful st' = drain_graceful st \<and> drain_forced st' = drain_forced st"
  by (auto simp: connection_error_def Let_def result_simps)

lemma drop_task_inv:
  assumes "serve_inv cfg tr s" and "i < length (tasks s)" and "tasks s ! i = Running"
  shows "serve_inv cfg tr (drop_task i s)"
proof -
  have "phase s \<noteq> Returned (Inr ())" using assms by (auto simp: serve_inv_def)
  moreover have r: "running ((tasks s)[i := Ended]) + 1 = running (tasks s)"
    using assms(2,3) by (rule running_update)
  moreover have "(of_nat (running (tasks s)) :: u64) - 1 = of_nat (running ((tasks s)[i := Ended]))"
    by (simp flip: r)
  ultimately show ?thesis using assms(1) by (auto simp: serve_inv_def drop_task_def)
qed

lemma record_result_keeps:
  "active (record_result r st) = active st" "listener (record_result r st) = listener st"
  "drain_graceful (record_result r st) = drain_graceful st"
  "drain_forced (record_result r st) = drain_forced st"
  by (auto simp: record_result_def dest: connection_error_keeps split: sum.splits)

lemma end_task_inv:
  assumes "serve_inv cfg tr s" and "i < length (tasks s)" and "tasks s ! i = Running"
  shows "serve_inv cfg tr (end_task i r s)"
  unfolding end_task_def
  by (rule drop_task_inv) (use assms in \<open>simp_all add: serve_inv_def record_result_keeps\<close>)

lemma serve_step_inv:
  assumes "serve_step s t" and "serve_inv cfg tr s"
  shows "serve_inv cfg tr t"
  using assms
proof (induction rule: serve_step.induct)
  case (join i s)
  then show ?case
    using running_remove [of i "tasks s"] by (auto simp: serve_inv_def join_task_def)
next
  case (task_end i s r)
  then show ?case by (simp add: end_task_inv)
next
  case (task_abort i s)
  then show ?case by (simp add: drop_task_inv)
qed (auto simp: serve_inv_def clear_listener_def accept_connection_def)

interpretation serve_sys: invariant_system "serve_init cfg tr" serve_step "serve_inv cfg tr"
  for cfg tr
  by unfold_locales (auto intro: serve_start_inv serve_step_inv)

section \<open>Shutdown ends\<close>

text \<open>A measure every step of the drain decreases, and the next step exists until \<open>serve\<close>
  returns.\<close>

fun phase_rank :: "phase \<Rightarrow> nat" where
  "phase_rank Accepting = 3"
| "phase_rank Draining = 2"
| "phase_rank Aborting = 1"
| "phase_rank (Returned r) = 0"

definition drain_measure :: "'f server \<Rightarrow> nat" where
  "drain_measure s = phase_rank (phase s) + length (tasks s) + running (tasks s)"

lemma drop_task_measure:
  assumes "i < length (tasks s)" and "tasks s ! i = Running"
  shows "drain_measure (drop_task i s) < drain_measure s"
  using running_update [OF assms] by (simp add: drain_measure_def drop_task_def)

lemma end_task_measure:
  assumes "i < length (tasks s)" and "tasks s ! i = Running"
  shows "drain_measure (end_task i r s) < drain_measure s"
  using drop_task_measure [of i "s\<lparr>sv_stats := record_result r (sv_stats s)\<rparr>"] assms
  by (simp add: end_task_def drain_measure_def)

lemma serve_step_decreases:
  "serve_step s t \<Longrightarrow> phase s \<noteq> Accepting \<Longrightarrow> drain_measure t < drain_measure s"
proof (induction rule: serve_step.induct)
  case (join i s)
  then show ?case
    using running_remove [of i "tasks s"] by (auto simp: drain_measure_def join_task_def)
next
  case (task_end i s r)
  then show ?case by (simp add: end_task_measure)
next
  case (task_abort i s)
  then show ?case by (simp add: drop_task_measure)
qed (auto simp: drain_measure_def clear_listener_def)

lemma drain_not_stuck:
  assumes "phase s \<in> {Draining, Aborting}"
  shows "\<exists>t. serve_step s t"
proof (cases "tasks s")
  case Nil
  with assms show ?thesis using drained aborted by fastforce
next
  case (Cons t ts)
  show ?thesis
  proof (cases t)
    case Running
    with Cons show ?thesis using task_end [of 0 s] by auto
  next
    case Ended
    with Cons assms show ?thesis using join [of 0 s] by auto
  qed
qed

lemma not_accepting_keeps: "serve_step s t \<Longrightarrow> phase s \<noteq> Accepting \<Longrightarrow> phase t \<noteq> Accepting"
  by (induction rule: serve_step.induct)
    (auto simp: clear_listener_def join_task_def drop_task_def end_task_def)

lemma drain_returns:
  "phase s \<in> {Draining, Aborting} \<Longrightarrow> \<exists>t r. serve_step\<^sup>*\<^sup>* s t \<and> phase t = Returned r"
proof (induction "drain_measure s" arbitrary: s rule: less_induct)
  case less
  then obtain t where t: "serve_step s t" using drain_not_stuck by blast
  have "phase t \<noteq> Accepting" using not_accepting_keeps [OF t] less.prems by auto
  then consider "phase t \<in> {Draining, Aborting}" | r where "phase t = Returned r"
    by (cases "phase t") auto
  then show ?case
  proof cases
    case 1
    have "drain_measure t < drain_measure s" using serve_step_decreases [OF t] less.prems by auto
    from less.hyps [OF this 1] t show ?thesis by (meson converse_rtranclp_into_rtranclp)
  next
    case 2
    with t show ?thesis by blast
  qed
qed

end
