(* ===== verification/Samples.thy ===== *)
theory Samples
  imports Listener
begin

text \<open>
  Concrete sessions, decisions, turns and messages at which the properties are instantiated. The
  sessions are obtained by running \<open>receive\<close> on the frames of a small SMTP transaction.
\<close>

fun run :: "command list \<Rightarrow> session \<Rightarrow> session" where
  "run [] s = s"
| "run (c # cs) s = run cs (snd (receive (command_frame c) s))"

fun run_ok :: "command list \<Rightarrow> session \<Rightarrow> bool" where
  "run_ok [] s = True"
| "run_ok (c # cs) s =
     (is_ok (fst (receive (command_frame c) s)) \<and> run_ok cs (snd (receive (command_frame c) s)))"

lemma run_reach:
  "run_ok cs s \<Longrightarrow> reach session_start session_step s \<Longrightarrow> reach session_start session_step (run cs s)"
proof (induction cs arbitrary: s)
  case (Cons c cs)
  obtain r t where rt: "receive (command_frame c) s = (r, t)" by fastforce
  with Cons.prems obtain stp where "receive (command_frame c) s = (Inr stp, t)"
    by (auto simp: is_ok_iff)
  then have "session_step s t" by (rule step_receive)
  with Cons rt show ?case by (auto intro: reach_step)
qed simp

definition sample_new :: session where
  "sample_new = request_macros [] (session_new default_limits [StEndMessage] SUPPORTED_ACTIONS)"

definition sample_options :: options where
  "sample_options = \<lparr>version = 6, actions = SUPPORTED_ACTIONS, protocol = HEADER_LEADING_SPACE\<rparr>"

definition sample_peer :: connection where
  "sample_peer = \<lparr>hostname = ''mx'', family = CHR ''U'', port = None,
     conn_address = None\<rparr>"

definition sample_handshake :: "command list" where
  "sample_handshake = [Negotiate sample_options]"

definition sample_transaction :: "command list" where
  "sample_transaction = [Connect sample_peer, Mail [''<a@b>''], Recipient [''<c@d>''],
     Data, Header ''Subject'' '' hi'', EndHeaders, Body ''x'']"

definition sample_negotiated :: session where
  "sample_negotiated = run sample_handshake sample_new"

definition sample_body :: session where
  "sample_body = run sample_transaction sample_negotiated"

definition sample_eom :: session where
  "sample_eom = run [EndMessage] sample_body"

definition sample_decision :: decision where
  "sample_decision = \<lparr>verdict = Accept, modifications = [AddHeader ''X-Spam'' ''no'']\<rparr>"

definition sample_bad_decision :: decision where
  "sample_bad_decision = \<lparr>verdict = Accept, modifications = [AddHeader [] ''no'']\<rparr>"

lemma sample_new_reach: "reach session_start session_step sample_new"
  unfolding sample_new_def by (rule reach_init, rule session_start.start)

lemma receive_step:
  "pending s = None \<Longrightarrow> wf_command c \<Longrightarrow> receive (command_frame c) s =
    (if state s = Closed then (Inl (Invalid ''closed session''), s)
     else case c of
       Negotiate o' \<Rightarrow> receive_negotiate (frame.command (command_frame c)) o' s
     | Macro m vs \<Rightarrow> if state s = Initial then (Inl (Invalid ''negotiate first''), s)
         else receive_macro m vs s
     | _ \<Rightarrow> if state s = Initial then (Inl (Invalid ''negotiate first''), s)
         else receive_command (frame.command (command_frame c)) c s)"
  by (rule receive_eq) (simp_all add: decode_complete)

lemma command_frame_opcode:
  "frame.command (command_frame (Negotiate o')) = CHR ''O''"
  "frame.command (command_frame (Connect i)) = CHR ''C''"
  "frame.command (command_frame (Mail fs)) = CHR ''M''"
  "frame.command (command_frame (Recipient fs)) = CHR ''R''"
  "frame.command (command_frame Data) = CHR ''T''"
  "frame.command (command_frame (Header n v)) = CHR ''L''"
  "frame.command (command_frame EndHeaders) = CHR ''N''"
  "frame.command (command_frame (Body b)) = CHR ''B''"
  "frame.command (command_frame EndMessage) = CHR ''E''"
  "frame.command (command_frame Abort) = CHR ''A''"
  by (simp_all add: options_frame_def empty_frame_def)

lemmas step_eval = receive_step command_frame_opcode receive_negotiate_def receive_macro_def
  receive_command_def begin_mail_def reset_message_def activate_macros_def bind_s.simps state_defs
  require_def account_def count_envelope.simps account_envelope_def checked_add_def usize_max_def
  envelope_address_from_def set_msg_bytes_def set_envelope_bytes_def add_recipient_def add_header_def
  add_body_def finish_step_def Let_def bmap_remove_def bmap_retain_def bmap_insert_def

lemmas sample_defs = sample_new_def sample_options_def sample_peer_def sample_handshake_def
  sample_transaction_def request_macros_def session_new_def default_limits_def default_message_def

definition sample_agreed :: options where
  "sample_agreed = \<lparr>version = 6, actions = SUPPORTED_ACTIONS, protocol = HEADER_LEADING_SPACE\<rparr>"

lemma sample_receive_negotiate:
  "receive (command_frame (Negotiate sample_options)) sample_new =
     (Inr (empty_step\<lparr>step_frames := [options_frame sample_agreed]\<rparr>),
      sample_new\<lparr>opts := Some sample_agreed, state := Negotiated\<rparr>)"
  by (simp add: step_eval sample_defs sample_agreed_def frame_with_macros_def macro_lists_is_empty_def VERSION_def
    SUPPORTED_ACTIONS_def action_defs wanted_protocol_def protocol_defs del: command_frame.simps)

lemma sample_negotiated_eq:
  "sample_negotiated = sample_new\<lparr>opts := Some sample_agreed, state := Negotiated\<rparr>"
  by (simp add: sample_negotiated_def sample_handshake_def sample_receive_negotiate del: command_frame.simps)

lemma sample_handshake_ok: "run_ok sample_handshake sample_new"
  by (simp add: sample_handshake_def sample_receive_negotiate del: command_frame.simps)

lemma sample_transaction_ok: "run_ok sample_transaction sample_negotiated"
  by (simp add: step_eval sample_defs sample_negotiated_eq sample_agreed_def nul_free_def del: command_frame.simps)

lemma sample_body_eq:
  "sample_body = sample_new\<lparr>opts := Some sample_agreed, state := InBody, conn := Some sample_peer,
     message := \<lparr>sender = Some \<lparr>address = ''<a@b>'', parameters = []\<rparr>,
       recipients = [\<lparr>address = ''<c@d>'', parameters = []\<rparr>], headers = [(''Subject'', '' hi'')],
       body = ''x'', msg_bytes = 17, msg_envelope_bytes = 12\<rparr>\<rparr>"
  by (simp add: sample_body_def step_eval sample_defs sample_negotiated_eq nul_free_def del: command_frame.simps)

lemma sample_eom_ok: "run_ok [EndMessage] sample_body"
  by (simp add: step_eval sample_defs sample_body_eq del: command_frame.simps)

lemma sample_eom_eq: "sample_eom = sample_body\<lparr>pending := Some StEndMessage\<rparr>"
  by (simp add: sample_eom_def step_eval sample_defs sample_body_eq del: command_frame.simps)

lemma sample_negotiated_reach: "reach session_start session_step sample_negotiated"
  unfolding sample_negotiated_def using sample_handshake_ok sample_new_reach by (rule run_reach)

lemma sample_body_reach: "reach session_start session_step sample_body"
  unfolding sample_body_def using sample_transaction_ok sample_negotiated_reach by (rule run_reach)

lemma sample_eom_reach: "reach session_start session_step sample_eom"
  unfolding sample_eom_def using sample_eom_ok sample_body_reach by (rule run_reach)

lemma sample_states [simp]:
  "pending sample_new = None" "state sample_new = Initial"
  "pending sample_negotiated = None" "state sample_negotiated = Negotiated"
  "state sample_body = InBody" "pending sample_body = None"
  "pending sample_eom = Some StEndMessage" "1 \<le> lim_frame_bytes (limits sample_eom)"
  by (simp_all add: sample_eom_eq sample_body_eq sample_negotiated_eq sample_defs)

lemma sample_eom_sel [simp]:
  "opts sample_eom = Some sample_agreed" "limits sample_eom = default_limits"
  "leading_space sample_eom" "actions sample_agreed AND ADD_HEADERS \<noteq> 0"
  by (simp_all add: sample_eom_eq sample_body_eq sample_new_def request_macros_def session_new_def
      leading_space_def sample_agreed_def protocol_defs action_defs SUPPORTED_ACTIONS_def)

lemma sample_frames:
  "frames (AddHeader ''X-Spam'' ''no'') True = Inr [mk_frame (CHR ''h'') (nul_terminated [''X-Spam'', '' no''])]"
  "frames (AddHeader [] ''no'') True = Inl (Invalid ''header name'')"
  by (simp_all add: header_frames_def header_name_ok_def string_frame_eq nul_free_def)

lemma sample_complete: "\<exists>out t. complete sample_decision sample_eom = (Inr out, t)"
  by (simp add: complete_def check_decision_def emit_modification_def emit_frame_def payload_bytes_eq
      checked_add_def usize_max_def sample_decision_def sample_frames default_limits_def empty_frame_def
      del: frames.simps nul_terminated_simps) (simp add: nul_terminated_def)

lemma sample_bad_refused:
  "complete sample_bad_decision sample_eom = (Inl (Invalid ''header name''), sample_eom)"
  by (simp add: complete_def check_decision_def emit_modification_def payload_bytes_eq
      checked_add_def usize_max_def sample_bad_decision_def sample_frames default_limits_def
      del: frames.simps)

lemma sample_abort: "\<exists>stp t. receive (empty_frame (CHR ''A'')) sample_negotiated = (Inr stp, t)"
  using receive_step [of sample_negotiated Abort]
  by (simp add: step_eval sample_negotiated_eq sample_defs)

section \<open>A connection\<close>

definition sample_floats :: "nat float_ops" where
  "sample_floats = \<lparr>f64_add = (+), as_secs_f64 = id\<rparr>"

definition sample_policy :: "unit policy" where
  "sample_policy = \<lparr>pol_stages = [StEndMessage], pol_actions = SUPPORTED_ACTIONS, pol_macros = [],
     pol_evaluate = (\<lambda>_ _ _. Inr default_decision)\<rparr>"

definition sample_turn :: "unit turn" where
  "sample_turn = \<lparr>stop_wins = False, idle_expired = False, read_error = None, frame_fault = None,
     ticks = [], deadline_hit = False, outside = (), write_socket = None, begun = 0, ended = 1\<rparr>"

definition sample_conn :: "nat conn_state" where
  "sample_conn = \<lparr>c_in = [], c_out = [], c_session = sample_eom, c_stats = default_stats 0\<rparr>"

lemma sample_turn_sane: "turn_sane sample_policy sample_turn"
  by (simp add: turn_sane_def sample_turn_def sample_policy_def)

lemma sample_conn_inv: "conn_inv sample_policy default_config sample_conn"
proof -
  have "session_inv sample_eom" using sample_eom_reach by (rule reachable_inv)
  then show ?thesis
    by (simp add: conn_inv_def sample_conn_def default_stats_shape sample_policy_def default_config_def)
      (simp add: sample_eom_eq sample_body_eq sample_new_def request_macros_def session_new_def)
qed

end
