(* ===== verification/Json.thy ===== *)
theory Json
  imports Wire Btree_Map "HOL-Library.Char_ord" "HOL-Library.List_Lexorder"
begin

text \<open>
  JSON values as \<open>serde_json::Value\<close> represents them: objects are maps ordered by key, numbers
  keep unsigned, negative and floating-point forms apart. The accessors are the ones the scanner
  client calls.
\<close>

datatype jnum = PosInt u64 | NegInt int | FloatNum bytes

datatype json =
    JNull
  | JBool bool
  | JNum jnum
  | JStr bytes
  | JArr "json list"
  | JObj "(bytes \<times> json) list"

section \<open>Objects\<close>

fun obj_insert :: "bytes \<Rightarrow> 'v \<Rightarrow> (bytes \<times> 'v) list \<Rightarrow> (bytes \<times> 'v) list" where
  "obj_insert k v [] = [(k, v)]"
| "obj_insert k v ((k', v') # m) =
     (if k < k' then (k, v) # (k', v') # m
      else if k = k' then (k, v) # m
      else (k', v') # obj_insert k v m)"

definition obj_invar :: "(bytes \<times> 'v) list \<Rightarrow> bool" where
  "obj_invar m \<longleftrightarrow> sorted_wrt (<) (map fst m)"

definition jobj :: "(bytes \<times> json) list \<Rightarrow> json" where
  "jobj kvs = JObj (fold (\<lambda>(k, v). obj_insert k v) kvs [])"

section \<open>Accessors\<close>

fun as_str :: "json \<Rightarrow> bytes option" where
  "as_str (JStr s) = Some s"
| "as_str _ = None"

fun as_u64 :: "json \<Rightarrow> u64 option" where
  "as_u64 (JNum (PosInt n)) = Some n"
| "as_u64 _ = None"

fun as_array :: "json \<Rightarrow> json list option" where
  "as_array (JArr xs) = Some xs"
| "as_array _ = None"

fun is_object :: "json \<Rightarrow> bool" where
  "is_object (JObj m) = True"
| "is_object _ = False"

text \<open>\<open>value.get(key)\<close>, and \<open>value[key]\<close>, which is \<open>Null\<close> where there is no such member.\<close>

fun jget :: "json \<Rightarrow> bytes \<Rightarrow> json option" where
  "jget (JObj m) k = map_of m k"
| "jget _ k = None"

definition jindex :: "json \<Rightarrow> bytes \<Rightarrow> json" where
  "jindex v k = (case jget v k of None \<Rightarrow> JNull | Some x \<Rightarrow> x)"

text \<open>\<open>value[key] = x\<close> on an object.\<close>

fun jset :: "json \<Rightarrow> bytes \<Rightarrow> json \<Rightarrow> json" where
  "jset (JObj m) k x = JObj (obj_insert k x m)"
| "jset v k x = v"

definition opt_str :: "bytes option \<Rightarrow> json" where
  "opt_str o' = (case o' of None \<Rightarrow> JNull | Some s \<Rightarrow> JStr s)"

section \<open>Maps built by insertion\<close>

text \<open>What a map built by successive insertions holds: the last value inserted for a key.\<close>

locale entry_map =
  fixes get :: "'m \<Rightarrow> 'k \<Rightarrow> 'v option"
    and put :: "'k \<Rightarrow> 'v \<Rightarrow> 'm \<Rightarrow> 'm"
    and invar :: "'m \<Rightarrow> bool"
  assumes get_put: "invar m \<Longrightarrow> get (put k v m) = (get m)(k \<mapsto> v)"
    and invar_put: "invar m \<Longrightarrow> invar (put k v m)"
begin

lemma invar_put_all: "invar m \<Longrightarrow> invar (fold (\<lambda>(k, v). put k v) kvs m)"
  by (induction kvs arbitrary: m) (auto simp: invar_put)

lemma get_put_all:
  "invar m \<Longrightarrow> get (fold (\<lambda>(k, v). put k v) kvs m) = get m ++ map_of (rev kvs)"
  by (induction kvs arbitrary: m) (auto simp: invar_put get_put map_add_def fun_eq_iff split: option.splits)

lemma dom_put_all:
  "invar m \<Longrightarrow> dom (get (fold (\<lambda>(k, v). put k v) kvs m)) = dom (get m) \<union> fst ` set kvs"
  by (auto simp: get_put_all dom_map_of_conv_image_fst)

end

lemma obj_keys: "set (map fst (obj_insert k v m)) = insert k (set (map fst m))"
  by (induction k v m rule: obj_insert.induct) auto

lemma obj_invar_insert: "obj_invar m \<Longrightarrow> obj_invar (obj_insert k v m)"
proof (induction k v m rule: obj_insert.induct)
  case (2 k v k' v' m)
  then have IH: "\<not> k < k' \<Longrightarrow> k \<noteq> k' \<Longrightarrow> sorted_wrt (<) (map fst (obj_insert k v m))"
    by (auto simp: obj_invar_def)
  have keys: "fst ` set (obj_insert k v m) = insert k (fst ` set m)"
    using obj_keys [of k v m] by simp
  from 2(2) have m: "\<forall>x \<in> fst ` set m. k' < x" "sorted_wrt (<) (map fst m)" by (auto simp: obj_invar_def)
  show ?case
  proof (cases "k < k'")
    case True
    with m show ?thesis by (auto simp: obj_invar_def)
  next
    case False
    then have "k = k' \<or> k' < k" by auto
    with m IH keys False show ?thesis by (auto simp: obj_invar_def)
  qed
qed (simp add: obj_invar_def)

lemma obj_get_insert: "obj_invar m \<Longrightarrow> map_of (obj_insert k v m) = (map_of m)(k \<mapsto> v)"
  by (induction k v m rule: obj_insert.induct) (auto simp: obj_invar_def fun_eq_iff)

interpretation obj: entry_map map_of obj_insert obj_invar
  by unfold_locales (auto simp: obj_get_insert obj_invar_insert)

interpretation bm_entries: entry_map map_of bmap_insert bmap_invar
  by unfold_locales (auto simp: bm.get_insert bm.invar_insert)

lemma obj_invar_Nil [simp]: "obj_invar []"
  by (simp add: obj_invar_def)

lemma jget_jobj: "jget (jobj kvs) k = map_of (rev kvs) k"
  by (simp add: jobj_def obj.get_put_all)

end
