(* ===== verification/Hook_Request.thy ===== *)
theory Hook_Request
  imports Json Decision_Safety
begin

text \<open>
  \<open>src/src/hooks.rs\<close>, the request side: the projection of a session onto the properties the
  scanner negotiated. The clock's text and base64 encoding are arguments.
\<close>

section \<open>Projection\<close>

definition OFFERED_PROPERTIES :: "string list" where
  "OFFERED_PROPERTIES = [''/stage'', ''/action'', ''/timestamp'', ''/protocol'', ''/rawMessage'',
     ''/envelope'', ''/queue'', ''/client'', ''/tls'', ''/auth'', ''/server'']"

definition REQUIRED_PROPERTIES :: "string list" where
  "REQUIRED_PROPERTIES = [''/stage'', ''/action'']"

definition as_text :: "bytes \<Rightarrow> bytes result" where
  "as_text bs = (if utf8_valid bs then Inr bs else Inl (Invalid ''non-UTF8 envelope or metadata''))"

definition opt_text :: "bytes option \<Rightarrow> bytes option result" where
  "opt_text o' = (case o' of None \<Rightarrow> Inr None | Some bs \<Rightarrow> map_r Some (as_text bs))"

definition address_parameter :: "(bytes \<times> json) list \<Rightarrow> bytes \<Rightarrow> (bytes \<times> json) list result" where
  "address_parameter ps p =
     bind_r (as_text p) (\<lambda>p.
       let (k, v) = (case split_once (CHR ''='') p of None \<Rightarrow> (p, []) | Some kv \<Rightarrow> kv) in
       Inr (obj_insert k (JStr v) ps))"

definition address_json :: "envelope_address \<Rightarrow> bool \<Rightarrow> json result" where
  "address_json a is_sender =
     bind_r (as_text (address a)) (\<lambda>s0.
       let s = (case Option.bind (strip_prefix ''<'' s0) (strip_suffix ''>'') of
                  None \<Rightarrow> s0 | Some t \<Rightarrow> t);
           addr = (if is_sender \<and> s = [] then JNull else JStr s) in
       bind_r (fold_r address_parameter [] (parameters a)) (\<lambda>ps.
         Inr (jobj [(''address'', addr), (''parameters'', JObj ps)])))"

definition macro_text :: "session \<Rightarrow> bytes \<Rightarrow> bytes option result" where
  "macro_text s name =
     (case macro_value s name of
        None \<Rightarrow> Inr None
      | Some v \<Rightarrow> if v = [] then Inr None else map_r Some (as_text v))"

definition macro_number :: "session \<Rightarrow> bytes \<Rightarrow> json result" where
  "macro_number s name =
     map_r (\<lambda>v. case Option.bind v (parse_unsigned (2 ^ 64 - 1)) of
              None \<Rightarrow> JNull
            | Some n \<Rightarrow> JNum (PosInt (of_nat n)))
       (macro_text s name)"

definition project_envelope :: "session \<Rightarrow> stage \<Rightarrow> json result" where
  "project_envelope s stage =
     (case sender (message s) of
        Some sdr \<Rightarrow>
          if stage \<noteq> StConnect \<and> stage \<noteq> StHelo then
            bind_r (collect_r (\<lambda>r. address_json r False) (recipients (message s))) (\<lambda>rs.
            bind_r (address_json sdr True) (\<lambda>f.
              Inr (jobj [(''from'', f), (''to'', JArr rs)])))
          else Inr JNull
      | None \<Rightarrow> if stage = StEndMessage then Inl (Invalid ''missing sender'') else Inr JNull)"

definition project_client :: "session \<Rightarrow> connection \<Rightarrow> json result" where
  "project_client s cn =
     bind_r (macro_text s ''client_addr'') (\<lambda>mac.
     bind_r (opt_text (conn_address cn)) (\<lambda>addr.
     bind_r (opt_text (helo s)) (\<lambda>ehlo.
       let ip = (case mac of Some t \<Rightarrow> Some t | None \<Rightarrow> addr);
           client = jobj [(''ip'', opt_str ip),
             (''port'', case port cn of None \<Rightarrow> JNull | Some p \<Rightarrow> JNum (PosInt (of_nat (unat p)))),
             (''ehlo'', opt_str ehlo)] in
     bind_r (macro_text s ''client_ptr'') (\<lambda>ptr.
       let client1 = (case ptr of None \<Rightarrow> client | Some t \<Rightarrow> jset client ''ptr'' (JStr t)) in
     bind_r (macro_number s ''client_connections'') (\<lambda>n.
       Inr (case n of JNum k \<Rightarrow> jset client1 ''activeConnections'' (JNum k) | _ \<Rightarrow> client1))))))"

definition project_tls :: "session \<Rightarrow> json result" where
  "project_tls s =
     bind_r (macro_text s ''tls_version'') (\<lambda>version.
       case version of
         None \<Rightarrow> Inr JNull
       | Some v \<Rightarrow>
           bind_r (macro_text s ''cipher'') (\<lambda>cipher.
           bind_r (macro_number s ''cipher_bits'') (\<lambda>cbits.
           bind_r (macro_text s ''cert_subject'') (\<lambda>subj.
           bind_r (macro_text s ''cert_issuer'') (\<lambda>iss.
             Inr (jobj [(''version'', JStr v), (''cipher'', opt_str cipher), (''cipherBits'', cbits),
               (''certSubject'', opt_str subj), (''certIssuer'', opt_str iss)]))))))"

definition project_auth :: "session \<Rightarrow> json result" where
  "project_auth s =
     bind_r (macro_text s ''auth_authen'') (\<lambda>login.
       case login of
         None \<Rightarrow> Inr JNull
       | Some l \<Rightarrow>
           bind_r (macro_text s ''auth_type'') (\<lambda>method.
             Inr (jobj [(''login'', JStr l), (''method'', opt_str method)])))"

definition project_server :: "session \<Rightarrow> json result" where
  "project_server s =
     bind_r (macro_text s ''j'') (\<lambda>name.
     bind_r (macro_text s ''daemon_addr'') (\<lambda>ip.
       if name = None \<and> ip = None then Inr JNull
       else bind_r (macro_number s ''daemon_port'') (\<lambda>prt.
         Inr (jobj [(''name'', opt_str name), (''ip'', opt_str ip), (''port'', prt)]))))"

definition project ::
  "(bytes \<Rightarrow> bytes) \<Rightarrow> string \<Rightarrow> session \<Rightarrow> connection \<Rightarrow> stage \<Rightarrow> string \<Rightarrow> json result" where
  "project b64 now s cn stage prop =
     (if prop = ''/stage'' then Inr (JStr (hook_name stage))
      else if prop = ''/action'' then Inr (JStr ''accept'')
      else if prop = ''/timestamp'' then Inr (JStr now)
      else if prop = ''/protocol'' then Inr (jobj [(''version'', JStr ''1.0'')])
      else if prop = ''/rawMessage'' then
        Inr (if stage = StEndMessage then JStr (b64 (raw_message s)) else JNull)
      else if prop = ''/envelope'' then project_envelope s stage
      else if prop = ''/queue'' then
        map_r (\<lambda>q. case q of None \<Rightarrow> JNull | Some ident \<Rightarrow> jobj [(''id'', JStr ident)]) (macro_text s ''i'')
      else if prop = ''/client'' then project_client s cn
      else if prop = ''/tls'' then project_tls s
      else if prop = ''/auth'' then project_auth s
      else if prop = ''/server'' then project_server s
      else Inl (Invalid ''unknown negotiated property''))"

definition request ::
  "(bytes \<Rightarrow> bytes) \<Rightarrow> string \<Rightarrow> session \<Rightarrow> stage \<Rightarrow> string list \<Rightarrow> json result" where
  "request b64 now s stage props =
     bind_r (ok_or (Invalid ''missing connection'') (conn s)) (\<lambda>cn.
     bind_r (fold_r (\<lambda>bdy prop.
         map_r (\<lambda>v. obj_insert (tl prop) v bdy) (project b64 now s cn stage prop)) [] props)
       (\<lambda>bdy. Inr (JObj bdy)))"

section \<open>Only negotiated properties are sent\<close>

lemma request_fold_keys:
  assumes "fold_r (\<lambda>bdy prop. map_r (\<lambda>v. obj_insert (tl prop) v bdy) (f prop)) b0 props = Inr bdy"
  shows "set (map fst bdy) = set (map fst b0) \<union> tl ` set props"
  using assms
proof (induction props arbitrary: b0)
  case (Cons p ps)
  then obtain v where "f p = Inr v"
    and "fold_r (\<lambda>bdy prop. map_r (\<lambda>v. obj_insert (tl prop) v bdy) (f prop)) (obj_insert (tl p) v b0) ps = Inr bdy"
    by (auto simp: result_simps)
  from Cons.IH [OF this(2)] obj_keys [of "tl p" v b0] show ?case by auto
qed simp

lemma request_fold_invar:
  assumes "fold_r (\<lambda>bdy prop. map_r (\<lambda>v. obj_insert (tl prop) v bdy) (f prop)) b0 props = Inr bdy"
    and "obj_invar b0"
  shows "obj_invar bdy"
  using assms by (rule fold_r_invariant) (auto simp: result_simps obj_invar_insert)

lemma request_fold_keep:
  assumes "fold_r (\<lambda>bdy prop. map_r (\<lambda>v. obj_insert (tl prop) v bdy) (f prop)) b0 props = Inr bdy"
    and "obj_invar b0" and "k \<notin> tl ` set props"
  shows "map_of bdy k = map_of b0 k"
  using assms
proof (induction props arbitrary: b0)
  case (Cons p ps)
  then obtain v where v: "f p = Inr v"
    and "fold_r (\<lambda>bdy prop. map_r (\<lambda>v. obj_insert (tl prop) v bdy) (f prop)) (obj_insert (tl p) v b0) ps = Inr bdy"
    by (auto simp: result_simps)
  from Cons.IH [OF this(2)] Cons.prems(2,3) show ?case
    by (simp add: obj_invar_insert obj_get_insert)
qed simp

lemma request_fold_value:
  assumes "fold_r (\<lambda>bdy prop. map_r (\<lambda>v. obj_insert (tl prop) v bdy) (f prop)) b0 props = Inr bdy"
    and "obj_invar b0" and "p \<in> set props" and "inj_on tl (set props)"
  shows "\<exists>v. f p = Inr v \<and> map_of bdy (tl p) = Some v"
  using assms
proof (induction props arbitrary: b0)
  case (Cons q ps)
  let ?g = "\<lambda>bdy prop. map_r (\<lambda>v. obj_insert (tl prop) v bdy) (f prop)"
  from Cons.prems obtain v where v: "f q = Inr v"
    and rest: "fold_r ?g (obj_insert (tl q) v b0) ps = Inr bdy"
    by (auto simp: result_simps)
  have inv: "obj_invar (obj_insert (tl q) v b0)" using Cons.prems(2) by (rule obj_invar_insert)
  show ?case
  proof (cases "p \<in> set ps")
    case True
    with Cons.IH [OF rest inv] Cons.prems(4) show ?thesis by auto
  next
    case False
    then have pq: "p = q" using Cons.prems(3) by simp
    have "tl q \<notin> tl ` set ps" using False Cons.prems(4) pq by (auto dest: inj_onD)
    from request_fold_keep [OF rest inv this] Cons.prems(2) v pq show ?thesis
      by (simp add: obj_get_insert)
  qed
qed simp

lemma OFFERED_inj: "inj_on tl (set OFFERED_PROPERTIES)"
  by (simp add: OFFERED_PROPERTIES_def)

section \<open>Requests fail only on text that is not UTF-8\<close>

definition text_error :: "'a result \<Rightarrow> bool" where
  "text_error r \<longleftrightarrow> (\<forall>e. r = Inl e \<longrightarrow> e = Invalid ''non-UTF8 envelope or metadata'')"

lemma text_error_simps [simp]:
  "text_error (Inr x)" "text_error (map_r f r) = text_error r"
  by (cases r; auto simp: text_error_def)+

lemma text_error_bind:
  "text_error m \<Longrightarrow> (\<And>x. m = Inr x \<Longrightarrow> text_error (f x)) \<Longrightarrow> text_error (bind_r m f)"
  by (cases m) (auto simp: text_error_def)

lemma text_error_fold_r: "(\<And>a x. text_error (f a x)) \<Longrightarrow> text_error (fold_r f a xs)"
  by (induction xs arbitrary: a) (auto intro: text_error_bind)

lemma text_error_as_text [simp]: "text_error (as_text bs)"
  by (simp add: as_text_def text_error_def)

lemma text_error_macro [simp]: "text_error (macro_text s n)" "text_error (macro_number s n)"
  by (auto simp: macro_text_def macro_number_def split: option.splits)

lemma text_error_opt_text [simp]: "text_error (opt_text o')"
  by (auto simp: opt_text_def split: option.splits)

lemma text_error_address [simp]: "text_error (address_json a b)"
  by (auto simp: address_json_def address_parameter_def Let_def intro!: text_error_bind text_error_fold_r
      split: prod.splits)

lemma text_error_collect: "(\<And>x. text_error (f x)) \<Longrightarrow> text_error (collect_r f xs)"
  by (induction xs) (auto intro!: text_error_bind)

lemma text_error_project:
  assumes "prop \<in> set OFFERED_PROPERTIES" and "sender (message s) \<noteq> None \<or> stage \<noteq> StEndMessage"
  shows "text_error (project b64 now s cn stage prop)"
proof -
  have "text_error (project_envelope s stage)"
    using assms(2)
    by (auto simp: project_envelope_def intro!: text_error_bind text_error_collect split: option.splits)
  moreover have "text_error (project_client s cn)"
    by (auto simp: project_client_def Let_def intro!: text_error_bind split: option.splits)
  moreover have "text_error (project_tls s)" "text_error (project_auth s)" "text_error (project_server s)"
    by (auto simp: project_tls_def project_auth_def project_server_def intro!: text_error_bind
        split: option.splits)
  ultimately show ?thesis using assms(1) by (auto simp: project_def OFFERED_PROPERTIES_def)
qed

lemma request_total:
  assumes "session_inv s" and "pending s = Some stage" and "set props \<subseteq> set OFFERED_PROPERTIES"
  shows "text_error (request b64 now s stage props)"
proof -
  have "state s = stage_state stage" "conn_fits (state s) (conn s)" "message_fits (state s) (message s)"
    using assms(1,2) by (auto simp: session_inv_def phase_inv_def)
  then obtain cn where cn: "conn s = Some cn" and sndr: "sender (message s) \<noteq> None \<or> stage \<noteq> StEndMessage"
    by (cases stage) auto
  have "text_error (fold_r (\<lambda>bdy prop. map_r (\<lambda>v. obj_insert (tl prop) v bdy)
      (project b64 now s cn stage prop)) b0 ps)" if "set ps \<subseteq> set OFFERED_PROPERTIES" for b0 ps
    using that
    by (induction ps arbitrary: b0) (auto intro!: text_error_bind text_error_project sndr)
  with assms(3) cn show ?thesis by (auto simp: request_def intro!: text_error_bind)
qed

end
