(* ===== verification/Edits.thy ===== *)
theory Edits
  imports Hook_Request
begin

text \<open>
  \<open>src/src/hooks.rs\<close>, the edits of a data-stage response: header and recipient slots, the
  operations \<open>set\<close>, \<open>add\<close> and \<open>delete\<close>, and their resolution into milter modifications. The
  deserialisers serde derives are arguments.
\<close>

section \<open>Data\<close>

record hdr =
  h_name :: bytes
  h_value :: bytes

record addr =
  a_address :: "bytes option"
  a_parameters :: "(bytes \<times> json) list"

datatype slot = Original nat | Added nat

record edits =
  header_changes :: "(nat \<times> bytes) list"
  header_deletes :: "nat list"
  added_headers :: "hdr option list"
  header_slots :: "slot list"
  new_from :: "addr option"
  recipient_deletes :: "nat list"
  added_recipients :: "addr option list"
  recipient_slots :: "slot list"

record set_op =
  set_path :: bytes
  set_value :: json

record add_op =
  add_path :: bytes
  add_value :: json
  add_index :: "u32 option"

record op_lists =
  ops_set :: "set_op list option"
  ops_add :: "add_op list option"
  ops_delete :: "bytes list option"

text \<open>The derived deserialisers (\<open>serde_json::from_value\<close>), \<open>None\<close> for a schema error.\<close>

record serde =
  de_operations :: "json \<Rightarrow> op_lists option"
  de_header :: "json \<Rightarrow> hdr option"
  de_address :: "json \<Rightarrow> addr option"

section \<open>Addresses and paths\<close>

definition milter_parameter :: "bytes list \<Rightarrow> bytes \<times> json \<Rightarrow> bytes list result" where
  "milter_parameter ps kv =
     (case kv of (key, value) \<Rightarrow>
        bind_r (case value of JStr s \<Rightarrow> Inr s | JNull \<Rightarrow> Inr [] | _ \<Rightarrow> Inl (Invalid ''ESMTP parameter value''))
          (\<lambda>v. if key = [] \<or> CHR ''='' \<in> set key \<or> SP \<in> set key \<or> SP \<in> set v
                then Inl (Invalid ''ESMTP parameter'')
                else Inr (ps @ [if v = [] then key else key @ CHR ''='' # v])))"

definition milter :: "addr \<Rightarrow> bool \<Rightarrow> (bytes \<times> bytes option) result" where
  "milter a allow_null =
     bind_r (case a_address a of
               Some s \<Rightarrow>
                 if s \<noteq> [] then
                   Inr (if starts_with ''<'' s \<and> ends_with ''>'' s then s else CHR ''<'' # s @ ''>'')
                 else if allow_null then Inr ''<>'' else Inl (Invalid ''recipient address'')
             | None \<Rightarrow> if allow_null then Inr ''<>'' else Inl (Invalid ''recipient address'')) (\<lambda>ad.
     bind_r (fold_r milter_parameter [] (a_parameters a)) (\<lambda>ps.
       Inr (ad, if ps \<noteq> [] then Some (join [SP] ps) else None)))"

definition array_index :: "bytes \<Rightarrow> bytes \<Rightarrow> (nat \<times> bytes) option" where
  "array_index path pre =
     (case Option.bind (strip_prefix pre path) (strip_prefix ''/'') of
        None \<Rightarrow> None
      | Some rest \<Rightarrow>
          (case (case split_once (CHR ''/'') rest of None \<Rightarrow> (rest, []) | Some p \<Rightarrow> p) of
             (index, tail) \<Rightarrow>
               if index = [] \<or> 9 < length index \<or> \<not> list_all is_ascii_digit index then None
               else map_option (\<lambda>n. (n, tail)) (parse_unsigned usize_max index)))"

definition insert_slot :: "slot list \<Rightarrow> u32 option \<Rightarrow> slot \<Rightarrow> string \<Rightarrow> slot list result" where
  "insert_slot slots index slot what =
     (case index of
        Some i \<Rightarrow>
          if unat i \<le> length slots then Inr (take (unat i) slots @ slot # drop (unat i) slots)
          else Inl (Invalid what)
      | None \<Rightarrow> Inr (slots @ [slot]))"

section \<open>Operations\<close>

definition edits_new :: "session \<Rightarrow> edits" where
  "edits_new s = \<lparr>header_changes = [], header_deletes = [], added_headers = [],
     header_slots = map Original [0..<length (headers (message s))], new_from = None,
     recipient_deletes = [], added_recipients = [],
     recipient_slots = map Original [0..<length (recipients (message s))]\<rparr>"

definition edits_is_empty :: "edits \<Rightarrow> bool" where
  "edits_is_empty e \<longleftrightarrow> header_changes e = [] \<and> header_deletes e = [] \<and> added_headers e = [] \<and>
     new_from e = None \<and> recipient_deletes e = [] \<and> added_recipients e = []"

definition edits_set :: "serde \<Rightarrow> session \<Rightarrow> edits \<Rightarrow> bytes \<Rightarrow> json \<Rightarrow> edits result" where
  "edits_set sd s e path value =
     (case array_index path ''/message/headers'' of
        Some (index, tail) \<Rightarrow>
          if length (headers (message s)) \<le> index then Inl (Invalid ''header index'')
          else (let name = fst (headers (message s) ! index) in
            bind_r
              (if tail = [] then
                 bind_r (ok_or (Invalid ''header object'') (de_header sd value)) (\<lambda>h.
                 bind_r (as_text name) (\<lambda>n.
                   if \<not> eq_ignore_ascii_case (h_name h) n
                   then Inl (Invalid ''milter cannot rename a header'')
                   else Inr (h_value h)))
               else if tail = ''value'' then
                 (case value of JStr v \<Rightarrow> Inr v | _ \<Rightarrow> Inl (Invalid ''header value''))
               else Inl (Invalid ''set outside supported update profile''))
              (\<lambda>v. Inr (e\<lparr>header_changes := header_changes e @ [(index, v)]\<rparr>)))
      | None \<Rightarrow>
          if path = ''/envelope/from'' then
            bind_r (ok_or (Invalid ''envelope address'') (de_address sd value)) (\<lambda>a.
              Inr (e\<lparr>new_from := Some a\<rparr>))
          else Inl (Invalid ''set outside supported update profile''))"

definition edits_add :: "serde \<Rightarrow> session \<Rightarrow> edits \<Rightarrow> add_op \<Rightarrow> edits result" where
  "edits_add sd s e a =
     (if add_path a = ''/message/headers'' then
        (if lim_headers (limits s) \<le> length (header_slots e)
         then Inl (Limit ''headers after modifications'')
         else bind_r (ok_or (Invalid ''header object'') (de_header sd (add_value a))) (\<lambda>h.
           bind_r (insert_slot (header_slots e) (add_index a) (Added (length (added_headers e)))
                     ''header insertion index'') (\<lambda>slots.
             Inr (e\<lparr>added_headers := added_headers e @ [Some h], header_slots := slots\<rparr>))))
      else if add_path a = ''/envelope/to'' then
        (if lim_recipients (limits s) \<le> length (recipient_slots e)
         then Inl (Limit ''recipients after modifications'')
         else bind_r (ok_or (Invalid ''envelope address'') (de_address sd (add_value a))) (\<lambda>ad.
           bind_r (insert_slot (recipient_slots e) (add_index a) (Added (length (added_recipients e)))
                     ''recipient index'') (\<lambda>slots.
             Inr (e\<lparr>added_recipients := added_recipients e @ [Some ad], recipient_slots := slots\<rparr>))))
      else Inl (Invalid ''add outside supported update profile''))"

definition remove_at :: "nat \<Rightarrow> 'a list \<Rightarrow> 'a list" where
  "remove_at i xs = take i xs @ drop (i + 1) xs"

definition delete_header :: "nat \<Rightarrow> edits \<Rightarrow> edits result" where
  "delete_header i e =
     (if length (header_slots e) \<le> i then Inl (Invalid ''header index'')
      else (let e' = e\<lparr>header_slots := remove_at i (header_slots e)\<rparr> in
        case header_slots e ! i of
          Original j \<Rightarrow> Inr (e'\<lparr>header_deletes := header_deletes e @ [j]\<rparr>)
        | Added j \<Rightarrow>
            if length (added_headers e) \<le> j then Inl (Panic ''index out of bounds'')
            else Inr (e'\<lparr>added_headers := (added_headers e)[j := None]\<rparr>)))"

definition delete_recipient :: "nat \<Rightarrow> edits \<Rightarrow> edits result" where
  "delete_recipient i e =
     (if length (recipient_slots e) \<le> i then Inl (Invalid ''recipient index'')
      else (let e' = e\<lparr>recipient_slots := remove_at i (recipient_slots e)\<rparr> in
        case recipient_slots e ! i of
          Original j \<Rightarrow> Inr (e'\<lparr>recipient_deletes := recipient_deletes e @ [j]\<rparr>)
        | Added j \<Rightarrow>
            if length (added_recipients e) \<le> j then Inl (Panic ''index out of bounds'')
            else Inr (e'\<lparr>added_recipients := (added_recipients e)[j := None]\<rparr>)))"

definition edits_delete :: "edits \<Rightarrow> bytes \<Rightarrow> edits result" where
  "edits_delete e path =
     (case array_index path ''/message/headers'' of
        Some (i, []) \<Rightarrow> delete_header i e
      | _ \<Rightarrow>
          (case array_index path ''/envelope/to'' of
             Some (i, []) \<Rightarrow> delete_recipient i e
           | _ \<Rightarrow> Inl (Invalid ''delete outside supported update profile'')))"

section \<open>Resolution into modifications\<close>

definition occurrence :: "(bytes \<times> bytes) list \<Rightarrow> nat \<Rightarrow> (bytes \<times> u32) result" where
  "occurrence hs index =
     (if length hs \<le> index then Inl (Panic ''index out of bounds'')
      else bind_r (as_text (fst (hs ! index))) (\<lambda>name.
        Inr (name, of_nat (length (filter (\<lambda>(n, _). eq_ignore_ascii_case n name) (take index hs))) + 1)))"

definition emit_change ::
  "(bytes \<times> bytes) list \<Rightarrow> nat set \<times> modification list \<Rightarrow> nat \<times> bytes option \<Rightarrow>
   (nat set \<times> modification list) result" where
  "emit_change hs acc ed =
     (case (acc, ed) of ((seen, ms), (index, value)) \<Rightarrow>
        if index \<in> seen then Inl (Invalid ''conflicting header operations'')
        else bind_r (occurrence hs index) (\<lambda>(name, k).
          Inr (insert index seen,
               ms @ [ChangeHeader k name (case value of None \<Rightarrow> [] | Some v \<Rightarrow> v)])))"

definition emit_insert ::
  "nat \<Rightarrow> hdr option list \<times> modification list \<Rightarrow> nat \<times> slot \<Rightarrow>
   (hdr option list \<times> modification list) result" where
  "emit_insert n acc ps =
     (case (acc, ps) of ((added, ms), (pos, slot)) \<Rightarrow>
        (case slot of
           Original i \<Rightarrow> Inr (added, ms)
         | Added i \<Rightarrow>
             if length added \<le> i then Inl (Panic ''index out of bounds'')
             else (case added ! i of
               None \<Rightarrow> Inl (Panic ''added header is emitted once'')
             | Some h \<Rightarrow>
                 Inr (added[i := None],
                      ms @ [if pos = n - 1 then AddHeader (h_name h) (h_value h)
                            else InsertHeader (of_nat pos) (h_name h) (h_value h)]))))"

definition sorted_edits :: "edits \<Rightarrow> (nat \<times> bytes option) list" where
  "sorted_edits e =
     sort_key (\<lambda>ed. - int (fst ed))
       (map (\<lambda>(i, v). (i, Some v)) (header_changes e) @ map (\<lambda>i. (i, None)) (header_deletes e))"

definition delete_recipient_mod :: "session \<Rightarrow> nat \<Rightarrow> modification result" where
  "delete_recipient_mod s index =
     (if length (recipients (message s)) \<le> index then Inl (Panic ''index out of bounds'')
      else map_r DeleteRecipient (as_text (address (recipients (message s) ! index))))"

definition edits_modifications :: "edits \<Rightarrow> session \<Rightarrow> modification list result" where
  "edits_modifications e s =
     bind_r (fold_r (emit_change (headers (message s))) ({}, []) (sorted_edits e)) (\<lambda>(_, changes).
     bind_r (fold_r (emit_insert (length (header_slots e))) (added_headers e, [])
               (List.enumerate 0 (header_slots e))) (\<lambda>(_, inserts).
     bind_r (case new_from e of
               None \<Rightarrow> Inr []
             | Some a \<Rightarrow> map_r (\<lambda>(ad, ps). [ChangeFrom ad ps]) (milter a True)) (\<lambda>from'.
     bind_r (collect_r (delete_recipient_mod s) (recipient_deletes e)) (\<lambda>dels.
     bind_r (collect_r (\<lambda>a. map_r (\<lambda>(ad, ps). AddRecipient ad ps) (milter a False))
               (List.map_filter id (added_recipients e))) (\<lambda>adds.
       Inr (changes @ inserts @ from' @ dels @ adds))))))"

end
