(* ===== verification/Edits_Correct.thy ===== *)
theory Edits_Correct
  imports Edits "HOL-Library.Multiset"
begin

text \<open>
  The modifications of a data-stage response have the intended effect. \<open>apply_header\<close> is the
  documented effect of a header modification on the MTA's header list (a one-based occurrence
  per name, an empty value deletes, a zero-based insertion position); applied in order to the
  original headers, the emitted modifications produce the header list the slots describe.
\<close>

section \<open>What the MTA does with a header modification\<close>

type_synonym header_list = "(bytes \<times> bytes) list"

definition stored :: "bool \<Rightarrow> bytes \<Rightarrow> bytes" where
  "stored ls v = (if ls \<and> v \<noteq> [] then SP # v else v)"

text \<open>The position of the \<open>k\<close>-th header (from one) of a name.\<close>

fun occ_index :: "bytes \<Rightarrow> nat \<Rightarrow> header_list \<Rightarrow> nat option" where
  "occ_index n k [] = None"
| "occ_index n k ((m, v) # hs) =
     (if eq_ignore_ascii_case m n
      then (if k = 1 then Some 0 else map_option Suc (occ_index n (k - 1) hs))
      else map_option Suc (occ_index n k hs))"

definition change_header :: "bool \<Rightarrow> nat \<Rightarrow> bytes \<Rightarrow> bytes \<Rightarrow> header_list \<Rightarrow> header_list" where
  "change_header ls k n v hs =
     (case occ_index n k hs of
        None \<Rightarrow> hs
      | Some i \<Rightarrow> take i hs @ (if v = [] then [] else [(n, stored ls v)]) @ drop (i + 1) hs)"

definition insert_header :: "nat \<Rightarrow> bytes \<times> bytes \<Rightarrow> header_list \<Rightarrow> header_list" where
  "insert_header i h hs = take i hs @ h # drop i hs"

fun apply_header :: "bool \<Rightarrow> modification \<Rightarrow> header_list \<Rightarrow> header_list" where
  "apply_header ls (AddHeader n v) hs = hs @ [(n, stored ls v)]"
| "apply_header ls (InsertHeader i n v) hs = insert_header (unat i) (n, stored ls v) hs"
| "apply_header ls (InsertRawHeader i n v) hs =
     insert_header (unat i) (n, if ls then v else tl v) hs"
| "apply_header ls (ChangeHeader k n v) hs = change_header ls (unat k) n v hs"
| "apply_header ls _ hs = hs"

definition apply_headers :: "bool \<Rightarrow> modification list \<Rightarrow> header_list \<Rightarrow> header_list" where
  "apply_headers ls ms hs = fold (apply_header ls) ms hs"

lemma apply_headers_simps [simp]:
  "apply_headers ls [] hs = hs"
  "apply_headers ls (m # ms) hs = apply_headers ls ms (apply_header ls m hs)"
  "apply_headers ls (ms @ ns) hs = apply_headers ls ns (apply_headers ls ms hs)"
  by (simp_all add: apply_headers_def)

section \<open>Changes and deletions, from the last header to the first\<close>

definition same_before :: "header_list \<Rightarrow> nat \<Rightarrow> nat" where
  "same_before hs i =
     length (filter (\<lambda>(n, _). eq_ignore_ascii_case n (fst (hs ! i))) (take i hs))"

lemma occ_index_at:
  "i < length hs \<Longrightarrow>
   occ_index n (length (filter (\<lambda>(m, _). eq_ignore_ascii_case m n) (take i hs)) + 1) (hs @ ts) =
     Some i" if "eq_ignore_ascii_case (fst (hs ! i)) n" for i hs n ts
  using that
proof (induction hs arbitrary: i)
  case (Cons h hs)
  obtain m v where h: "h = (m, v)" by fastforce
  show ?case
  proof (cases i)
    case 0
    with Cons.prems h show ?thesis by simp
  next
    case (Suc j)
    with Cons h show ?thesis by simp
  qed
qed simp

text \<open>The effect of a set of edits on position \<open>i\<close> of the original list.\<close>

definition edited :: "bool \<Rightarrow> header_list \<Rightarrow> (nat \<times> bytes) list \<Rightarrow> nat \<Rightarrow> header_list" where
  "edited ls hs es i =
     (case map_of es i of
        None \<Rightarrow> [hs ! i]
      | Some v \<Rightarrow> if v = [] then [] else [(fst (hs ! i), stored ls v)])"

definition change_mod :: "header_list \<Rightarrow> nat \<times> bytes \<Rightarrow> modification" where
  "change_mod hs e = ChangeHeader (of_nat (same_before hs (fst e)) + 1) (fst (hs ! fst e)) (snd e)"

lemma unat_occurrence:
  assumes "n + 1 < 2 ^ 32"
  shows "unat (of_nat n + 1 :: u32) = n + 1"
proof -
  have "(of_nat n + 1 :: u32) = word_of_nat (n + 1)" by simp
  then show ?thesis using unat_of_nat_length [OF assms] by presburger
qed

lemma same_before_le: "i < length hs \<Longrightarrow> same_before hs i + 1 \<le> length hs"
  using length_filter_le [of "\<lambda>(n, _). eq_ignore_ascii_case n (fst (hs ! i))" "take i hs"]
  by (simp add: same_before_def)

lemma apply_change_mod:
  assumes "i < m" and "m \<le> length hs" and "length hs < 2 ^ 32"
  shows "apply_header ls (change_mod hs (i, v)) (take m hs @ ts) =
    take i hs @ (if v = [] then [] else [(fst (hs ! i), stored ls v)]) @ drop (i + 1) (take m hs) @ ts"
proof -
  have "same_before hs i + 1 < 2 ^ 32" using same_before_le [of i hs] assms by linarith
  then have k: "unat (of_nat (same_before hs i) + 1 :: u32) = same_before hs i + 1"
    by (rule unat_occurrence)
  have "occ_index (fst (hs ! i)) (same_before hs i + 1) (take m hs @ ts) = Some i"
    using occ_index_at [of "take m hs" i "fst (hs ! i)" ts] assms
    by (simp add: same_before_def min_def)
  then show ?thesis
    using assms by (simp add: change_mod_def change_header_def k del: One_nat_def)
qed

lemma concat_originals: "m \<le> length hs \<Longrightarrow> concat (map (\<lambda>i. [hs ! i]) [0..<m]) = take m hs"
proof (induction m)
  case (Suc m)
  then show ?case by (simp add: take_Suc_conv_app_nth)
qed simp

lemma edited_not_in: "i \<notin> fst ` set es \<Longrightarrow> edited ls hs es i = [hs ! i]"
  using map_of_eq_None_iff [of es i] by (simp add: edited_def)

lemma concat_singletons: "concat (map (\<lambda>j. [hs ! j]) [i..<m]) = drop i (take m hs)"
  if "i \<le> m" "m \<le> length hs" for hs :: "'a list"
proof -
  have "take i hs @ concat (map (\<lambda>j. [hs ! j]) [i..<m]) = take m hs"
    using concat_originals [of m hs] concat_originals [of i hs] that
      upt_add_eq_append [of 0 i "m - i"] by simp
  then show ?thesis using that
    by (metis append_eq_conv_conj drop_take length_take min.absorb2 order_trans)
qed

lemma apply_changes:
  assumes "sorted_wrt (\<lambda>a b. fst b < fst a) es" and "\<forall>e \<in> set es. fst e < m"
    and "m \<le> length hs" and "length hs < 2 ^ 32"
  shows "apply_headers ls (map (change_mod hs) es) (take m hs @ ts) =
    concat (map (edited ls hs es) [0..<m]) @ ts"
  using assms
proof (induction es arbitrary: m ts)
  case Nil
  then show ?case using concat_originals [of m hs] by (simp add: edited_def)
next
  case (Cons e es)
  obtain i v where e: "e = (i, v)" by fastforce
  with Cons.prems have i: "i < m" and less: "\<forall>x \<in> set es. fst x < i"
    and srt: "sorted_wrt (\<lambda>a b. fst b < fst a) es" by auto
  let ?new = "if v = [] then [] else [(fst (hs ! i), stored ls v)]"
  have "apply_headers ls (map (change_mod hs) (e # es)) (take m hs @ ts) =
      apply_headers ls (map (change_mod hs) es) (take i hs @ (?new @ drop (i + 1) (take m hs) @ ts))"
    using apply_change_mod [OF i Cons.prems(3,4)] e by simp
  also have "\<dots> = concat (map (edited ls hs es) [0..<i]) @ ?new @ drop (i + 1) (take m hs) @ ts"
    using Cons.IH [OF srt less] i Cons.prems(3,4) by simp
  also have "drop (i + 1) (take m hs) = concat (map (edited ls hs (e # es)) [i + 1..<m])"
  proof -
    have "map (edited ls hs (e # es)) [i + 1..<m] = map (\<lambda>j. [hs ! j]) [i + 1..<m]"
      using less by (intro map_cong refl edited_not_in) (auto simp: e)
    then have "concat (map (edited ls hs (e # es)) [i + 1..<m]) =
        concat (map (\<lambda>j. [hs ! j]) [i + 1..<m])" by (rule arg_cong)
    also have "\<dots> = drop (i + 1) (take m hs)"
      using i Cons.prems(3) by (intro concat_singletons) auto
    finally show ?thesis by (rule sym)
  qed
  also have "?new = edited ls hs (e # es) i" by (simp add: e edited_def)
  also have "map (edited ls hs es) [0..<i] = map (edited ls hs (e # es)) [0..<i]"
    by (rule map_cong) (auto simp: e edited_def)
  finally show ?case
    using i upt_add_eq_append [of 0 i "m - i"] upt_conv_Cons [OF i] by simp
qed

section \<open>The slot invariant\<close>

fun is_original :: "slot \<Rightarrow> bool" where
  "is_original (Original i) = True"
| "is_original (Added j) = False"

text \<open>The originals that are left stand in their original order, every added entry that was not
  deleted stands exactly once. The same holds for header slots and for recipient slots.\<close>

definition slots_inv :: "nat \<Rightarrow> nat list \<Rightarrow> 'a option list \<Rightarrow> slot list \<Rightarrow> bool" where
  "slots_inv n dels added slots \<longleftrightarrow>
     filter is_original slots = map Original (filter (\<lambda>i. i \<notin> set dels) [0..<n]) \<and>
     distinct slots \<and> set dels \<subseteq> {..<n} \<and>
     (\<forall>j. Added j \<in> set slots \<longleftrightarrow> j < length added \<and> added ! j \<noteq> None)"

lemma slots_inv_new: "slots_inv n [] [] (map Original [0..<n])"
proof -
  have "filter is_original (map Original xs) = map Original xs" for xs by (induction xs) auto
  then show ?thesis by (auto simp: slots_inv_def distinct_map inj_on_def)
qed

lemma slots_inv_insert:
  assumes "slots_inv n dels added (xs @ ys)"
  shows "slots_inv n dels (added @ [Some h]) (xs @ Added (length added) # ys)"
proof -
  have "Added (length added) \<notin> set (xs @ ys)" using assms by (auto simp: slots_inv_def)
  with assms show ?thesis by (auto simp: slots_inv_def nth_append less_Suc_eq)
qed

lemma filter_Original: "filter (\<lambda>s. s \<noteq> Original i) (map Original ns) = map Original (filter (\<lambda>k. k \<noteq> i) ns)"
  by (induction ns) auto

lemma slots_inv_remove_original:
  assumes "slots_inv n dels added (xs @ Original i # ys)"
  shows "slots_inv n (dels @ [i]) added (xs @ ys)"
proof -
  let ?o = "filter is_original"
  have d: "Original i \<notin> set (xs @ ys)" using assms by (auto simp: slots_inv_def)
  have eq: "?o xs @ Original i # ?o ys = map Original (filter (\<lambda>k. k \<notin> set dels) [0..<n])"
    using assms by (simp add: slots_inv_def)
  have "?o (xs @ ys) = filter (\<lambda>s. s \<noteq> Original i) (?o xs @ Original i # ?o ys)"
    using d by (simp, intro arg_cong2 [of _ _ _ _ "(@)"] filter_cong) auto
  also have "\<dots> = map Original (filter (\<lambda>k. k \<notin> set (dels @ [i])) [0..<n])"
    unfolding eq filter_Original by (simp add: conj_commute)
  finally have o: "?o (xs @ ys) = map Original (filter (\<lambda>k. k \<notin> set (dels @ [i])) [0..<n])" .
  have "Original i \<in> set (map Original (filter (\<lambda>k. k \<notin> set dels) [0..<n]))"
    unfolding eq [symmetric] by simp
  then have "i < n" by auto
  with assms o show ?thesis by (auto simp: slots_inv_def)
qed

lemma slots_inv_remove_added:
  assumes "slots_inv n dels added (xs @ Added j # ys)"
  shows "slots_inv n dels (added[j := None]) (xs @ ys)"
proof -
  have "Added j \<notin> set (xs @ ys)" "j < length added" using assms by (auto simp: slots_inv_def)
  with assms show ?thesis by (auto simp: slots_inv_def nth_list_update)
qed

definition edits_inv :: "session \<Rightarrow> edits \<Rightarrow> bool" where
  "edits_inv s e \<longleftrightarrow>
     slots_inv (length (headers (message s))) (header_deletes e) (added_headers e) (header_slots e) \<and>
     slots_inv (length (recipients (message s))) (recipient_deletes e) (added_recipients e)
       (recipient_slots e) \<and>
     list_all (\<lambda>c. fst c < length (headers (message s))) (header_changes e)"

lemma edits_new_inv: "edits_inv s (edits_new s)"
  by (simp add: edits_inv_def edits_new_def slots_inv_new)

lemma edits_set_inv:
  assumes "edits_inv s e" and "edits_set sd s e path v = Inr e'"
  shows "edits_inv s e'"
  using assms
  by (auto simp: edits_set_def result_simps Let_def not_le edits_inv_def split: option.splits if_splits)

lemma insert_slot_Inr:
  assumes "insert_slot slots index slot what = Inr slots'"
  obtains xs ys where "slots = xs @ ys" "slots' = xs @ slot # ys"
  using assms
  by (cases index)
    (auto simp: insert_slot_def split: if_splits intro: that [of slots "[]"]
      that [of "take (unat (the index)) slots" "drop (unat (the index)) slots"])

lemma edits_add_inv:
  assumes "edits_inv s e" and "edits_add sd s e a = Inr e'"
  shows "edits_inv s e'"
proof -
  from assms(2) consider
      h slots where "insert_slot (header_slots e) (add_index a) (Added (length (added_headers e)))
          ''header insertion index'' = Inr slots"
        "e' = e\<lparr>added_headers := added_headers e @ [Some h], header_slots := slots\<rparr>"
    | ad slots where "insert_slot (recipient_slots e) (add_index a)
          (Added (length (added_recipients e))) ''recipient index'' = Inr slots"
        "e' = e\<lparr>added_recipients := added_recipients e @ [Some ad], recipient_slots := slots\<rparr>"
    by (auto simp: edits_add_def result_simps split: if_splits)
  then show ?thesis
  proof cases
    case (1 h slots)
    from 1(1) obtain xs ys where "header_slots e = xs @ ys"
      "slots = xs @ Added (length (added_headers e)) # ys" by (rule insert_slot_Inr)
    with 1(2) assms(1) show ?thesis by (auto simp: edits_inv_def intro: slots_inv_insert)
  next
    case (2 ad slots)
    from 2(1) obtain xs ys where "recipient_slots e = xs @ ys"
      "slots = xs @ Added (length (added_recipients e)) # ys" by (rule insert_slot_Inr)
    with 2(2) assms(1) show ?thesis by (auto simp: edits_inv_def intro: slots_inv_insert)
  qed
qed

lemma remove_at_split:
  assumes "i < length xs"
  obtains ys zs where "xs = ys @ xs ! i # zs" "remove_at i xs = ys @ zs"
  using assms id_take_nth_drop [OF assms] by (intro that [of "take i xs" "drop (Suc i) xs"])
    (simp_all add: remove_at_def)

lemma delete_header_inv:
  assumes "edits_inv s e" and "delete_header i e = Inr e'"
  shows "edits_inv s e'"
proof -
  have i: "i < length (header_slots e)" using assms(2) by (auto simp: delete_header_def split: if_splits)
  then obtain xs ys where xs: "header_slots e = xs @ header_slots e ! i # ys"
    "remove_at i (header_slots e) = xs @ ys" by (rule remove_at_split)
  have inv: "slots_inv (length (headers (message s))) (header_deletes e) (added_headers e)
      (xs @ header_slots e ! i # ys)" using assms(1) xs(1) by (simp add: edits_inv_def)
  show ?thesis
  proof (cases "header_slots e ! i")
    case (Original j)
    with slots_inv_remove_original [OF inv [unfolded Original]] i xs(2) assms show ?thesis
      by (auto simp: delete_header_def Let_def edits_inv_def split: if_splits)
  next
    case (Added j)
    with slots_inv_remove_added [OF inv [unfolded Added]] i xs(2) assms show ?thesis
      by (auto simp: delete_header_def Let_def edits_inv_def split: if_splits)
  qed
qed

lemma delete_recipient_inv:
  assumes "edits_inv s e" and "delete_recipient i e = Inr e'"
  shows "edits_inv s e'"
proof -
  have i: "i < length (recipient_slots e)"
    using assms(2) by (auto simp: delete_recipient_def split: if_splits)
  then obtain xs ys where xs: "recipient_slots e = xs @ recipient_slots e ! i # ys"
    "remove_at i (recipient_slots e) = xs @ ys" by (rule remove_at_split)
  have inv: "slots_inv (length (recipients (message s))) (recipient_deletes e) (added_recipients e)
      (xs @ recipient_slots e ! i # ys)" using assms(1) xs(1) by (simp add: edits_inv_def)
  show ?thesis
  proof (cases "recipient_slots e ! i")
    case (Original j)
    with slots_inv_remove_original [OF inv [unfolded Original]] i xs(2) assms show ?thesis
      by (auto simp: delete_recipient_def Let_def edits_inv_def split: if_splits)
  next
    case (Added j)
    with slots_inv_remove_added [OF inv [unfolded Added]] i xs(2) assms show ?thesis
      by (auto simp: delete_recipient_def Let_def edits_inv_def split: if_splits)
  qed
qed

lemma edits_delete_inv:
  assumes "edits_inv s e" and "edits_delete e path = Inr e'"
  shows "edits_inv s e'"
  using assms(2) delete_header_inv [OF assms(1)] delete_recipient_inv [OF assms(1)]
  by (auto simp: edits_delete_def split: option.splits list.splits)

section \<open>What is emitted\<close>

definition with_value :: "nat \<times> bytes option \<Rightarrow> nat \<times> bytes" where
  "with_value e = (fst e, case snd e of None \<Rightarrow> [] | Some v \<Rightarrow> v)"

lemma occurrence_Inr:
  "occurrence hs i = Inr (name, k) \<Longrightarrow>
   i < length hs \<and> name = fst (hs ! i) \<and> k = of_nat (same_before hs i) + 1"
  by (auto simp: occurrence_def result_simps as_text_def same_before_def split: if_splits)

lemma emit_change_step:
  "emit_change hs (seen, ms) (i, v) = Inr r \<longleftrightarrow> i \<notin> seen \<and>
   (\<exists>name k. occurrence hs i = Inr (name, k) \<and>
     r = (insert i seen, ms @ [ChangeHeader k name (case v of None \<Rightarrow> [] | Some v \<Rightarrow> v)]))"
  by (auto simp: emit_change_def result_simps)

lemma emit_insert_step:
  "emit_insert n (added, ms) (p, Original i) = Inr (added, ms)"
  "emit_insert n (added, ms) (p, Added i) = Inr r \<longleftrightarrow>
     (\<exists>h. i < length added \<and> added ! i = Some h \<and>
       r = (added[i := None], ms @ [if p = n - 1 then AddHeader (h_name h) (h_value h)
              else InsertHeader (of_nat p) (h_name h) (h_value h)]))"
  by (auto simp: emit_insert_def not_le split: option.splits)

lemma emit_changes_Inr:
  "fold_r (emit_change hs) (seen, ms) es = Inr (seen', ms') \<Longrightarrow>
   distinct (map fst es) \<and> fst ` set es \<inter> seen = {} \<and> fst ` set es \<subseteq> {..<length hs} \<and>
   ms' = ms @ map (change_mod hs) (map with_value es)"
proof (induction es arbitrary: seen ms)
  case (Cons e es)
  obtain i v where e: "e = (i, v)" by fastforce
  from Cons.prems e obtain name k where "i \<notin> seen" and oc: "occurrence hs i = Inr (name, k)"
    and rest: "fold_r (emit_change hs) (insert i seen,
      ms @ [ChangeHeader k name (case v of None \<Rightarrow> [] | Some v \<Rightarrow> v)]) es = Inr (seen', ms')"
    by (auto simp: emit_change_step result_simps)
  from Cons.IH [OF rest] occurrence_Inr [OF oc] \<open>i \<notin> seen\<close> show ?case
    by (auto simp: e change_mod_def with_value_def)
qed simp

lemma sorted_edits_descending:
  assumes "distinct (map fst (sorted_edits e))"
  shows "sorted_wrt (\<lambda>a b. fst b < fst a) (map with_value (sorted_edits e))"
proof -
  have "sorted (map (\<lambda>ed. - int (fst ed)) (sorted_edits e))" by (simp add: sorted_edits_def)
  then have le: "sorted_wrt (\<lambda>a b. fst b \<le> fst a) (sorted_edits e)"
    by (simp add: sorted_map)
  have ne: "sorted_wrt (\<lambda>a b. fst a \<noteq> fst b) (sorted_edits e)"
    using assms by (auto simp: distinct_conv_nth sorted_wrt_iff_nth_less)
  have "sorted_wrt (\<lambda>a b. fst b < fst a) (sorted_edits e)"
    unfolding sorted_wrt_iff_nth_less
  proof (intro allI impI)
    fix i j assume ij: "i < j" "j < length (sorted_edits e)"
    then have "fst (sorted_edits e ! j) \<le> fst (sorted_edits e ! i)"
      using le by (simp add: sorted_wrt_iff_nth_less)
    moreover have "fst (sorted_edits e ! i) \<noteq> fst (sorted_edits e ! j)"
      using ne ij by (simp add: sorted_wrt_iff_nth_less)
    ultimately show "fst (sorted_edits e ! j) < fst (sorted_edits e ! i)" by simp
  qed
  then show ?thesis by (simp add: sorted_wrt_map with_value_def)
qed

text \<open>The header a slot stands for.\<close>

fun slot_header :: "bool \<Rightarrow> header_list \<Rightarrow> (nat \<times> bytes) list \<Rightarrow> hdr option list \<Rightarrow> slot \<Rightarrow> bytes \<times> bytes" where
  "slot_header ls hs changes added (Original i) =
     (case map_of changes i of None \<Rightarrow> hs ! i | Some v \<Rightarrow> (fst (hs ! i), stored ls v))"
| "slot_header ls hs changes added (Added j) =
     (case added ! j of None \<Rightarrow> ([], []) | Some h \<Rightarrow> (h_name h, stored ls (h_value h)))"

lemma emit_inserts_present:
  "fold_r (emit_insert n) (added, ms) (List.enumerate p slots) = Inr (added', ms') \<Longrightarrow>
   Added j \<in> set slots \<Longrightarrow> j < length added \<and> added ! j \<noteq> None"
proof (induction slots arbitrary: added ms p)
  case (Cons s ss)
  show ?case
  proof (cases s)
    case (Original i)
    with Cons show ?thesis by (auto simp: emit_insert_step)
  next
    case (Added i)
    with Cons.prems(1) obtain h ms1 where i: "i < length added" "added ! i = Some h"
      and rest: "fold_r (emit_insert n) (added[i := None], ms1) (List.enumerate (Suc p) ss) = Inr (added', ms')"
      by (auto simp: emit_insert_step result_simps)
    show ?thesis
    proof (cases "j = i")
      case False
      with Cons.prems(2) Added have "Added j \<in> set ss" by simp
      from Cons.IH [OF rest this] False show ?thesis by simp
    qed (use i in simp)
  qed
qed simp

lemma emit_inserts_Inr:
  assumes "fold_r (emit_insert n) (added, ms) (List.enumerate p slots) = Inr (added', ms')"
    and "n = p + length slots" and "n < 2 ^ 32" and "length done' = p"
  shows "\<exists>new. ms' = ms @ new \<and>
    apply_headers ls new (done' @ map (slot_header ls hs ch added) (filter is_original slots)) =
      done' @ map (slot_header ls hs ch added) slots"
  using assms
proof (induction slots arbitrary: added ms p done')
  case Nil
  then show ?case by simp
next
  case (Cons s ss)
  let ?v = "slot_header ls hs ch added"
  show ?case
  proof (cases s)
    case (Original i)
    with Cons.prems(1) have "fold_r (emit_insert n) (added, ms) (List.enumerate (Suc p) ss) = Inr (added', ms')"
      by (simp add: emit_insert_step)
    from Cons.IH [OF this, of "done' @ [?v s]"] Cons.prems(2-4) Original show ?thesis by simp
  next
    case (Added i)
    let ?m = "\<lambda>h. if p = n - 1 then AddHeader (h_name h) (h_value h)
      else InsertHeader (of_nat p) (h_name h) (h_value h)"
    from Added Cons.prems(1) obtain h where i: "i < length added" "added ! i = Some h"
      and rest: "fold_r (emit_insert n) (added[i := None], ms @ [?m h]) (List.enumerate (Suc p) ss) =
        Inr (added', ms')"
      by (auto simp: emit_insert_step result_simps)
    have same: "map (slot_header ls hs ch (added[i := None])) xs = map ?v xs" if "set xs \<subseteq> set ss" for xs
    proof (rule map_cong [OF refl])
      fix x assume "x \<in> set xs"
      then have x: "x \<in> set ss" using that by blast
      show "slot_header ls hs ch (added[i := None]) x = ?v x"
      proof (cases x)
        case (Added j)
        with emit_inserts_present [OF rest, of j] x have "added[i := None] ! j \<noteq> None" by simp
        then have "j \<noteq> i" using i(1) by auto
        with Added show ?thesis by simp
      qed simp
    qed
    have "apply_header ls (?m h) (done' @ map ?v (filter is_original ss)) =
        (done' @ [?v s]) @ map ?v (filter is_original ss)"
    proof (cases "p = n - 1")
      case True
      moreover have "n = p + (1 + length ss)" using Cons.prems(2) by simp
      ultimately have "length ss = 0" by linarith
      then have "ss = []" by simp
      with True Added i show ?thesis by simp
    next
      case False
      have "unat (of_nat p :: u32) = p"
        using Cons.prems(2,3) by (intro unat_of_nat_length) simp
      with False Added i Cons.prems(4) show ?thesis by (simp add: insert_header_def)
    qed
    moreover from Cons.IH [OF rest, of "done' @ [?v s]"] obtain new where
      "ms' = (ms @ [?m h]) @ new"
      "apply_headers ls new ((done' @ [?v s]) @ map ?v (filter is_original ss)) =
        (done' @ [?v s]) @ map ?v ss"
      using Cons.prems(2-4) same [of "filter is_original ss"] same [of ss] by auto
    ultimately show ?thesis using Added by (intro exI [of _ "?m h # new"]) simp
  qed
qed

section \<open>The header list after the edits\<close>

lemma set_sorted_edits:
  "set (sorted_edits e) = (\<lambda>(i, v). (i, Some v)) ` set (header_changes e) \<union>
     (\<lambda>i. (i, None)) ` set (header_deletes e)"
  by (simp add: sorted_edits_def)

lemma distinct_sorted_edits:
  assumes "distinct (map fst (sorted_edits e))"
  shows "distinct (map fst (header_changes e))"
    and "i \<in> set (header_deletes e) \<Longrightarrow> i \<notin> fst ` set (header_changes e)"
proof -
  have "mset (map fst (sorted_edits e)) =
      mset (map fst (header_changes e) @ header_deletes e)"
    by (simp add: sorted_edits_def image_mset.compositionality comp_def case_prod_unfold)
  then have "distinct (map fst (header_changes e) @ header_deletes e)"
    using assms by (metis mset_eq_imp_distinct_iff)
  then show "distinct (map fst (header_changes e))"
    and "i \<in> set (header_deletes e) \<Longrightarrow> i \<notin> fst ` set (header_changes e)" by auto
qed

lemma map_of_sorted_edits:
  assumes "distinct (map fst (sorted_edits e))"
  shows "map_of (map with_value (sorted_edits e)) i =
    (if i \<in> set (header_deletes e) then Some [] else map_of (header_changes e) i)"
proof -
  have d: "distinct (map fst (map with_value (sorted_edits e)))"
    using assms by (simp add: with_value_def comp_def)
  have m: "map_of (map with_value (sorted_edits e)) i = Some w \<longleftrightarrow>
      (i, w) \<in> set (map with_value (sorted_edits e))" for w
    using d by simp
  show ?thesis
  proof (cases "i \<in> set (header_deletes e)")
    case True
    then have "(i, []) \<in> set (map with_value (sorted_edits e))"
      by (force simp: set_sorted_edits with_value_def)
    with m True show ?thesis by simp
  next
    case False
    have "(i, w) \<in> set (map with_value (sorted_edits e)) \<longleftrightarrow> (i, w) \<in> set (header_changes e)" for w
      using False by (force simp: set_sorted_edits with_value_def)
    then have "map_of (map with_value (sorted_edits e)) i = Some w \<longleftrightarrow>
        map_of (header_changes e) i = Some w" for w
      using m distinct_sorted_edits(1) [OF assms] by simp
    with False show ?thesis by (metis option.exhaust)
  qed
qed

lemma concat_edited:
  assumes "distinct (map fst (sorted_edits e))" and "\<forall>v \<in> snd ` set (header_changes e). v \<noteq> []"
  shows "concat (map (edited ls hs (map with_value (sorted_edits e))) ns) =
    map (slot_header ls hs (header_changes e) added) (map Original (filter (\<lambda>i. i \<notin> set (header_deletes e)) ns))"
proof (induction ns)
  case (Cons i ns)
  have "map_of (header_changes e) i \<noteq> Some []"
    using assms(2) by (force dest: map_of_SomeD)
  with Cons show ?case
    by (auto simp: edited_def map_of_sorted_edits [OF assms(1)] split: option.splits)
qed simp

definition header_part :: "modification \<Rightarrow> bool" where
  "header_part m = (case m of ChangeFrom a p \<Rightarrow> False | AddRecipient a p \<Rightarrow> False
     | DeleteRecipient a \<Rightarrow> False | _ \<Rightarrow> True)"

lemma apply_headers_envelope: "\<forall>m \<in> set ms. \<not> header_part m \<Longrightarrow> apply_headers ls ms hs = hs"
  by (induction ms arbitrary: hs) (auto simp: header_part_def split: modification.splits)

lemma collect_r_all:
  "collect_r f xs = Inr ys \<Longrightarrow> (\<And>x y. f x = Inr y \<Longrightarrow> P y) \<Longrightarrow> \<forall>y \<in> set ys. P y"
  by (induction xs arbitrary: ys) (auto simp: result_simps)

lemma edits_modifications_Inr:
  assumes "edits_modifications e s = Inr ms"
  obtains seen changes added' inserts from' dels adds where
    "fold_r (emit_change (headers (message s))) ({}, []) (sorted_edits e) = Inr (seen, changes)"
    "fold_r (emit_insert (length (header_slots e))) (added_headers e, [])
      (List.enumerate 0 (header_slots e)) = Inr (added', inserts)"
    "(case new_from e of None \<Rightarrow> Inr []
      | Some a \<Rightarrow> map_r (\<lambda>(ad, ps). [ChangeFrom ad ps]) (milter a True)) = Inr from'"
    "collect_r (delete_recipient_mod s) (recipient_deletes e) = Inr dels"
    "collect_r (\<lambda>a. map_r (\<lambda>(ad, ps). AddRecipient ad ps) (milter a False))
      (List.map_filter id (added_recipients e)) = Inr adds"
    "ms = changes @ inserts @ from' @ dels @ adds"
  using assms by (clarsimp simp: edits_modifications_def bind_r_Inr_iff case_prod_beta)

lemma envelope_part:
  assumes "(case new_from e of None \<Rightarrow> Inr []
      | Some a \<Rightarrow> map_r (\<lambda>(ad, ps). [ChangeFrom ad ps]) (milter a True)) = Inr from'"
    and "collect_r (delete_recipient_mod s) (recipient_deletes e) = Inr dels"
    and "collect_r (\<lambda>a. map_r (\<lambda>(ad, ps). AddRecipient ad ps) (milter a False)) as = Inr adds"
  shows "\<forall>m \<in> set (from' @ dels @ adds). \<not> header_part m"
proof -
  have "\<forall>m \<in> set from'. \<not> header_part m"
    using assms(1) by (auto simp: result_simps header_part_def split: option.splits)
  moreover have "\<forall>m \<in> set dels. \<not> header_part m"
    using assms(2) by (rule collect_r_all)
      (auto simp: delete_recipient_mod_def result_simps header_part_def split: if_splits)
  moreover have "\<forall>m \<in> set adds. \<not> header_part m"
    using assms(3) by (rule collect_r_all) (auto simp: result_simps header_part_def)
  ultimately show ?thesis by auto
qed

theorem edits_modifications_headers:
  assumes "edits_inv s e" and "edits_modifications e s = Inr ms"
    and "\<forall>v \<in> snd ` set (header_changes e). v \<noteq> []"
    and "length (headers (message s)) < 2 ^ 32" and "length (header_slots e) < 2 ^ 32"
  shows "apply_headers ls ms (headers (message s)) =
    map (slot_header ls (headers (message s)) (header_changes e) (added_headers e)) (header_slots e)"
proof -
  let ?hs = "headers (message s)" and ?es = "map with_value (sorted_edits e)"
  let ?v = "slot_header ls ?hs (header_changes e) (added_headers e)"
  from assms(2) obtain seen changes added' inserts from' dels adds where
    c: "fold_r (emit_change ?hs) ({}, []) (sorted_edits e) = Inr (seen, changes)" and
    i: "fold_r (emit_insert (length (header_slots e))) (added_headers e, [])
      (List.enumerate 0 (header_slots e)) = Inr (added', inserts)" and
    env: "\<forall>m \<in> set (from' @ dels @ adds). \<not> header_part m" and
    ms: "ms = changes @ inserts @ from' @ dels @ adds"
    by (rule edits_modifications_Inr) (use envelope_part in blast)
  have ch: "distinct (map fst (sorted_edits e))" "fst ` set (sorted_edits e) \<subseteq> {..<length ?hs}"
    "changes = map (change_mod ?hs) ?es"
    using emit_changes_Inr [OF c] by auto
  have "\<forall>x \<in> set ?es. fst x < length ?hs" using ch(2) by (auto simp: with_value_def)
  from apply_changes [OF sorted_edits_descending [OF ch(1)] this order_refl assms(4), of ls "[]"]
  have "apply_headers ls changes ?hs = concat (map (edited ls ?hs ?es) [0..<length ?hs])"
    by (simp add: ch(3))
  also have "\<dots> = map ?v (filter is_original (header_slots e))"
    using concat_edited [OF ch(1) assms(3)] assms(1) by (simp add: edits_inv_def slots_inv_def)
  finally have "apply_headers ls (changes @ inserts) ?hs = map ?v (header_slots e)"
    using emit_inserts_Inr [OF i, of "[]" ls ?hs "header_changes e"] assms(5) by auto
  then show ?thesis using apply_headers_envelope [OF env] ms by simp
qed

section \<open>No edit panics\<close>

lemma no_panic_collect_r: "(\<And>x. x \<in> set xs \<Longrightarrow> no_panic (f x)) \<Longrightarrow> no_panic (collect_r f xs)"
  by (induction xs) (auto intro!: no_panic_bind)

lemma no_panic_fold_r_all:
  "(\<And>a x. x \<in> set xs \<Longrightarrow> no_panic (f a x)) \<Longrightarrow> no_panic (fold_r f a xs)"
  by (induction xs arbitrary: a) (auto intro!: no_panic_bind)

lemma no_panic_as_text [simp]: "no_panic (as_text bs)"
  by (simp add: as_text_def)

lemma no_panic_milter [simp]: "no_panic (milter a b)"
  by (auto simp: milter_def milter_parameter_def intro!: no_panic_intros
      split: option.splits json.splits prod.splits)

lemma edits_set_no_panic: "no_panic (edits_set sd s e path v)"
  by (auto simp: edits_set_def Let_def intro!: no_panic_intros split: option.splits json.splits)

lemma edits_add_no_panic: "no_panic (edits_add sd s e a)"
  by (auto simp: edits_add_def insert_slot_def intro!: no_panic_intros split: option.splits)

lemma slots_inv_added: "slots_inv n dels added slots \<Longrightarrow> i < length slots \<Longrightarrow> slots ! i = Added j \<Longrightarrow> j < length added"
  unfolding slots_inv_def by (metis nth_mem)

lemma edits_delete_no_panic:
  assumes "edits_inv s e"
  shows "no_panic (edits_delete e path)"
proof -
  have "no_panic (delete_header i e)" for i
    using assms slots_inv_added [of _ _ "added_headers e" "header_slots e" i]
    by (fastforce simp: delete_header_def Let_def edits_inv_def not_le split: slot.splits)
  moreover have "no_panic (delete_recipient i e)" for i
    using assms slots_inv_added [of _ _ "added_recipients e" "recipient_slots e" i]
    by (fastforce simp: delete_recipient_def Let_def edits_inv_def not_le split: slot.splits)
  ultimately show ?thesis by (auto simp: edits_delete_def split: option.splits list.splits)
qed

lemma emit_change_no_panic: "fst ed < length hs \<Longrightarrow> no_panic (emit_change hs acc ed)"
  by (auto simp: emit_change_def occurrence_def intro!: no_panic_intros split: prod.splits)

lemma emit_inserts_no_panic:
  assumes "distinct slots" and "\<forall>j. Added j \<in> set slots \<longrightarrow> j < length added \<and> added ! j \<noteq> None"
  shows "no_panic (fold_r (emit_insert n) (added, ms) (List.enumerate p slots))"
  using assms
proof (induction slots arbitrary: added ms p)
  case (Cons s ss)
  show ?case
  proof (cases s)
    case (Original i)
    with Cons show ?thesis by (simp add: emit_insert_step)
  next
    case (Added i)
    with Cons.prems obtain h where "i < length added" "added ! i = Some h" by auto
    moreover have "\<forall>j. Added j \<in> set ss \<longrightarrow> j < length (added[i := None]) \<and> added[i := None] ! j \<noteq> None"
      using Cons.prems Added by (auto simp: nth_list_update)
    ultimately show ?thesis using Cons Added by (auto simp: emit_insert_def)
  qed
qed simp

lemma edits_modifications_no_panic:
  assumes "edits_inv s e"
  shows "no_panic (edits_modifications e s)"
proof -
  have "fst ed < length (headers (message s))" if "ed \<in> set (sorted_edits e)" for ed
    using assms that by (auto simp: set_sorted_edits edits_inv_def list_all_iff slots_inv_def)
  then have "no_panic (fold_r (emit_change (headers (message s))) ({}, []) (sorted_edits e))"
    by (intro no_panic_fold_r_all emit_change_no_panic)
  moreover have "no_panic (fold_r (emit_insert (length (header_slots e))) (added_headers e, [])
      (List.enumerate 0 (header_slots e)))"
    using assms by (intro emit_inserts_no_panic) (auto simp: edits_inv_def slots_inv_def)
  moreover have "no_panic (collect_r (delete_recipient_mod s) (recipient_deletes e))"
    using assms by (intro no_panic_collect_r) (auto simp: delete_recipient_mod_def edits_inv_def slots_inv_def)
  ultimately show ?thesis
    by (auto simp: edits_modifications_def intro!: no_panic_bind no_panic_collect_r split: option.splits)
qed

end
