(* ===== verification/Raw_Replacement.thy ===== *)
theory Raw_Replacement
  imports Edits_Correct
begin

text \<open>
  \<open>src/src/hooks.rs\<close>, \<open>raw_replacement\<close>: the scanner answers with a whole message, and the
  difference to the message the MTA holds becomes milter modifications. A header value is a
  slice of the raw message, kept as its start and stop offsets as the source keeps pointers;
  base64 decoding is an argument. \<open>message_bytes\<close> is set from a \<open>u32\<close>, so the bound on the
  encoded length does not overflow \<open>usize\<close>.
\<close>

section \<open>Parsing the fields\<close>

type_synonym field_slices = "(bytes \<times> nat \<times> nat) list"

definition subslice :: "'a list \<Rightarrow> nat \<Rightarrow> nat \<Rightarrow> 'a list" where
  "subslice xs i j = take (j - i) (drop i xs)"

definition line_end :: "bytes \<Rightarrow> nat \<Rightarrow> nat \<Rightarrow> nat" where
  "line_end raw off e = (if off < e \<and> raw ! (e - 1) = CR then e - 1 else e)"

text \<open>One line of the header section: a continuation extends the last value, anything else
  starts a field.\<close>

definition header_line :: "nat \<Rightarrow> bytes \<Rightarrow> nat \<Rightarrow> nat \<Rightarrow> field_slices \<Rightarrow> field_slices result" where
  "header_line max_headers raw off content_end fs =
     (let line = subslice raw off content_end in
      if line \<noteq> [] \<and> hd line \<in> {SP, HT} then
        (if fs = [] then Inl (Invalid ''orphan continuation'')
         else (case last fs of (name, start, _) \<Rightarrow>
           Inr (butlast fs @ [(name, start, content_end)])))
      else
        bind_r (ok_or (Invalid ''raw header'') (position (\<lambda>c. c = CHR '':'') line)) (\<lambda>colon.
          let name = take colon line in
          if \<not> header_name_ok name then Inl (Invalid ''raw header name'')
          else if max_headers \<le> length fs then Inl (Limit ''replacement headers'')
          else Inr (fs @ [(name, off + colon + 1, content_end)])))"

function header_fields :: "nat \<Rightarrow> bytes \<Rightarrow> nat \<Rightarrow> field_slices \<Rightarrow> (field_slices \<times> nat) result" where
  "header_fields max_headers raw off fs =
     (case position (\<lambda>c. c = LF) (drop off raw) of
        None \<Rightarrow> Inl (Invalid ''raw message headers'')
      | Some n \<Rightarrow>
          let content_end = line_end raw off (off + n) in
          if subslice raw off content_end = [] then Inr (fs, off + n + 1)
          else bind_r (header_line max_headers raw off content_end fs)
            (header_fields max_headers raw (off + n + 1)))"
  by auto

lemma position_less: "position P xs = Some n \<Longrightarrow> n < length xs"
  by (induction xs arbitrary: n) (auto split: if_splits)

termination header_fields
proof (relation "measure (\<lambda>(_, raw, off, _). length raw - off)")
  fix max_headers raw off fs n content_end x
  assume "position (\<lambda>c. c = LF) (drop off raw) = Some n"
  then have "n < length raw - off" using position_less by fastforce
  then show "((max_headers, raw, off + n + 1, x), (max_headers, raw, off, fs))
      \<in> measure (\<lambda>(_, raw, off, _). length raw - off)" by simp
qed simp

declare header_fields.simps [simp del]

section \<open>Matching the original headers\<close>

type_synonym candidates = "(bytes \<times> bytes, nat list) bmap"

definition note_original ::
  "candidates \<times> (bytes, u32) bmap \<times> u32 list \<Rightarrow> nat \<times> bytes \<times> bytes \<Rightarrow>
   candidates \<times> (bytes, u32) bmap \<times> u32 list" where
  "note_original acc h =
     (case (acc, h) of ((candidates, counts, occurrences), (i, name, value)) \<Rightarrow>
        let indices = (case map_of candidates (name, value) of None \<Rightarrow> [] | Some is \<Rightarrow> is);
            key = to_ascii_lowercase name;
            count = (case map_of counts key of None \<Rightarrow> 0 | Some c \<Rightarrow> c) + 1 in
        (bmap_insert (name, value) (indices @ [i]) candidates, bmap_insert key count counts,
         occurrences @ [count]))"

definition note_originals :: "header_list \<Rightarrow> candidates \<times> (bytes, u32) bmap \<times> u32 list" where
  "note_originals original = foldl note_original ([], [], []) (List.enumerate 0 original)"

definition nth_opt :: "'a list \<Rightarrow> nat \<Rightarrow> 'a option" where
  "nth_opt xs i = (if i < length xs then Some (xs ! i) else None)"

definition partition_point :: "('a \<Rightarrow> bool) \<Rightarrow> 'a list \<Rightarrow> nat" where
  "partition_point P xs = length (takeWhile P xs)"

definition lookup_value :: "bool \<Rightarrow> bytes \<Rightarrow> bytes option" where
  "lookup_value ls value =
     (if ls \<or> (value \<noteq> [] \<and> hd value \<in> {CR, LF}) then Some value else strip_prefix [SP] value)"

definition match_field ::
  "bool \<Rightarrow> candidates \<Rightarrow> bool list \<times> nat \<times> modification list \<Rightarrow> nat \<times> bytes \<times> bytes \<Rightarrow>
   (bool list \<times> nat \<times> modification list) result" where
  "match_field ls candidates acc field =
     (case (acc, field) of ((retained, cursor, inserted), (pos, name, value)) \<Rightarrow>
        let matched =
          Option.bind (lookup_value ls value) (\<lambda>v.
          Option.bind (map_of candidates (name, v)) (\<lambda>indices.
            nth_opt indices (partition_point (\<lambda>i. i < cursor) indices))) in
        (case matched of
           Some index \<Rightarrow>
             if length retained \<le> index then Inl (Panic ''index out of bounds'')
             else Inr (retained[index := True], index + 1, inserted)
         | None \<Rightarrow>
             bind_r (as_text name) (\<lambda>name.
             bind_r (as_text value) (\<lambda>value.
               Inr (retained, cursor, inserted @ [InsertRawHeader (of_nat pos) name value])))))"

definition delete_original ::
  "header_list \<Rightarrow> u32 list \<Rightarrow> bool list \<Rightarrow> modification list \<Rightarrow> nat \<Rightarrow> modification list result" where
  "delete_original original occurrences retained ms i =
     (if retained ! i then Inr ms
      else bind_r (as_text (fst (original ! i))) (\<lambda>name.
        Inr (ms @ [ChangeHeader (occurrences ! i) name []])))"

definition replacement_fields :: "bytes \<Rightarrow> field_slices \<Rightarrow> header_list" where
  "replacement_fields raw fs = map (\<lambda>(name, start, stop). (name, subslice raw start stop)) fs"

definition diff_message :: "session \<Rightarrow> header_list \<Rightarrow> bytes \<Rightarrow> modification list result" where
  "diff_message s fs new_body =
     (let original = headers (message s) in
      case note_originals original of (candidates, _, occurrences) \<Rightarrow>
        bind_r (fold_r (match_field (leading_space s) candidates)
            (replicate (length original) False, 0, []) (List.enumerate 0 fs))
          (\<lambda>(retained, _, inserted).
        bind_r (fold_r (delete_original original occurrences retained) []
            (rev [0..<length original])) (\<lambda>deletes.
        let result = deletes @ inserted @ (if new_body \<noteq> body (message s) then [ReplaceBody new_body] else []) in
        if lim_modifications (limits s) < length result then Inl (Limit ''replacement modifications'')
        else Inr result)))"

definition raw_replacement :: "(bytes \<Rightarrow> bytes option) \<Rightarrow> json \<Rightarrow> session \<Rightarrow> modification list result" where
  "raw_replacement b64_decode value s =
     bind_r (ok_or (Invalid ''raw message type'') (as_str value)) (\<lambda>encoded.
       if saturating_add (lim_message_bytes (limits s)) 2 div 3 * 4 < length encoded
       then Inl (Limit ''replacement message'')
       else bind_r (ok_or (Invalid ''raw message base64'') (b64_decode encoded)) (\<lambda>raw.
         if lim_message_bytes (limits s) < length raw then Inl (Limit ''replacement message'')
         else bind_r (header_fields (lim_headers (limits s)) raw 0 []) (\<lambda>(fs, body_start).
           diff_message s (replacement_fields raw fs) (drop body_start raw))))"

section \<open>The parsed fields tile the header section\<close>

definition field_bytes :: "bytes \<Rightarrow> bytes \<times> nat \<times> nat \<Rightarrow> bytes \<Rightarrow> bytes" where
  "field_bytes raw f eol = (case f of (n, i, j) \<Rightarrow> n @ CHR '':'' # subslice raw i j @ eol)"

definition tiled :: "bytes \<Rightarrow> nat \<Rightarrow> field_slices \<Rightarrow> bytes list \<Rightarrow> bool" where
  "tiled raw off fs eols \<longleftrightarrow>
     off \<le> length raw \<and> length eols = length fs \<and> set eols \<subseteq> {[LF], [CR, LF]} \<and>
     take off raw = concat (map2 (field_bytes raw) fs eols) \<and>
     (\<forall>(n, i, j) \<in> set fs. header_name_ok n) \<and>
     (fs \<noteq> [] \<longrightarrow> (case last fs of (n, i, j) \<Rightarrow> i \<le> j \<and> j \<le> off \<and> subslice raw j off = last eols))"

lemma slice_append:
  assumes "i \<le> j" and "j \<le> k"
  shows "subslice xs i j @ subslice xs j k = subslice xs i k"
proof -
  obtain a b where "j = i + a" "k = i + a + b" using assms by (auto simp: le_iff_add)
  then show ?thesis using take_add [of a b "drop i xs"] by (simp add: subslice_def add.commute)
qed

lemma take_slice: "i \<le> j \<Longrightarrow> take i xs @ subslice xs i j = take j xs"
  using slice_append [of 0 i j xs] by (simp add: subslice_def)

text \<open>A physical line: its content, and the line ending that follows it.\<close>

lemma physical_line:
  assumes "position (\<lambda>c. c = LF) (drop off raw) = Some n" and "off \<le> length raw"
  defines "ce \<equiv> line_end raw off (off + n)"
  shows "off \<le> ce" "ce \<le> off + n" "off + n + 1 \<le> length raw"
    "subslice raw ce (off + n + 1) \<in> {[LF], [CR, LF]}"
    "LF \<notin> set (subslice raw off ce)"
proof -
  from assms(1) have n: "n < length raw - off" using position_less by fastforce
  have lf: "raw ! (off + n) = LF" and before: "\<forall>i < n. raw ! (off + i) \<noteq> LF"
    using assms(1,2) n by (auto simp: position_Some_iff nth_append)
  show le: "off \<le> ce" "ce \<le> off + n" "off + n + 1 \<le> length raw"
    using n by (auto simp: ce_def line_end_def)
  show "subslice raw ce (off + n + 1) \<in> {[LF], [CR, LF]}"
  proof (cases "off < off + n \<and> raw ! (off + n - 1) = CR")
    case True
    then have "drop (off + n - 1) raw = CR # LF # drop (off + n + 1) raw"
      using n lf Cons_nth_drop_Suc [of "off + n - 1" raw] Cons_nth_drop_Suc [of "off + n" raw] by simp
    with True show ?thesis by (auto simp: ce_def line_end_def subslice_def numeral_2_eq_2)
  next
    case False
    then have "ce = off + n" by (auto simp: ce_def line_end_def)
    moreover have "drop (off + n) raw = LF # drop (off + n + 1) raw"
      using n lf Cons_nth_drop_Suc [of "off + n" raw] by simp
    ultimately show ?thesis by (simp add: subslice_def)
  qed
  show "LF \<notin> set (subslice raw off ce)"
    using before le n by (auto simp: subslice_def in_set_conv_nth)
qed

lemma header_line_Inr:
  assumes "header_line lim raw off ce fs = Inr fs'"
  obtains
    (continuation) fs0 n i j where "fs = fs0 @ [(n, i, j)]" "fs' = fs0 @ [(n, i, ce)]"
  | (field) colon where "position (\<lambda>c. c = CHR '':'') (subslice raw off ce) = Some colon"
      "header_name_ok (take colon (subslice raw off ce))" "length fs < lim"
      "fs' = fs @ [(take colon (subslice raw off ce), off + colon + 1, ce)]"
proof (cases "subslice raw off ce \<noteq> [] \<and> hd (subslice raw off ce) \<in> {SP, HT}")
  case True
  with assms have "fs \<noteq> []" by (auto simp: header_line_def Let_def split: if_splits)
  then obtain fs0 f where "fs = fs0 @ [f]" by (metis append_butlast_last_id)
  with True assms continuation show ?thesis by (cases f) (auto simp: header_line_def Let_def)
next
  case False
  with assms field show ?thesis
    by (auto simp: header_line_def Let_def result_simps not_le split: if_splits)
qed

lemma take_two_slices: "i \<le> j \<Longrightarrow> j \<le> k \<Longrightarrow> take k xs = take i xs @ subslice xs i j @ subslice xs j k"
  using take_slice [of i k xs] by (simp add: slice_append)

lemma header_line_tiled:
  assumes "tiled raw off fs eols" and pos: "position (\<lambda>c. c = LF) (drop off raw) = Some n"
    and "ce = line_end raw off (off + n)" and "header_line lim raw off ce fs = Inr fs'"
  shows "\<exists>eols'. tiled raw (off + n + 1) fs' eols'"
proof -
  let ?eol = "subslice raw ce (off + n + 1)" and ?line = "subslice raw off ce"
  have off: "off \<le> length raw" using assms(1) by (simp add: tiled_def)
  note pl = physical_line [OF pos off, folded assms(3)]
  have ext: "take (off + n + 1) raw = concat (map2 (field_bytes raw) fs eols) @ ?line @ ?eol"
    using take_two_slices [of off ce "off + n + 1" raw] pl assms(1) by (simp add: tiled_def)
  from assms(4) show ?thesis
  proof (cases rule: header_line_Inr)
    case (continuation fs0 m i j)
    with assms(1) obtain es0 l where eols: "eols = es0 @ [l]" "length es0 = length fs0"
      by (cases eols rule: rev_cases) (auto simp: tiled_def)
    with assms(1) continuation have ij: "i \<le> j" "j \<le> off" "subslice raw j off = l"
      by (auto simp: tiled_def)
    then have "subslice raw i ce = subslice raw i j @ l @ ?line"
      using pl(1) by (metis append_assoc le_trans slice_append)
    with ext eols continuation(1) have "take (off + n + 1) raw =
        concat (map2 (field_bytes raw) (fs0 @ [(m, i, ce)]) (es0 @ [?eol]))"
      by (simp add: field_bytes_def)
    then show ?thesis
      using continuation eols ij assms(1) pl by (intro exI [of _ "es0 @ [?eol]"]) (auto simp: tiled_def)
  next
    case (field colon)
    let ?name = "take colon ?line"
    from field(1) have colon: "colon < length ?line" "?line ! colon = CHR '':''"
      by (auto simp: position_Some_iff)
    then have line: "?line = ?name @ CHR '':'' # drop (colon + 1) ?line"
      by (metis Suc_eq_plus1 id_take_nth_drop)
    have "colon < ce - off" using colon(1) by (simp add: subslice_def)
    then have le: "off + colon + 1 \<le> ce" by linarith
    have "subslice raw (off + colon + 1) ce = drop (colon + 1) ?line"
      by (simp add: subslice_def drop_take add.commute add.left_commute)
    with ext line have "take (off + n + 1) raw =
        concat (map2 (field_bytes raw) (fs @ [(?name, off + colon + 1, ce)]) (eols @ [?eol]))"
      using assms(1) by (simp add: field_bytes_def tiled_def)
    then show ?thesis
      using field le assms(1) pl by (intro exI [of _ "eols @ [?eol]"]) (auto simp: tiled_def)
  qed
qed

lemma header_fields_tiled:
  assumes "header_fields lim raw off fs = Inr (fs', b)" and "tiled raw off fs eols"
  shows "\<exists>off' eols'. tiled raw off' fs' eols' \<and> off' \<le> b \<and> b \<le> length raw \<and>
    subslice raw off' b \<in> {[LF], [CR, LF]}"
  using assms
proof (induction lim raw off fs arbitrary: eols rule: header_fields.induct)
  case (1 lim raw off fs)
  from 1(2) obtain n where n: "position (\<lambda>c. c = LF) (drop off raw) = Some n"
    by (subst (asm) header_fields.simps) (auto split: option.splits)
  let ?ce = "line_end raw off (off + n)"
  have pl: "off \<le> ?ce" "?ce \<le> off + n" "off + n + 1 \<le> length raw"
    "subslice raw ?ce (off + n + 1) \<in> {[LF], [CR, LF]}"
    using physical_line [OF n] 1(3) by (auto simp: tiled_def)
  show ?case
  proof (cases "subslice raw off ?ce = []")
    case True
    with n have "header_fields lim raw off fs = Inr (fs, off + n + 1)"
      by (subst header_fields.simps) (simp add: Let_def)
    with 1(2) have r: "fs' = fs" "b = off + n + 1" by auto
    have "?ce = off" using True pl by (simp add: subslice_def)
    with 1(3) r pl show ?thesis by (intro exI [of _ off] exI [of _ eols]) auto
  next
    case False
    with 1(2) n obtain fs1 where l: "header_line lim raw off ?ce fs = Inr fs1"
      and rest: "header_fields lim raw (off + n + 1) fs1 = Inr (fs', b)"
      by (subst (asm) header_fields.simps) (auto simp: Let_def result_simps)
    from header_line_tiled [OF 1(3) n refl l] obtain eols1 where "tiled raw (off + n + 1) fs1 eols1" ..
    from 1(1) [OF n refl False l rest this] show ?thesis .
  qed
qed

end
