(* ===== verification/Raw_Match.thy ===== *)
theory Raw_Match
  imports Raw_Replacement
begin

text \<open>
  What the modifications of a whole-message replacement do: applied to the headers and the body
  the MTA holds, they produce the headers and the body of the replacement.
\<close>

section \<open>The index of the original headers\<close>

lemma enumerate_snoc: "List.enumerate n (xs @ [x]) = List.enumerate n xs @ [(n + length xs, x)]"
  by (simp add: enumerate_append_eq)

definition indices_of :: "header_list \<Rightarrow> bytes \<times> bytes \<Rightarrow> nat list" where
  "indices_of hs key = filter (\<lambda>i. hs ! i = key) [0..<length hs]"

definition name_count :: "header_list \<Rightarrow> bytes \<Rightarrow> nat" where
  "name_count hs n = length (filter (\<lambda>(m, _). to_ascii_lowercase m = n) hs)"

lemma indices_of_snoc:
  "indices_of (hs @ [h]) key = indices_of hs key @ (if h = key then [length hs] else [])"
  by (auto simp: indices_of_def nth_append intro!: filter_cong)

definition index_inv ::
  "header_list \<Rightarrow> candidates \<times> (bytes, u32) bmap \<times> u32 list \<Rightarrow> bool" where
  "index_inv hs acc \<longleftrightarrow> (case acc of (candidates, counts, occurrences) \<Rightarrow>
     bmap_invar candidates \<and> bmap_invar counts \<and>
     map_of candidates = (\<lambda>key. if indices_of hs key = [] then None else Some (indices_of hs key)) \<and>
     (\<forall>n. (case map_of counts n of None \<Rightarrow> 0 | Some c \<Rightarrow> c) = of_nat (name_count hs n)) \<and>
     occurrences = map (\<lambda>i. of_nat (same_before hs i) + 1) [0..<length hs])"

lemma name_count_snoc:
  "name_count (hs @ [(n, v)]) m = name_count hs m + (if to_ascii_lowercase n = m then 1 else 0)"
  by (simp add: name_count_def)

lemma same_before_snoc:
  "i < length hs \<Longrightarrow> same_before (hs @ [h]) i = same_before hs i"
  "same_before (hs @ [(n, v)]) (length hs) = name_count hs (to_ascii_lowercase n)"
  by (simp_all add: same_before_def nth_append name_count_def eq_ignore_ascii_case_def)

lemma note_original_inv:
  assumes "index_inv hs acc"
  shows "index_inv (hs @ [(n, v)]) (note_original acc (length hs, n, v))"
proof -
  obtain cands counts occs where acc: "acc = (cands, counts, occs)" by (metis prod_cases3)
  note inv = assms [unfolded index_inv_def acc, simplified]
  have idx: "(case map_of cands (n, v) of None \<Rightarrow> [] | Some is \<Rightarrow> is) = indices_of hs (n, v)"
    using inv by simp
  have cnt: "(case map_of counts m of None \<Rightarrow> 0 | Some c \<Rightarrow> c) = of_nat (name_count hs m)" for m
    using inv by blast
  have "map (\<lambda>i. of_nat (same_before (hs @ [(n, v)]) i) + 1 :: u32) [0..<length hs] = occs"
    using inv by (simp add: same_before_snoc)
  then show ?thesis
    using inv
    by (auto simp: index_inv_def acc note_original_def Let_def idx cnt bm.get_insert bm.invar_insert
        indices_of_snoc name_count_snoc same_before_snoc fun_eq_iff add.commute)
qed

lemma note_originals_inv: "index_inv hs (note_originals hs)"
proof (induction hs rule: rev_induct)
  case Nil
  then show ?case by (simp add: note_originals_def index_inv_def indices_of_def name_count_def)
next
  case (snoc h hs)
  have "note_originals (hs @ [h]) = note_original (note_originals hs) (length hs, h)"
    by (simp add: note_originals_def enumerate_snoc)
  with note_original_inv [OF snoc, of "fst h" "snd h"] show ?case by simp
qed

text \<open>The candidate the loop takes: the first header from the cursor on that is identical.\<close>

definition first_from :: "header_list \<Rightarrow> nat \<Rightarrow> bytes \<times> bytes \<Rightarrow> nat option" where
  "first_from hs cursor key = List.find (\<lambda>i. hs ! i = key) [cursor..<length hs]"

lemma nth_opt_partition:
  "nth_opt xs (partition_point (\<lambda>i. i < c) xs) = List.find (\<lambda>i. c \<le> i) xs" for c :: nat
  by (induction xs) (auto simp: nth_opt_def partition_point_def)

lemma find_filter: "List.find P (filter Q xs) = List.find (\<lambda>x. P x \<and> Q x) xs"
  by (induction xs) auto

lemma find_skip: "(\<And>x. x \<in> set xs \<Longrightarrow> \<not> P x) \<Longrightarrow> List.find P (xs @ ys) = List.find P ys"
  by (induction xs) auto

lemma find_indices: "List.find (\<lambda>i. c \<le> i) (indices_of hs key) = first_from hs c key"
proof (cases "c \<le> length hs")
  case True
  then have split: "[0..<length hs] = [0..<c] @ [c..<length hs]"
    using upt_add_eq_append [of 0 c "length hs - c"] by simp
  have "List.find (\<lambda>i. c \<le> i \<and> hs ! i = key) [0..<length hs] =
      List.find (\<lambda>i. c \<le> i \<and> hs ! i = key) [c..<length hs]"
    unfolding split by (rule find_skip) simp
  also have "\<dots> = first_from hs c key"
    unfolding first_from_def by (rule find_cong) auto
  finally show ?thesis by (simp add: indices_of_def find_filter)
next
  case False
  then show ?thesis by (auto simp: indices_of_def first_from_def find_None_iff)
qed

lemma first_from_Some:
  "first_from hs c key = Some i \<Longrightarrow> c \<le> i \<and> i < length hs \<and> hs ! i = key"
  by (auto simp: first_from_def find_Some_iff)

lemma first_from_here: "c < length hs \<Longrightarrow> first_from hs c (hs ! c) = Some c"
  by (simp add: first_from_def upt_conv_Cons)

lemma candidates_lookup:
  assumes "note_originals hs = (candidates, counts, occurrences)"
  shows "Option.bind (map_of candidates key)
      (\<lambda>indices. nth_opt indices (partition_point (\<lambda>i. i < c) indices)) = first_from hs c key"
  using note_originals_inv [of hs] assms find_indices [of c hs key]
  by (auto simp: index_inv_def nth_opt_partition)

section \<open>Matching\<close>

text \<open>A header value as the milter protocol carries it: without the leading-space option the
  MTA keeps one space after the colon to itself.\<close>

definition wire_value :: "bool \<Rightarrow> bytes \<Rightarrow> bytes" where
  "wire_value ls v = (if ls then v else case strip_prefix [SP] v of None \<Rightarrow> v | Some r \<Rightarrow> r)"

definition kept :: "header_list \<Rightarrow> bool list \<Rightarrow> nat \<Rightarrow> header_list" where
  "kept hs r c = map ((!) hs) (filter ((!) r) [c..<length hs])"

lemma lookup_value_wire: "lookup_value ls v = Some w \<Longrightarrow> w = wire_value ls v"
  by (cases v) (auto simp: lookup_value_def wire_value_def split: if_splits)

lemma raw_frames_wire:
  "is_ok (frames (InsertRawHeader i n v) ls) \<Longrightarrow> (if ls then v else tl v) = wire_value ls v"
  by (auto simp: is_ok_iff raw_header_frames_def result_simps wire_value_def)

lemma match_field_cases:
  assumes "match_field ls cands (r, c, ins) (p, n, v) = Inr (r1, c1, ins1)"
    and "note_originals hs = (cands, counts, occs)"
  obtains
    (matched) i where "c \<le> i" "i < length hs" "hs ! i = (n, wire_value ls v)" "i < length r"
      "r1 = r[i := True]" "c1 = i + 1" "ins1 = ins"
  | (inserted) "r1 = r" "c1 = c" "ins1 = ins @ [InsertRawHeader (of_nat p) n v]"
proof (cases "Option.bind (lookup_value ls v) (\<lambda>w. first_from hs c (n, w))")
  case None
  with assms inserted show ?thesis
    by (auto simp: match_field_def Let_def candidates_lookup [OF assms(2)] result_simps as_text_def
        split: if_splits)
next
  case (Some i)
  then obtain w where "lookup_value ls v = Some w" "first_from hs c (n, w) = Some i"
    by (auto simp: bind_eq_Some_conv)
  with assms(1) matched show ?thesis
    using first_from_Some [of hs c "(n, w)" i] lookup_value_wire [of ls v w]
    by (auto simp: match_field_def Let_def candidates_lookup [OF assms(2)] not_le split: if_splits)
qed

lemma match_fields_retained:
  assumes "fold_r (match_field ls cands) (r, c, ins) fs = Inr (r', c', ins')"
    and "note_originals hs = (cands, counts, occs)"
  shows "length r' = length r" and "i < c \<Longrightarrow> r' ! i = r ! i"
  using assms
proof (induction fs arbitrary: r c ins)
  case (Cons f fs)
  obtain p n v where f: "f = (p, n, v)" by (metis prod_cases3)
  { case 1
    then obtain r1 c1 ins1 where m: "match_field ls cands (r, c, ins) (p, n, v) = Inr (r1, c1, ins1)"
      and rest: "fold_r (match_field ls cands) (r1, c1, ins1) fs = Inr (r', c', ins')"
      by (auto simp: f result_simps)
    from m assms(2) show ?case
      by (cases rule: match_field_cases) (use Cons.IH(1) [OF rest assms(2)] in auto) }
  { case 2
    then obtain r1 c1 ins1 where m: "match_field ls cands (r, c, ins) (p, n, v) = Inr (r1, c1, ins1)"
      and rest: "fold_r (match_field ls cands) (r1, c1, ins1) fs = Inr (r', c', ins')"
      by (auto simp: f result_simps)
    from m assms(2) show ?case
      by (cases rule: match_field_cases) (use Cons.IH(2) [OF _ rest assms(2)] 2 in auto) }
qed auto

lemma kept_skip: "(\<And>i. c \<le> i \<Longrightarrow> i < d \<Longrightarrow> \<not> r ! i) \<Longrightarrow> c \<le> d \<Longrightarrow> d \<le> length hs \<Longrightarrow> kept hs r c = kept hs r d"
proof -
  assume none: "\<And>i. c \<le> i \<Longrightarrow> i < d \<Longrightarrow> \<not> r ! i" and le: "c \<le> d" "d \<le> length hs"
  have "[c..<length hs] = [c..<d] @ [d..<length hs]"
    using le upt_add_eq_append [of c d "length hs - d"] by simp
  moreover have "filter ((!) r) [c..<d] = []" using none by auto
  ultimately show ?thesis by (simp add: kept_def)
qed

lemma kept_here: "c < length hs \<Longrightarrow> r ! c \<Longrightarrow> kept hs r c = hs ! c # kept hs r (c + 1)"
  by (simp add: kept_def upt_conv_Cons)

lemma match_fields_apply:
  assumes "fold_r (match_field ls cands) (r, c, ins) (List.enumerate p fs) = Inr (r', c', ins')"
    and "note_originals hs = (cands, counts, occs)"
    and "length r = length hs" and "\<And>i. c \<le> i \<Longrightarrow> i < length hs \<Longrightarrow> \<not> r ! i"
    and "length done' = p" and "p + length fs < 2 ^ 32"
  shows "\<exists>new. ins' = ins @ new \<and> ((\<forall>m \<in> set new. is_ok (frames m ls)) \<longrightarrow>
    apply_headers ls new (done' @ kept hs r' c) = done' @ map (\<lambda>(n, v). (n, wire_value ls v)) fs)"
  using assms(1,3-6)
proof (induction fs arbitrary: r c ins p done')
  case Nil
  then have "filter ((!) r) [c..<length hs] = []" by auto
  with Nil show ?case by (simp add: kept_def)
next
  case (Cons f fs)
  obtain n v where f: "f = (n, v)" by fastforce
  from Cons.prems(1) obtain r1 c1 ins1 where
    m: "match_field ls cands (r, c, ins) (p, n, v) = Inr (r1, c1, ins1)" and
    rest: "fold_r (match_field ls cands) (r1, c1, ins1) (List.enumerate (Suc p) fs) = Inr (r', c', ins')"
    by (auto simp: f result_simps)
  let ?h = "(n, wire_value ls v)"
  have IH: "\<exists>new. ins' = ins1 @ new \<and> ((\<forall>m \<in> set new. is_ok (frames m ls)) \<longrightarrow>
      apply_headers ls new ((done' @ [?h]) @ kept hs r' c1) =
        (done' @ [?h]) @ map (\<lambda>(n, v). (n, wire_value ls v)) fs)"
    if "length r1 = length hs" "\<And>i. c1 \<le> i \<Longrightarrow> i < length hs \<Longrightarrow> \<not> r1 ! i"
    using Cons.IH [OF rest that, of "done' @ [?h]"] Cons.prems(4,5) by simp
  note keep = match_fields_retained [OF rest assms(2)]
  from m assms(2) show ?case
  proof (cases rule: match_field_cases)
    case (matched i)
    have none: "\<not> r' ! j" if "c \<le> j" "j < i" for j
      using keep(2) [of j] that matched Cons.prems(3) [of j] by simp
    have "r' ! i" using keep(2) [of i] matched by simp
    then have "kept hs r' c = ?h # kept hs r' c1"
      using kept_skip [of c i r' hs] kept_here [of i hs r'] none matched by simp
    with IH matched Cons.prems(2,3) f show ?thesis by simp
  next
    case inserted
    have "unat (of_nat p :: u32) = p" using Cons.prems(5) by (intro unat_of_nat_length) simp
    with Cons.prems(4) have ap: "is_ok (frames (InsertRawHeader (of_nat p) n v) ls) \<Longrightarrow>
        apply_header ls (InsertRawHeader (of_nat p) n v) (done' @ kept hs r' c) =
          (done' @ [?h]) @ kept hs r' c"
      using raw_frames_wire [of "of_nat p" n v ls] by (simp add: insert_header_def)
    from IH inserted Cons.prems(2,3) obtain new where
      "ins' = ins @ InsertRawHeader (of_nat p) n v # new"
      "(\<forall>m \<in> set new. is_ok (frames m ls)) \<longrightarrow>
        apply_headers ls new ((done' @ [?h]) @ kept hs r' c) =
          (done' @ [?h]) @ map (\<lambda>(n, v). (n, wire_value ls v)) fs" by auto
    with ap f show ?thesis by (intro exI [of _ "InsertRawHeader (of_nat p) n v # new"]) auto
  qed
qed

section \<open>Deleting what was not matched\<close>

lemma delete_original_Inr:
  assumes "delete_original hs occs r ms i = Inr ms'" and "i < length hs"
    and "occs = map (\<lambda>i. of_nat (same_before hs i) + 1) [0..<length hs]"
  shows "ms' = ms @ (if r ! i then [] else [change_mod hs (i, [])])"
  using assms by (auto simp: delete_original_def result_simps as_text_def change_mod_def split: if_splits)

lemma delete_originals_Inr:
  assumes "fold_r (delete_original hs occs r) ms is = Inr ms'"
    and "occs = map (\<lambda>i. of_nat (same_before hs i) + 1) [0..<length hs]"
    and "set is \<subseteq> {..<length hs}"
  shows "ms' = ms @ map (change_mod hs) (map (\<lambda>i. (i, [])) (filter (\<lambda>i. \<not> r ! i) is))"
  using assms(1,3)
proof (induction "is" arbitrary: ms)
  case (Cons i "is")
  then obtain ms1 where s: "delete_original hs occs r ms i = Inr ms1"
    and rest: "fold_r (delete_original hs occs r) ms1 is = Inr ms'"
    by (auto simp: result_simps)
  have "ms1 = ms @ (if r ! i then [] else [change_mod hs (i, [])])"
    using delete_original_Inr [OF s _ assms(2)] Cons.prems(2) by simp
  with Cons.IH [OF rest] Cons.prems(2) show ?case by simp
qed simp

lemma delete_originals_apply:
  assumes "length hs < 2 ^ 32"
  shows "apply_headers ls (map (change_mod hs)
      (map (\<lambda>i. (i, [])) (filter (\<lambda>i. \<not> r ! i) (rev [0..<length hs])))) hs = kept hs r 0"
proof -
  let ?es = "map (\<lambda>i. (i, [] :: bytes)) (filter (\<lambda>i. \<not> r ! i) (rev [0..<length hs]))"
  have "sorted_wrt (\<lambda>a b. b < a) (rev [0..<length hs])" by (simp add: sorted_wrt_rev sorted_wrt_upt)
  then have "sorted_wrt (\<lambda>a b. fst b < fst a) ?es"
    by (simp add: sorted_wrt_map sorted_wrt_filter)
  moreover have "\<forall>e \<in> set ?es. fst e < length hs" by auto
  ultimately have "apply_headers ls (map (change_mod hs) ?es) hs =
      concat (map (edited ls hs ?es) [0..<length hs])"
    using apply_changes [of ?es "length hs" hs ls "[]"] assms by simp
  also have "\<dots> = concat (map (\<lambda>i. if r ! i then [hs ! i] else []) [0..<length hs])"
  proof (intro arg_cong [of _ _ concat] map_cong refl)
    fix i assume "i \<in> set [0..<length hs]"
    then show "edited ls hs ?es i = (if r ! i then [hs ! i] else [])"
      by (cases "r ! i") (auto simp: edited_def map_of_map_restrict restrict_map_def edited_not_in)
  qed
  also have "\<dots> = kept hs r 0"
  proof -
    have "concat (map (\<lambda>i. if r ! i then [hs ! i] else []) is) = map ((!) hs) (filter ((!) r) is)" for "is"
      by (induction "is") auto
    then show ?thesis by (simp add: kept_def)
  qed
  finally show ?thesis .
qed

section \<open>The message after the replacement\<close>

fun apply_body :: "modification \<Rightarrow> bytes \<Rightarrow> bytes" where
  "apply_body (ReplaceBody b) old = b"
| "apply_body _ old = old"

lemma apply_body_keep: "\<forall>m \<in> set ms. \<forall>b. m \<noteq> ReplaceBody b \<Longrightarrow> fold apply_body ms old = old"
proof (induction ms arbitrary: old)
  case (Cons m ms)
  then have "apply_body m old = old" by (cases m) auto
  with Cons show ?case by simp
qed simp

lemma match_fields_raw:
  assumes "fold_r (match_field ls cands) (r, c, []) fs = Inr (r', c', ins)"
  shows "\<forall>m \<in> set ins. \<exists>i n v. m = InsertRawHeader i n v"
proof -
  let ?P = "\<lambda>acc :: bool list \<times> nat \<times> modification list.
    \<forall>m \<in> set (snd (snd acc)). \<exists>i n v. m = InsertRawHeader i n v"
  have "?P (r', c', ins)"
    using assms by (rule fold_r_invariant)
      (auto simp: match_field_def Let_def result_simps split: option.splits if_splits prod.splits)
  then show ?thesis by simp
qed

lemma diff_message_Inr:
  assumes "diff_message s fs new_body = Inr ms" and "\<forall>m \<in> set ms. is_ok (frames m (leading_space s))"
    and "length (headers (message s)) < 2 ^ 32" and "length fs < 2 ^ 32"
  shows "apply_headers (leading_space s) ms (headers (message s)) =
      map (\<lambda>(n, v). (n, wire_value (leading_space s) v)) fs"
    and "fold apply_body ms (body (message s)) = new_body"
    and "length ms \<le> lim_modifications (limits s)"
proof -
  let ?hs = "headers (message s)" and ?ls = "leading_space s"
  obtain cands counts occs where idx: "note_originals ?hs = (cands, counts, occs)" by (metis prod_cases3)
  from assms(1) obtain r c ins dels where
    match: "fold_r (match_field ?ls cands) (replicate (length ?hs) False, 0, []) (List.enumerate 0 fs)
      = Inr (r, c, ins)" and
    del: "fold_r (delete_original ?hs occs r) [] (rev [0..<length ?hs]) = Inr dels" and
    ms: "ms = dels @ ins @ (if new_body \<noteq> body (message s) then [ReplaceBody new_body] else [])" and
    lim: "length ms \<le> lim_modifications (limits s)"
    by (auto simp: diff_message_def idx Let_def result_simps split: if_splits)
  have occs: "occs = map (\<lambda>i. of_nat (same_before ?hs i) + 1) [0..<length ?hs]"
    using note_originals_inv [of ?hs] idx by (simp add: index_inv_def)
  have dels: "dels = map (change_mod ?hs) (map (\<lambda>i. (i, [])) (filter (\<lambda>i. \<not> r ! i) (rev [0..<length ?hs])))"
    using delete_originals_Inr [OF del occs] by (simp add: atLeast0LessThan)
  from match_fields_apply [OF match idx, of "[]"] assms(2,4)
  have new: "apply_headers ?ls ins (kept ?hs r 0) = map (\<lambda>(n, v). (n, wire_value ?ls v)) fs"
    by (auto simp: ms)
  show "apply_headers ?ls ms ?hs = map (\<lambda>(n, v). (n, wire_value ?ls v)) fs"
    using delete_originals_apply [OF assms(3), of ?ls r] new by (simp add: ms dels)
  have "fold apply_body dels b = b" for b
    by (rule apply_body_keep) (auto simp: dels change_mod_def)
  moreover have "fold apply_body ins b = b" for b
    using match_fields_raw [OF match] by (intro apply_body_keep) auto
  ultimately show "fold apply_body ms (body (message s)) = new_body" by (auto simp: ms)
  show "length ms \<le> lim_modifications (limits s)" by (rule lim)
qed

lemma header_line_length:
  "header_line lim raw off ce fs = Inr fs' \<Longrightarrow> length fs \<le> lim \<Longrightarrow> length fs' \<le> lim"
  by (erule header_line_Inr) auto

lemma header_fields_length:
  "header_fields lim raw off fs = Inr (fs', b) \<Longrightarrow> length fs \<le> lim \<Longrightarrow> length fs' \<le> lim"
proof (induction lim raw off fs rule: header_fields.induct)
  case (1 lim raw off fs)
  from 1(2) obtain n where n: "position (\<lambda>c. c = LF) (drop off raw) = Some n"
    by (subst (asm) header_fields.simps) (auto split: option.splits)
  let ?ce = "line_end raw off (off + n)"
  show ?case
  proof (cases "subslice raw off ?ce = []")
    case True
    with n have "header_fields lim raw off fs = Inr (fs, off + n + 1)"
      by (subst header_fields.simps) (simp add: Let_def)
    with 1(2,3) show ?thesis by simp
  next
    case False
    with 1(2) n obtain fs1 where l: "header_line lim raw off ?ce fs = Inr fs1"
      and rest: "header_fields lim raw (off + n + 1) fs1 = Inr (fs', b)"
      by (subst (asm) header_fields.simps) (auto simp: Let_def result_simps)
    from 1(1) [OF n refl False l rest] header_line_length [OF l 1(3)] show ?thesis .
  qed
qed

definition field_text :: "bytes \<times> bytes \<Rightarrow> bytes \<Rightarrow> bytes" where
  "field_text f eol = fst f @ CHR '':'' # snd f @ eol"

lemma field_text_slices:
  "concat (map2 (field_bytes raw) fs eols) = concat (map2 field_text (replacement_fields raw fs) eols)"
  by (induction fs eols rule: list_induct2')
    (auto simp: field_bytes_def field_text_def replacement_fields_def split: prod.splits)

definition is_message_of :: "bytes \<Rightarrow> header_list \<Rightarrow> bytes \<Rightarrow> bool" where
  "is_message_of raw fs new_body \<longleftrightarrow> (\<exists>eols blank.
     length eols = length fs \<and> set (blank # eols) \<subseteq> {[LF], [CR, LF]} \<and>
     raw = concat (map2 field_text fs eols) @ blank @ new_body \<and>
     (\<forall>(n, v) \<in> set fs. header_name_ok n))"

lemma header_fields_message:
  assumes "header_fields lim raw 0 [] = Inr (fs, b)"
  shows "is_message_of raw (replacement_fields raw fs) (drop b raw)"
proof -
  have "tiled raw 0 [] []" by (simp add: tiled_def)
  from header_fields_tiled [OF assms this] obtain off eols where t: "tiled raw off fs eols"
    and off: "off \<le> b" "b \<le> length raw" "subslice raw off b \<in> {[LF], [CR, LF]}" by blast
  have "raw = take off raw @ subslice raw off b @ drop b raw"
    using take_slice [OF off(1), of raw] append_take_drop_id [of b raw] by (metis append_assoc)
  then have "raw = concat (map2 field_text (replacement_fields raw fs) eols) @ subslice raw off b @ drop b raw"
    using t field_text_slices [of raw fs eols] by (simp add: tiled_def)
  with t off show ?thesis
    unfolding is_message_of_def
    by (intro exI [of _ eols] exI [of _ "subslice raw off b"]) (auto simp: tiled_def replacement_fields_def)
qed

lemma raw_replacement_Inr:
  assumes "raw_replacement b64d value s = Inr ms"
  obtains encoded raw fs b where "value = JStr encoded" "b64d encoded = Some raw"
    "length raw \<le> lim_message_bytes (limits s)"
    "header_fields (lim_headers (limits s)) raw 0 [] = Inr (fs, b)"
    "diff_message s (replacement_fields raw fs) (drop b raw) = Inr ms"
  using assms
  by (cases "value")
    (auto simp: raw_replacement_def result_simps ok_or_Inr_iff split: if_splits prod.splits)

lemma raw_replacement_effect:
  assumes "raw_replacement b64d value s = Inr ms" and "\<forall>m \<in> set ms. is_ok (frames m (leading_space s))"
    and "length (headers (message s)) < 2 ^ 32" and "lim_headers (limits s) < 2 ^ 32"
  shows "\<exists>encoded raw fs new_body. value = JStr encoded \<and> b64d encoded = Some raw \<and>
    is_message_of raw fs new_body \<and>
    apply_headers (leading_space s) ms (headers (message s)) =
      map (\<lambda>(n, v). (n, wire_value (leading_space s) v)) fs \<and>
    fold apply_body ms (body (message s)) = new_body"
proof -
  from assms(1) obtain encoded raw fs b where
    v: "value = JStr encoded" "b64d encoded = Some raw" and
    h: "header_fields (lim_headers (limits s)) raw 0 [] = Inr (fs, b)" and
    d: "diff_message s (replacement_fields raw fs) (drop b raw) = Inr ms"
    by (rule raw_replacement_Inr)
  have "length (replacement_fields raw fs) < 2 ^ 32"
    using header_fields_length [OF h] assms(4) by (simp add: replacement_fields_def)
  with v header_fields_message [OF h] diff_message_Inr [OF d assms(2,3)] show ?thesis by blast
qed

end
