(* ===== verification/Raw_Identity.thy ===== *)
theory Raw_Identity
  imports Raw_Match
begin

text \<open>
  A scanner that answers with the very message it was sent changes nothing: parsing the raw
  form of the session's message gives back its headers, every one of them is matched, and no
  modification is emitted.
\<close>

section \<open>Parsing a rendered header\<close>

text \<open>A value whose line feeds are all followed by a space or a tab.\<close>

fun folds :: "bytes \<Rightarrow> bool" where
  "folds [] = True"
| "folds (c # cs) \<longleftrightarrow> (c = LF \<longrightarrow> wsp_next cs) \<and> folds cs"

lemma folds_tail: "folds (xs @ LF # ys) \<Longrightarrow> wsp_next ys \<and> folds ys"
  by (induction xs) auto

lemma position_LF:
  "LF \<notin> set xs \<Longrightarrow> position (\<lambda>c. c = LF) (xs @ LF # ys) = Some (length xs)"
  by (rule position_append) auto

lemma subslice_prefix: "drop off raw = xs @ ys \<Longrightarrow> subslice raw off (off + length xs) = xs"
  by (simp add: subslice_def)

lemma nth_of_drop: "drop off raw = xs @ ys \<Longrightarrow> i < length xs \<Longrightarrow> off \<le> length raw \<Longrightarrow> raw ! (off + i) = xs ! i"
  by (metis nth_append nth_drop)

text \<open>One line ended by CR LF, and one ended inside a folded value.\<close>

lemma line_end_crlf:
  "drop off raw = xs @ CR # LF # ys \<Longrightarrow> off \<le> length raw \<Longrightarrow>
   line_end raw off (off + length (xs @ [CR])) = off + length xs"
  using nth_of_drop [of off raw "xs @ [CR]" "LF # ys" "length xs"] by (simp add: line_end_def)

lemma line_end_nonempty:
  assumes "0 < k" and "raw ! off \<noteq> CR"
  shows "off < line_end raw off (off + k)"
  using assms by (cases "k = 1") (auto simp: line_end_def)

lemma subslice_hd: "drop off raw = c # xs \<Longrightarrow> off < ce \<Longrightarrow> subslice raw off ce = c # take (ce - off - 1) xs"
  by (simp add: subslice_def take_Cons')

lemma header_fields_continuation:
  assumes "position (\<lambda>c. c = LF) (drop off raw) = Some k" and "drop off raw = c # xs" and "c \<in> {SP, HT}"
  shows "header_fields lim raw off (fs @ [(n, i, j)]) =
    header_fields lim raw (off + k + 1) (fs @ [(n, i, line_end raw off (off + k))])"
proof -
  have "raw ! off = c" using assms(2) by (metis hd_drop_conv_nth list.sel(1) drop_eq_Nil2 leI list.distinct(1))
  moreover have "0 < k" using assms by (cases k) (auto simp: position_Some_iff)
  ultimately have "off < line_end raw off (off + k)" using assms(3) by (intro line_end_nonempty) auto
  from subslice_hd [OF assms(2) this] assms show ?thesis
    by (subst header_fields.simps) (simp add: Let_def header_line_def)
qed

lemma drop_further: "drop off raw = xs @ ys \<Longrightarrow> drop (off + length xs) raw = ys"
  by (metis add.commute append_eq_conv_conj drop_drop)

lemma continuation_lines:
  assumes "drop off raw = w @ CR # LF # rest" and "off \<le> length raw" and "folds w" and "wsp_next w"
  shows "header_fields lim raw off (fs @ [(n, i, j)]) =
    header_fields lim raw (off + length w + 2) (fs @ [(n, i, off + length w)])"
  using assms
proof (induction "length w" arbitrary: w off j rule: less_induct)
  case less
  from less.prems(4) obtain c cs where w: "w = c # cs" "c \<in> {SP, HT}"
    by (auto simp: wsp_next_def split: list.splits)
  show ?case
  proof (cases "LF \<in> set w")
    case False
    then have "position (\<lambda>c. c = LF) (drop off raw) = Some (length (w @ [CR]))"
      using position_LF [of "w @ [CR]" rest] less.prems(1) by simp
    from header_fields_continuation [OF this, of c "cs @ CR # LF # rest"] less.prems w
      line_end_crlf [OF less.prems(1,2)] show ?thesis by simp
  next
    case True
    then obtain xs ys where split: "w = xs @ LF # ys" "LF \<notin> set xs" by (meson split_list_first)
    have "position (\<lambda>c. c = LF) (drop off raw) = Some (length xs)"
      using position_LF [OF split(2)] less.prems(1) split(1) by simp
    from header_fields_continuation [OF this, of c "cs @ CR # LF # rest"] less.prems(1) w
    have first: "header_fields lim raw off (fs @ [(n, i, j)]) = header_fields lim raw (off + length xs + 1)
        (fs @ [(n, i, line_end raw off (off + length xs))])" by simp
    have d: "drop (off + length xs + 1) raw = ys @ CR # LF # rest"
      using drop_further [of off raw "xs @ [LF]" "ys @ CR # LF # rest"] less.prems(1) split(1) by simp
    then have "off + length xs + 1 \<le> length raw" by (metis append_is_Nil_conv drop_all leI less_imp_le list.distinct(1))
    from less.hyps [OF _ d this] folds_tail [of xs ys] less.prems(3) split(1) first show ?thesis
      by (simp add: add.assoc)
  qed
qed

lemma name_line:
  assumes "position (\<lambda>c. c = LF) (drop off raw) = Some k" and "drop off raw = n @ CHR '':'' # xs"
    and "header_name_ok n" and "length fs < lim" and "off \<le> length raw"
  shows "header_fields lim raw off fs = header_fields lim raw (off + k + 1)
    (fs @ [(n, off + length n + 1, line_end raw off (off + k))])"
proof -
  let ?ce = "line_end raw off (off + k)"
  have nm: "n \<noteq> []" "\<forall>c \<in> set n. 33 \<le> ord c \<and> c \<noteq> CHR '':''"
    using assms(3) by (auto simp: header_name_ok_def list_all_iff)
  have at: "i < length (n @ [CHR '':'']) \<Longrightarrow> raw ! (off + i) = (n @ [CHR '':'']) ! i" for i
    using nth_of_drop [of off raw "n @ [CHR '':'']" xs i] assms(2,5) by simp
  have not: "c \<noteq> LF \<and> c \<noteq> CR \<and> c \<noteq> SP \<and> c \<noteq> HT" if "c \<in> set (n @ [CHR '':''])" for c
    using that nm(2) by fastforce
  have lf: "raw ! (off + k) = LF" using assms(1,5) by (auto simp: position_Some_iff)
  have k: "length n < k"
    using not [of "(n @ [CHR '':'']) ! k"] at [of k] lf by (metis length_append_singleton linorder_not_less nth_mem less_Suc_eq_le)
  have ce: "off + length n + 1 \<le> ?ce"
  proof (cases "k = length n + 1")
    case True
    then have "raw ! (off + k - 1) = CHR '':''" using at [of "length n"] by simp
    then show ?thesis using True by (simp add: line_end_def)
  qed (use k in \<open>auto simp: line_end_def\<close>)
  have line: "subslice raw off ?ce = n @ CHR '':'' # take (?ce - off - length n - 1) xs"
    using ce by (simp add: subslice_def assms(2) take_Cons')
  have "position (\<lambda>c. c = CHR '':'') (subslice raw off ?ce) = Some (length n)"
    unfolding line using nm(2) by (intro position_append) auto
  moreover have "hd (subslice raw off ?ce) \<notin> {SP, HT}"
    using line nm(1) not [of "hd n"] by simp
  ultimately show ?thesis
    using line assms by (subst header_fields.simps) (simp add: Let_def header_line_def)
qed

lemma parse_field:
  assumes "drop off raw = n @ CHR '':'' # v @ CR # LF # rest" and "off \<le> length raw"
    and "header_name_ok n" and "folds v" and "length fs < lim"
  shows "header_fields lim raw off fs = header_fields lim raw (off + length n + 1 + length v + 2)
    (fs @ [(n, off + length n + 1, off + length n + 1 + length v)])"
proof -
  have nlf: "LF \<notin> set (n @ [CHR '':''])"
    using assms(3) by (force simp: header_name_ok_def list_all_iff)
  show ?thesis
  proof (cases "LF \<in> set v")
    case False
    let ?l = "n @ CHR '':'' # v"
    have "position (\<lambda>c. c = LF) (drop off raw) = Some (length (?l @ [CR]))"
      using position_LF [of "?l @ [CR]" rest] False nlf assms(1) by simp
    from name_line [OF this _ assms(3,5,2)] assms(1) line_end_crlf [of off raw ?l rest] assms(2)
    show ?thesis by (simp add: add.assoc)
  next
    case True
    then obtain xs ys where split: "v = xs @ LF # ys" "LF \<notin> set xs" by (meson split_list_first)
    let ?l = "n @ CHR '':'' # xs"
    have "position (\<lambda>c. c = LF) (drop off raw) = Some (length ?l)"
      using position_LF [of ?l] split nlf assms(1) by simp
    from name_line [OF this _ assms(3,5,2)] assms(1)
    have first: "header_fields lim raw off fs = header_fields lim raw (off + length ?l + 1)
        (fs @ [(n, off + length n + 1, line_end raw off (off + length ?l))])" by simp
    have d: "drop (off + length ?l + 1) raw = ys @ CR # LF # rest"
      using drop_further [of off raw "?l @ [LF]" "ys @ CR # LF # rest"] assms(1) split(1) by simp
    then have "off + length ?l + 1 \<le> length raw"
      by (metis append_is_Nil_conv drop_all leI less_imp_le list.distinct(1))
    from continuation_lines [OF d this] folds_tail [of xs ys] assms(4) split(1) first show ?thesis
      by (simp add: add.assoc)
  qed
qed

section \<open>Parsing the session's own message\<close>

definition rendered :: "bool \<Rightarrow> bytes \<Rightarrow> bytes" where
  "rendered ls v = (if \<not> ls \<and> (v = [] \<or> hd v \<notin> {CR, LF}) then SP # v else v)"

lemma raw_header_rendered: "raw_header ls (n, v) = n @ CHR '':'' # rendered ls v @ [CR, LF]"
  by (simp add: raw_header_def rendered_def)

lemma lookup_rendered: "lookup_value ls (rendered ls v) = Some v"
  by (cases v) (auto simp: lookup_value_def rendered_def)

lemma folds_rendered: "folds v \<Longrightarrow> folds (rendered ls v)"
  by (simp add: rendered_def)

lemma replacement_fields_snoc:
  "replacement_fields raw (fs @ gs) = replacement_fields raw fs @ replacement_fields raw gs"
  by (simp add: replacement_fields_def)

lemma parse_headers:
  assumes "drop off raw = concat (map (raw_header ls) hs) @ CR # LF # bdy" and "off \<le> length raw"
    and "\<forall>(n, v) \<in> set hs. header_name_ok n \<and> folds v" and "length fs + length hs \<le> lim"
  shows "\<exists>gs b. header_fields lim raw off fs = Inr (gs, b) \<and> drop b raw = bdy \<and>
    replacement_fields raw gs = replacement_fields raw fs @ map (\<lambda>(n, v). (n, rendered ls v)) hs"
  using assms
proof (induction hs arbitrary: off fs)
  case Nil
  have "position (\<lambda>c. c = LF) (drop off raw) = Some 1"
    using position_LF [of "[CR]" bdy] Nil.prems(1) by simp
  moreover have "line_end raw off (off + 1) = off"
    using line_end_crlf [of off raw "[]" bdy] Nil.prems by simp
  ultimately have "header_fields lim raw off fs = Inr (fs, off + 2)"
    by (subst header_fields.simps) (simp add: subslice_def)
  moreover have "drop (off + 2) raw = bdy"
    using drop_further [of off raw "[CR, LF]" bdy] Nil.prems(1) by simp
  ultimately show ?case by simp
next
  case (Cons h hs)
  obtain n v where h: "h = (n, v)" by fastforce
  let ?w = "rendered ls v" and ?rest = "concat (map (raw_header ls) hs) @ CR # LF # bdy"
  let ?i = "off + length n + 1"
  have d: "drop off raw = n @ CHR '':'' # ?w @ CR # LF # ?rest"
    using Cons.prems(1) by (simp add: h raw_header_rendered)
  have val: "subslice raw ?i (?i + length ?w) = ?w"
    using drop_further [of off raw "n @ [CHR '':'']" "?w @ CR # LF # ?rest"] d
    by (intro subslice_prefix) simp
  have "header_fields lim raw off fs = header_fields lim raw (?i + length ?w + 2) (fs @ [(n, ?i, ?i + length ?w)])"
    using d Cons.prems by (intro parse_field) (auto simp: h folds_rendered)
  moreover have "drop (?i + length ?w + 2) raw = ?rest"
    using drop_further [of off raw "n @ CHR '':'' # ?w @ [CR, LF]" ?rest] d by (simp add: add.assoc)
  then have "drop (?i + length ?w + 2) raw = ?rest" "?i + length ?w + 2 \<le> length raw"
    by (auto, metis append_is_Nil_conv drop_all leI less_imp_le list.distinct(1))
  ultimately show ?case
    using Cons.IH [of "?i + length ?w + 2" "fs @ [(n, ?i, ?i + length ?w)]"] Cons.prems(3,4) val
    by (simp add: replacement_fields_snoc h) (simp add: replacement_fields_def)
qed

section \<open>Every header is matched\<close>

lemma match_all:
  assumes "note_originals hs = (cands, counts, occs)" and "length r = length hs" and "c \<le> length hs"
  shows "\<exists>r'. fold_r (match_field ls cands) (r, c, [])
      (List.enumerate c (map (\<lambda>(n, v). (n, rendered ls v)) (drop c hs))) = Inr (r', length hs, []) \<and>
    (\<forall>i < length hs. c \<le> i \<longrightarrow> r' ! i)"
  using assms(2,3)
proof (induction "length hs - c" arbitrary: r c)
  case 0
  then show ?case by simp
next
  case (Suc k)
  then have c: "c < length hs" by simp
  obtain n v where h: "hs ! c = (n, v)" by fastforce
  have "match_field ls cands (r, c, []) (c, n, rendered ls v) = Inr (r[c := True], c + 1, [])"
    using first_from_here [OF c] Suc.prems c
    by (simp add: match_field_def Let_def lookup_rendered candidates_lookup [OF assms(1)] h)
  moreover have "k = length hs - (c + 1)" using Suc.hyps(2) by simp
  then obtain r' where r': "fold_r (match_field ls cands) (r[c := True], c + 1, [])
      (List.enumerate (c + 1) (map (\<lambda>(n, v). (n, rendered ls v)) (drop (c + 1) hs))) =
      Inr (r', length hs, [])" "\<forall>i < length hs. c + 1 \<le> i \<longrightarrow> r' ! i"
    using Suc.hyps(1) [of "c + 1" "r[c := True]"] Suc.prems c by auto
  have "r' ! c" using match_fields_retained(2) [OF r'(1) assms(1), of c] Suc.prems c by simp
  moreover have "drop c hs = (n, v) # drop (c + 1) hs"
    using Cons_nth_drop_Suc [OF c] h by simp
  ultimately show ?case using r' by (auto simp: Suc_le_eq le_less)
qed

lemma delete_none:
  "\<forall>i \<in> set is. r ! i \<Longrightarrow> fold_r (delete_original hs occs r) ms is = Inr ms"
  by (induction "is") (auto simp: delete_original_def)

lemma diff_message_same:
  "diff_message s (map (\<lambda>(n, v). (n, rendered (leading_space s) v)) (headers (message s)))
     (body (message s)) = Inr []"
proof -
  let ?hs = "headers (message s)"
  obtain cands counts occs where idx: "note_originals ?hs = (cands, counts, occs)" by (metis prod_cases3)
  from match_all [OF idx, of "replicate (length ?hs) False" 0 "leading_space s"] obtain r' where
    "fold_r (match_field (leading_space s) cands) (replicate (length ?hs) False, 0, [])
      (List.enumerate 0 (map (\<lambda>(n, v). (n, rendered (leading_space s) v)) ?hs)) = Inr (r', length ?hs, [])"
    "\<forall>i < length ?hs. r' ! i" by auto
  then show ?thesis by (simp add: diff_message_def idx Let_def delete_none)
qed

lemma raw_replacement_same:
  assumes "length (raw_message s) \<le> lim_message_bytes (limits s)"
    and "lim_message_bytes (limits s) < 2 ^ 32"
    and "length (headers (message s)) \<le> lim_headers (limits s)"
    and "\<forall>(n, v) \<in> set (headers (message s)). header_name_ok n \<and> folds v"
    and "b64d encoded = Some (raw_message s)"
    and "length encoded = (length (raw_message s) + 2) div 3 * 4"
  shows "raw_replacement b64d (JStr encoded) s = Inr []"
proof -
  have "length (raw_message s) + 2 \<le> saturating_add (lim_message_bytes (limits s)) 2"
    using assms(1,2) by (simp add: saturating_add_def usize_max_def)
  then have len: "length encoded \<le> saturating_add (lim_message_bytes (limits s)) 2 div 3 * 4"
    using assms(6) by (simp add: div_le_mono)
  have "drop 0 (raw_message s) =
      concat (map (raw_header (leading_space s)) (headers (message s))) @ CR # LF # body (message s)"
    by (simp add: raw_message_def)
  from parse_headers [OF this _ assms(4), of "[]" "lim_headers (limits s)"] assms(3) obtain gs b where
    "header_fields (lim_headers (limits s)) (raw_message s) 0 [] = Inr (gs, b)"
    "drop b (raw_message s) = body (message s)"
    "replacement_fields (raw_message s) gs =
      map (\<lambda>(n, v). (n, rendered (leading_space s) v)) (headers (message s))"
    by (auto simp: replacement_fields_def)
  with len assms(1,5) show ?thesis
    by (simp add: raw_replacement_def diff_message_same not_less)
qed

end
