(* ===== verification/Translate.thy ===== *)
theory Translate
  imports Raw_Identity
begin

text \<open>
  \<open>src/src/hooks.rs\<close>, \<open>translate\<close>: the scanner's response becomes a decision. The loops over
  \<open>set\<close>, \<open>add\<close> and \<open>delete\<close> carry the action, the SMTP response object, the edits and the
  replacement, as the source's locals do.
\<close>

section \<open>Model\<close>

record translation =
  tr_action :: bytes
  tr_response :: json
  tr_edits :: edits
  tr_raw :: "modification list option"

definition message_path :: "bytes \<Rightarrow> bool" where
  "message_path path \<longleftrightarrow> path = ''/message'' \<or> starts_with ''/message/'' path"

definition list_or_empty :: "'a list option \<Rightarrow> 'a list" where
  "list_or_empty o' = (case o' of None \<Rightarrow> [] | Some xs \<Rightarrow> xs)"

definition translate_set ::
  "serde \<Rightarrow> (bytes \<Rightarrow> bytes option) \<Rightarrow> session \<Rightarrow> bool \<Rightarrow> translation \<Rightarrow> set_op \<Rightarrow> translation result" where
  "translate_set sd b64d s has_raw tr op =
     (let path = set_path op; value = set_value op in
      if path = ''/rawMessage'' then
        (if tr_raw tr \<noteq> None then Inl (Invalid ''duplicate raw message replacement'')
         else map_r (\<lambda>ms. tr\<lparr>tr_raw := Some ms\<rparr>) (raw_replacement b64d value s))
      else if has_raw \<and> message_path path then Inr tr
      else if path = ''/action'' then
        map_r (\<lambda>a. tr\<lparr>tr_action := a\<rparr>) (ok_or (Invalid ''action type'') (as_str value))
      else if path = ''/response'' then Inr (tr\<lparr>tr_response := value\<rparr>)
      else if path \<in> {''/response/code'', ''/response/enhancedCode'', ''/response/message''} then
        (let response = (if tr_response tr = JNull then JObj [] else tr_response tr) in
         if \<not> is_object response then Inl (Invalid ''SMTP response object'')
         else Inr (tr\<lparr>tr_response := jset response (last (split_on (CHR ''/'') path)) value\<rparr>))
      else map_r (\<lambda>e. tr\<lparr>tr_edits := e\<rparr>) (edits_set sd s (tr_edits tr) path value))"

definition translate_add :: "serde \<Rightarrow> session \<Rightarrow> bool \<Rightarrow> edits \<Rightarrow> add_op \<Rightarrow> edits result" where
  "translate_add sd s has_raw e a =
     (if has_raw \<and> message_path (add_path a) then Inr e else edits_add sd s e a)"

definition translate_delete :: "bool \<Rightarrow> edits \<Rightarrow> bytes \<Rightarrow> edits result" where
  "translate_delete has_raw e path =
     (if has_raw \<and> message_path path then Inr e else edits_delete e path)"

definition reply_verdict :: "json \<Rightarrow> verdict result" where
  "reply_verdict response =
     bind_r (ensure (response = JNull \<or> is_object response) (Invalid ''SMTP response object'')) (\<lambda>_.
     bind_r (case jget response ''code'' of
               Some c \<Rightarrow>
                 ok_or (Invalid ''SMTP code'')
                   (Option.bind (as_u64 c) (\<lambda>n. if unat n < 2 ^ 16 then Some (of_nat (unat n)) else None))
             | None \<Rightarrow> Inr 550) (\<lambda>code.
     bind_r (case jget response ''enhancedCode'' of
               Some v \<Rightarrow>
                 if v \<noteq> JNull then map_r Some (ok_or (Invalid ''enhanced SMTP code'') (as_str v))
                 else Inr None
             | None \<Rightarrow> Inr None) (\<lambda>enhanced.
     bind_r (case jget response ''message'' of
               Some v \<Rightarrow> ok_or (Invalid ''SMTP response text'') (as_str v)
             | None \<Rightarrow> Inr ''Rejected by policy'') (\<lambda>msg.
       Inr (Reply code enhanced msg)))))"

definition select_verdict ::
  "bytes \<Rightarrow> json \<Rightarrow> stage \<Rightarrow> modification list \<Rightarrow> (verdict \<times> modification list) result" where
  "select_verdict action response stage ms =
     (if action = ''accept'' \<and> response = JNull then Inr (Continue, ms)
      else if action = ''reject'' then map_r (\<lambda>v. (v, ms)) (reply_verdict response)
      else if action = ''discard'' \<and> response = JNull \<and> stage \<notin> {StConnect, StHelo} then Inr (Discard, ms)
      else if action = ''quarantine'' \<and> response = JNull \<and> stage = StEndMessage then
        Inr (Continue, ms @ [Quarantine ''MTA Hooks policy''])
      else if action = ''disconnect'' \<and> response = JNull then Inr (Shutdown, ms)
      else Inl (Invalid ''unsupported action, stage or SMTP response combination''))"

definition new_translation :: "session \<Rightarrow> translation" where
  "new_translation s = \<lparr>tr_action = ''accept'', tr_response = JNull, tr_edits = edits_new s, tr_raw = None\<rparr>"

definition has_raw_set :: "op_lists \<Rightarrow> bool" where
  "has_raw_set ops = list_ex (\<lambda>op. set_path op = ''/rawMessage'') (list_or_empty (ops_set ops))"

text \<open>The three loops.\<close>

definition translate_ops ::
  "serde \<Rightarrow> (bytes \<Rightarrow> bytes option) \<Rightarrow> session \<Rightarrow> op_lists \<Rightarrow> translation result" where
  "translate_ops sd b64d s ops =
     (let has_raw = has_raw_set ops in
      bind_r (fold_r (translate_set sd b64d s has_raw) (new_translation s) (list_or_empty (ops_set ops))) (\<lambda>tr.
      bind_r (fold_r (translate_add sd s has_raw) (tr_edits tr) (list_or_empty (ops_add ops))) (\<lambda>e.
      bind_r (fold_r (translate_delete has_raw) e (list_or_empty (ops_delete ops))) (\<lambda>e.
        Inr (tr\<lparr>tr_edits := e\<rparr>)))))"

definition translate ::
  "serde \<Rightarrow> (bytes \<Rightarrow> bytes option) \<Rightarrow> json \<Rightarrow> session \<Rightarrow> stage \<Rightarrow> decision result" where
  "translate sd b64d value s stage =
     bind_r (ok_or (Invalid ''hook response schema'') (de_operations sd value)) (\<lambda>ops.
     let count = length (list_or_empty (ops_set ops)) + length (list_or_empty (ops_add ops)) +
           length (list_or_empty (ops_delete ops)) in
     bind_r (ensure (count \<le> lim_modifications (limits s)) (Limit ''hook operations'')) (\<lambda>_.
     bind_r (translate_ops sd b64d s ops) (\<lambda>tr.
     bind_r (ensure (stage = StEndMessage \<or> (edits_is_empty (tr_edits tr) \<and> tr_raw tr = None))
       (Invalid ''message and envelope edits require the data stage'')) (\<lambda>_.
     bind_r (edits_modifications (tr_edits tr) s) (\<lambda>edited.
     let ms = edited @ list_or_empty (tr_raw tr) in
     bind_r (fold_r (\<lambda>_ m. map_r (\<lambda>_. ()) (frames m (leading_space s))) () ms) (\<lambda>_.
     bind_r (select_verdict (tr_action tr) (tr_response tr) stage ms) (\<lambda>(v, ms).
       Inr \<lparr>verdict = v, modifications = ms\<rparr>)))))))"

section \<open>The loops keep the slot invariant\<close>

lemma translate_ops_Inr:
  assumes "translate_ops sd b64d s ops = Inr tr"
  obtains tr0 e1 e2 where
    "fold_r (translate_set sd b64d s (has_raw_set ops)) (new_translation s) (list_or_empty (ops_set ops)) = Inr tr0"
    "fold_r (translate_add sd s (has_raw_set ops)) (tr_edits tr0) (list_or_empty (ops_add ops)) = Inr e1"
    "fold_r (translate_delete (has_raw_set ops)) e1 (list_or_empty (ops_delete ops)) = Inr e2"
    "tr = tr0\<lparr>tr_edits := e2\<rparr>"
  using assms by (auto simp: translate_ops_def Let_def bind_r_Inr_iff)

lemma translate_set_inv:
  "translate_set sd b64d s hr tr op = Inr tr' \<Longrightarrow> edits_inv s (tr_edits tr) \<Longrightarrow> edits_inv s (tr_edits tr')"
  by (auto simp: translate_set_def Let_def result_simps dest: edits_set_inv split: if_splits)

lemma translate_add_inv: "translate_add sd s hr e a = Inr e' \<Longrightarrow> edits_inv s e \<Longrightarrow> edits_inv s e'"
  by (auto simp: translate_add_def dest: edits_add_inv split: if_splits)

lemma translate_delete_inv: "translate_delete hr e p = Inr e' \<Longrightarrow> edits_inv s e \<Longrightarrow> edits_inv s e'"
  by (auto simp: translate_delete_def dest: edits_delete_inv split: if_splits)

lemma translate_ops_inv:
  assumes "translate_ops sd b64d s ops = Inr tr"
  shows "edits_inv s (tr_edits tr)"
proof -
  from assms obtain tr0 e1 e2 where
    a: "fold_r (translate_set sd b64d s (has_raw_set ops)) (new_translation s) (list_or_empty (ops_set ops)) = Inr tr0" and
    b: "fold_r (translate_add sd s (has_raw_set ops)) (tr_edits tr0) (list_or_empty (ops_add ops)) = Inr e1" and
    c: "fold_r (translate_delete (has_raw_set ops)) e1 (list_or_empty (ops_delete ops)) = Inr e2" and
    tr: "tr = tr0\<lparr>tr_edits := e2\<rparr>"
    by (rule translate_ops_Inr)
  have "edits_inv s (tr_edits tr0)"
    using a by (rule fold_r_invariant [where P = "\<lambda>t. edits_inv s (tr_edits t)"])
      (auto simp: new_translation_def edits_new_inv dest: translate_set_inv)
  with b have "edits_inv s e1" by (rule fold_r_invariant) (auto dest: translate_add_inv)
  with c have "edits_inv s e2" by (rule fold_r_invariant) (auto dest: translate_delete_inv)
  with tr show ?thesis by simp
qed

end
