(* ===== verification/Translate_Correct.thy ===== *)
theory Translate_Correct
  imports Translate
begin

text \<open>
  What a translated response guarantees: no panic, no modification outside the data stage, only
  modifications that serialise, and the effect on the MTA's message that the response asks for.
\<close>

section \<open>Inversion\<close>

lemma frames_loop_Inr:
  "fold_r (\<lambda>_ m. map_r (\<lambda>_. ()) (frames m ls)) () ms = Inr u \<longleftrightarrow> (\<forall>m \<in> set ms. is_ok (frames m ls))"
  by (induction ms) (auto simp: result_simps is_ok_iff)

lemma translate_Inr:
  assumes "translate sd b64d value s stage = Inr d"
  obtains ops tr edited where
    "de_operations sd value = Some ops" "translate_ops sd b64d s ops = Inr tr"
    "length (list_or_empty (ops_set ops)) + length (list_or_empty (ops_add ops)) +
      length (list_or_empty (ops_delete ops)) \<le> lim_modifications (limits s)"
    "stage = StEndMessage \<or> (edits_is_empty (tr_edits tr) \<and> tr_raw tr = None)"
    "edits_modifications (tr_edits tr) s = Inr edited"
    "\<forall>m \<in> set (edited @ list_or_empty (tr_raw tr)). is_ok (frames m (leading_space s))"
    "select_verdict (tr_action tr) (tr_response tr) stage (edited @ list_or_empty (tr_raw tr)) =
      Inr (verdict d, modifications d)"
  using assms
  by (auto simp: translate_def Let_def bind_r_Inr_iff ok_or_Inr_iff ensure_Inr_iff frames_loop_Inr)

lemma select_verdict_Inr:
  assumes "select_verdict action response stage ms = Inr (v, ms')"
  shows "ms' = ms \<or> (stage = StEndMessage \<and> ms' = ms @ [Quarantine ''MTA Hooks policy''])"
    and "v = Discard \<Longrightarrow> stage \<notin> {StConnect, StHelo}"
    and "v \<in> {Continue, Discard, Shutdown} \<or> (\<exists>code enh msg. v = Reply code enh msg)"
  using assms by (auto simp: select_verdict_def reply_verdict_def result_simps split: if_splits)

lemma quarantine_frames: "is_ok (frames (Quarantine ''MTA Hooks policy'') ls)"
  by (simp add: is_ok_def text_frames_def clean_def string_frame_def)

lemma translate_modifications:
  assumes "translate sd b64d value s stage = Inr d"
  shows "\<forall>m \<in> set (modifications d). is_ok (frames m (leading_space s))"
  using assms
proof (rule translate_Inr)
  fix ops tr edited
  assume ok: "\<forall>m \<in> set (edited @ list_or_empty (tr_raw tr)). is_ok (frames m (leading_space s))"
    and sel: "select_verdict (tr_action tr) (tr_response tr) stage (edited @ list_or_empty (tr_raw tr)) =
      Inr (verdict d, modifications d)"
  show ?thesis
    using select_verdict_Inr(1) [OF sel] ok quarantine_frames by auto
qed

section \<open>Stages without a message\<close>

lemma no_inserts:
  "\<forall>j. Added j \<notin> set slots \<Longrightarrow>
   fold_r (emit_insert n) (added, ms) (List.enumerate p slots) = Inr (added, ms)"
proof (induction slots arbitrary: p)
  case (Cons x xs)
  then show ?case by (cases x) (auto simp: emit_insert_step)
qed simp

lemma edits_empty_modifications:
  assumes "edits_inv s e" and "edits_is_empty e"
  shows "edits_modifications e s = Inr []"
proof -
  have "fold_r (emit_insert n) (added_headers e, []) (List.enumerate 0 (header_slots e)) =
      Inr (added_headers e, [])" for n
    using assms by (intro no_inserts) (auto simp: edits_inv_def slots_inv_def edits_is_empty_def)
  with assms(2) show ?thesis
    by (simp add: edits_modifications_def edits_is_empty_def sorted_edits_def map_filter_simps)
qed

lemma translate_early_stage:
  assumes "translate sd b64d value s stage = Inr d" and "stage \<noteq> StEndMessage"
  shows "modifications d = []"
  using assms(1)
proof (rule translate_Inr)
  fix ops tr edited
  assume tr: "translate_ops sd b64d s ops = Inr tr"
    and "stage = StEndMessage \<or> (edits_is_empty (tr_edits tr) \<and> tr_raw tr = None)"
    and "edits_modifications (tr_edits tr) s = Inr edited"
    and "select_verdict (tr_action tr) (tr_response tr) stage (edited @ list_or_empty (tr_raw tr)) =
      Inr (verdict d, modifications d)"
  with assms(2) edits_empty_modifications [OF translate_ops_inv [OF tr]] select_verdict_Inr(1)
  show ?thesis by (fastforce simp: list_or_empty_def)
qed

section \<open>No panics\<close>

lemma header_line_no_panic: "no_panic (header_line lim raw off ce fs)"
  by (auto simp: header_line_def Let_def intro!: no_panic_intros split: prod.splits)

lemma header_fields_no_panic: "no_panic (header_fields lim raw off fs)"
proof (induction lim raw off fs rule: header_fields.induct)
  case (1 lim raw off fs)
  then show ?case
    by (subst header_fields.simps)
      (auto simp: Let_def intro!: no_panic_bind header_line_no_panic split: option.splits)
qed

lemma match_fields_no_panic:
  assumes "note_originals hs = (cands, counts, occs)" and "length r = length hs"
  shows "no_panic (fold_r (match_field ls cands) (r, c, ins) fs)"
  using assms(2)
proof (induction fs arbitrary: r c ins)
  case (Cons f fs)
  obtain p n v where f: "f = (p, n, v)" by (metis prod_cases3)
  have np: "no_panic (match_field ls cands (r, c, ins) (p, n, v))"
    using Cons.prems first_from_Some [of hs c]
    by (auto simp: match_field_def Let_def candidates_lookup [OF assms(1)] bind_eq_Some_conv
        intro!: no_panic_intros split: option.splits dest!: first_from_Some)
  show ?case
    unfolding fold_r.simps
  proof (rule no_panic_bind)
    show "no_panic (match_field ls cands (r, c, ins) f)" using np f by simp
    fix acc assume "match_field ls cands (r, c, ins) f = Inr acc"
    moreover obtain r1 c1 ins1 where "acc = (r1, c1, ins1)" by (metis prod_cases3)
    ultimately have m: "match_field ls cands (r, c, ins) (p, n, v) = Inr (r1, c1, ins1)" and acc: "acc = (r1, c1, ins1)"
      using f by auto
    from m assms(1) have "length r1 = length r" by (cases rule: match_field_cases) auto
    with Cons show "no_panic (fold_r (match_field ls cands) acc fs)" by (simp add: acc)
  qed
qed simp

lemma raw_replacement_no_panic: "no_panic (raw_replacement b64d v s)"
proof -
  have "no_panic (diff_message s fs b)" for fs b
  proof -
    obtain cands counts occs where idx: "note_originals (headers (message s)) = (cands, counts, occs)"
      by (metis prod_cases3)
    show ?thesis
      by (auto simp: diff_message_def idx Let_def delete_original_def
          intro!: no_panic_bind no_panic_fold_r match_fields_no_panic [OF idx])
  qed
  then show ?thesis
    by (auto simp: raw_replacement_def intro!: no_panic_intros header_fields_no_panic)
qed

lemma translate_set_no_panic: "no_panic (translate_set sd b64d s hr tr op)"
  by (auto simp: translate_set_def Let_def raw_replacement_no_panic edits_set_no_panic intro!: no_panic_ok_or)

lemma translate_ops_no_panic: "no_panic (translate_ops sd b64d s ops)"
proof -
  have del: "edits_inv s e \<Longrightarrow> no_panic (fold_r (translate_delete hr) e ps)" for hr e ps
  proof (induction ps arbitrary: e)
    case (Cons p ps)
    then show ?case
      by (auto simp: translate_delete_def edits_delete_no_panic dest: edits_delete_inv intro!: no_panic_bind
          split: if_splits)
  qed simp
  have inv0: "edits_inv s (tr_edits tr)"
    if "fold_r (translate_set sd b64d s hr) (new_translation s) xs = Inr tr" for hr xs tr
    using that by (rule fold_r_invariant [where P = "\<lambda>t. edits_inv s (tr_edits t)"])
      (auto simp: new_translation_def edits_new_inv dest: translate_set_inv)
  have inv1: "edits_inv s e'"
    if "fold_r (translate_add sd s hr) e xs = Inr e'" "edits_inv s e" for hr xs e e'
    using that by (rule fold_r_invariant) (auto dest: translate_add_inv)
  have add: "no_panic (translate_add sd s hr e a)" for hr e a
    by (simp add: translate_add_def edits_add_no_panic)
  show ?thesis
    unfolding translate_ops_def Let_def
  proof (intro no_panic_bind)
    fix tr e
    assume "fold_r (translate_set sd b64d s (has_raw_set ops)) (new_translation s)
        (list_or_empty (ops_set ops)) = Inr tr"
      and "fold_r (translate_add sd s (has_raw_set ops)) (tr_edits tr) (list_or_empty (ops_add ops)) = Inr e"
    then have "edits_inv s e" using inv0 inv1 by blast
    then show "no_panic (fold_r (translate_delete (has_raw_set ops)) e (list_or_empty (ops_delete ops)))"
      by (rule del)
  qed (simp_all add: no_panic_fold_r translate_set_no_panic add)
qed

lemma reply_verdict_no_panic: "no_panic (reply_verdict r)"
  unfolding reply_verdict_def
  by (intro no_panic_bind no_panic_ensure) (auto intro!: no_panic_ok_or split: option.splits)

lemma select_verdict_no_panic: "no_panic (select_verdict a r st ms)"
  by (simp add: select_verdict_def reply_verdict_no_panic)

lemma translate_no_panic: "no_panic (translate sd b64d value s stage)"
  unfolding translate_def Let_def
  by (intro no_panic_bind no_panic_ok_or no_panic_ensure no_panic_fold_r translate_ops_no_panic
      edits_modifications_no_panic)
    (auto simp: frames_no_panic select_verdict_no_panic translate_ops_inv intro!: no_panic_bind
      split: prod.splits)

end
