(* ===== verification/Translate_Effect.thy ===== *)
theory Translate_Effect
  imports Translate_Correct
begin

text \<open>
  The effect of a translated response on the MTA's message: a replaced message is what the MTA
  ends up with, and otherwise the header list is the one obtained by performing the response's
  operations in order on the original list.
\<close>

section \<open>A replaced message\<close>

lemma translate_set_raw_keep:
  "translate_set sd b64d s hr tr op = Inr tr' \<Longrightarrow> tr_raw tr = Some ms \<Longrightarrow> tr_raw tr' = Some ms"
  by (auto simp: translate_set_def Let_def result_simps split: if_splits)

lemma translate_sets_raw_keep:
  assumes "fold_r (translate_set sd b64d s hr) tr xs = Inr tr'" and "tr_raw tr = Some ms"
  shows "tr_raw tr' = Some ms"
  using assms by (rule fold_r_invariant) (rule translate_set_raw_keep)

lemma translate_sets_raw:
  assumes "fold_r (translate_set sd b64d s hr) tr xs = Inr tr'" and "op \<in> set xs"
    and "set_path op = ''/rawMessage''"
  shows "\<exists>ms. raw_replacement b64d (set_value op) s = Inr ms \<and> tr_raw tr' = Some ms"
  using assms(1,2)
proof (induction xs arbitrary: tr)
  case (Cons x xs)
  then obtain t where x: "translate_set sd b64d s hr tr x = Inr t"
    and rest: "fold_r (translate_set sd b64d s hr) t xs = Inr tr'" by (auto simp: result_simps)
  show ?case
  proof (cases "op = x")
    case True
    with x assms(3) obtain ms where "raw_replacement b64d (set_value op) s = Inr ms" "tr_raw t = Some ms"
      by (auto simp: translate_set_def Let_def result_simps split: if_splits)
    with translate_sets_raw_keep [OF rest] show ?thesis by blast
  next
    case False
    with Cons.IH [OF rest] Cons.prems(2) show ?thesis by simp
  qed
qed simp

definition headers_untouched :: "edits \<Rightarrow> bool" where
  "headers_untouched e \<longleftrightarrow> header_changes e = [] \<and> header_deletes e = [] \<and> added_headers e = []"

lemma array_index_prefix: "array_index path pre = Some r \<Longrightarrow> \<exists>rest. path = pre @ ''/'' @ rest"
  by (auto simp: array_index_def bind_eq_Some_conv split: option.splits)

lemma array_index_message: "array_index path ''/message/headers'' = Some r \<Longrightarrow> message_path path"
  by (drule array_index_prefix) (auto simp: message_path_def starts_with_iff)

lemma edits_set_untouched:
  "edits_set sd s e path v = Inr e' \<Longrightarrow> \<not> message_path path \<Longrightarrow> headers_untouched e \<Longrightarrow> headers_untouched e'"
  by (auto simp: edits_set_def headers_untouched_def result_simps dest: array_index_message
      split: option.splits if_splits)

lemma edits_add_untouched:
  "edits_add sd s e a = Inr e' \<Longrightarrow> \<not> message_path (add_path a) \<Longrightarrow> headers_untouched e \<Longrightarrow> headers_untouched e'"
  by (auto simp: edits_add_def headers_untouched_def result_simps message_path_def starts_with_def
      split: if_splits)

lemma edits_delete_untouched:
  "edits_delete e path = Inr e' \<Longrightarrow> \<not> message_path path \<Longrightarrow> headers_untouched e \<Longrightarrow> headers_untouched e'"
  by (auto simp: edits_delete_def delete_recipient_def Let_def headers_untouched_def
      dest: array_index_message split: option.splits list.splits if_splits slot.splits)

lemma translate_ops_untouched:
  assumes "translate_ops sd b64d s ops = Inr tr" and hr: "has_raw_set ops"
  shows "headers_untouched (tr_edits tr)"
proof -
  from assms(1) obtain tr0 e1 e2 where
    a: "fold_r (translate_set sd b64d s (has_raw_set ops)) (new_translation s) (list_or_empty (ops_set ops)) = Inr tr0" and
    b: "fold_r (translate_add sd s (has_raw_set ops)) (tr_edits tr0) (list_or_empty (ops_add ops)) = Inr e1" and
    c: "fold_r (translate_delete (has_raw_set ops)) e1 (list_or_empty (ops_delete ops)) = Inr e2" and
    tr: "tr = tr0\<lparr>tr_edits := e2\<rparr>"
    by (rule translate_ops_Inr)
  have "headers_untouched (tr_edits tr0)"
    using a by (rule fold_r_invariant [where P = "\<lambda>t. headers_untouched (tr_edits t)"])
      (auto simp: hr new_translation_def edits_new_def headers_untouched_def [of "edits_new s"]
        translate_set_def Let_def result_simps split: if_splits
        intro: edits_set_untouched, simp add: headers_untouched_def)
  with b have "headers_untouched e1"
    by (rule fold_r_invariant) (auto simp: hr translate_add_def split: if_splits intro: edits_add_untouched)
  with c have "headers_untouched e2"
    by (rule fold_r_invariant) (auto simp: hr translate_delete_def split: if_splits intro: edits_delete_untouched)
  with tr show ?thesis by simp
qed

lemma untouched_modifications:
  assumes "edits_inv s e" and "headers_untouched e" and "edits_modifications e s = Inr ms"
  shows "\<forall>m \<in> set ms. \<not> header_part m"
proof -
  from assms(3) obtain seen changes added' inserts from' dels adds where
    c: "fold_r (emit_change (headers (message s))) ({}, []) (sorted_edits e) = Inr (seen, changes)" and
    i: "fold_r (emit_insert (length (header_slots e))) (added_headers e, [])
      (List.enumerate 0 (header_slots e)) = Inr (added', inserts)" and
    env: "\<forall>m \<in> set (from' @ dels @ adds). \<not> header_part m" and
    ms: "ms = changes @ inserts @ from' @ dels @ adds"
    by (rule edits_modifications_Inr) (use envelope_part in blast)
  have "changes = []" using c assms(2) by (simp add: headers_untouched_def sorted_edits_def)
  moreover have "inserts = []"
  proof -
    have "\<forall>j. Added j \<notin> set (header_slots e)"
      using assms(1,2) by (simp add: edits_inv_def slots_inv_def headers_untouched_def)
    from no_inserts [OF this] i show ?thesis by simp
  qed
  ultimately show ?thesis using env ms by auto
qed

lemma apply_body_envelope: "\<forall>m \<in> set ms. \<not> header_part m \<Longrightarrow> fold apply_body ms b = b"
  by (rule apply_body_keep) (auto simp: header_part_def)

lemma apply_headers_quarantine: "apply_headers ls (ms @ [Quarantine r]) hs = apply_headers ls ms hs"
  by simp

lemma translate_raw_effect:
  assumes "translate sd b64d value s stage = Inr d" and "de_operations sd value = Some ops"
    and "op \<in> set (list_or_empty (ops_set ops))" and "set_path op = ''/rawMessage''"
    and "length (headers (message s)) < 2 ^ 32" and "lim_headers (limits s) < 2 ^ 32"
  shows "\<exists>encoded raw fs new_body. set_value op = JStr encoded \<and> b64d encoded = Some raw \<and>
    is_message_of raw fs new_body \<and>
    apply_headers (leading_space s) (modifications d) (headers (message s)) =
      map (\<lambda>(n, v). (n, wire_value (leading_space s) v)) fs \<and>
    fold apply_body (modifications d) (body (message s)) = new_body"
proof -
  from assms(1) obtain ops' tr edited where
    o: "de_operations sd value = Some ops'" "translate_ops sd b64d s ops' = Inr tr" and
    e: "edits_modifications (tr_edits tr) s = Inr edited" and
    ok: "\<forall>m \<in> set (edited @ list_or_empty (tr_raw tr)). is_ok (frames m (leading_space s))" and
    sel: "select_verdict (tr_action tr) (tr_response tr) stage (edited @ list_or_empty (tr_raw tr)) =
      Inr (verdict d, modifications d)"
    by (rule translate_Inr)
  have tr: "translate_ops sd b64d s ops = Inr tr" using o assms(2) by simp
  have hr: "has_raw_set ops" using assms(3,4) by (auto simp: has_raw_set_def list_ex_iff)
  note env = untouched_modifications [OF translate_ops_inv [OF tr] translate_ops_untouched [OF tr hr] e]
  from tr obtain ms where ms: "raw_replacement b64d (set_value op) s = Inr ms" "tr_raw tr = Some ms"
    by (rule translate_ops_Inr) (use translate_sets_raw [OF _ assms(3,4)] in fastforce)
  have "\<forall>m \<in> set ms. is_ok (frames m (leading_space s))" using ok ms(2) by (simp add: list_or_empty_def)
  from raw_replacement_effect [OF ms(1) this assms(5,6)] select_verdict_Inr(1) [OF sel]
    apply_headers_envelope [OF env] apply_body_envelope [OF env] ms(2)
  show ?thesis by (auto simp: list_or_empty_def)
qed

section \<open>Operations on a list of headers\<close>

text \<open>The reference: each operation of the response performed on a plain list of headers.\<close>

definition set_text :: "serde \<Rightarrow> bytes \<Rightarrow> json \<Rightarrow> bytes option" where
  "set_text sd tail v = (if tail = [] then map_option h_value (de_header sd v) else as_str v)"

definition spec_set :: "serde \<Rightarrow> bool \<Rightarrow> set_op \<Rightarrow> header_list \<Rightarrow> header_list" where
  "spec_set sd ls op hs =
     (case array_index (set_path op) ''/message/headers'' of
        None \<Rightarrow> hs
      | Some (i, tail) \<Rightarrow>
          (case set_text sd tail (set_value op) of
             None \<Rightarrow> hs
           | Some v \<Rightarrow> hs[i := (fst (hs ! i), stored ls v)]))"

definition spec_add :: "serde \<Rightarrow> bool \<Rightarrow> add_op \<Rightarrow> header_list \<Rightarrow> header_list" where
  "spec_add sd ls a hs =
     (if add_path a \<noteq> ''/message/headers'' then hs
      else (case de_header sd (add_value a) of
        None \<Rightarrow> hs
      | Some h \<Rightarrow>
          insert_header (case add_index a of None \<Rightarrow> length hs | Some i \<Rightarrow> unat i)
            (h_name h, stored ls (h_value h)) hs))"

definition spec_delete :: "bytes \<Rightarrow> header_list \<Rightarrow> header_list" where
  "spec_delete path hs =
     (case array_index path ''/message/headers'' of Some (i, []) \<Rightarrow> remove_at i hs | _ \<Rightarrow> hs)"

definition spec_headers :: "serde \<Rightarrow> bool \<Rightarrow> op_lists \<Rightarrow> header_list \<Rightarrow> header_list" where
  "spec_headers sd ls ops hs =
     fold spec_delete (list_or_empty (ops_delete ops))
       (fold (spec_add sd ls) (list_or_empty (ops_add ops))
         (fold (spec_set sd ls) (list_or_empty (ops_set ops)) hs))"

text \<open>The headers that the slots stand for.\<close>

definition abs_headers :: "bool \<Rightarrow> header_list \<Rightarrow> edits \<Rightarrow> header_list" where
  "abs_headers ls hs e = map (slot_header ls hs (header_changes e) (added_headers e)) (header_slots e)"

definition original_slots :: "session \<Rightarrow> edits \<Rightarrow> bool" where
  "original_slots s e \<longleftrightarrow> header_slots e = map Original [0..<length (headers (message s))]"

lemma edits_set_header:
  assumes "edits_set sd s e path v = Inr e'" and "array_index path ''/message/headers'' = Some (i, tail)"
  obtains w where "i < length (headers (message s))" "set_text sd tail v = Some w"
    "e' = e\<lparr>header_changes := header_changes e @ [(i, w)]\<rparr>"
  using assms
  by (auto simp: edits_set_def Let_def result_simps not_le set_text_def split: if_splits json.splits)

lemma edits_set_abs:
  assumes "edits_set sd s e (set_path op) (set_value op) = Inr e'" and "original_slots s e"
    and "distinct (map fst (header_changes e'))"
  shows "abs_headers ls (headers (message s)) e' =
    spec_set sd ls op (abs_headers ls (headers (message s)) e)"
proof (cases "array_index (set_path op) ''/message/headers''")
  case None
  with assms(1) show ?thesis
    by (auto simp: edits_set_def spec_set_def abs_headers_def result_simps split: if_splits)
next
  case (Some p)
  obtain i tail where p: "p = (i, tail)" by fastforce
  let ?hs = "headers (message s)"
  from assms(1) Some [unfolded p] obtain w where i: "i < length ?hs"
    and w: "set_text sd tail (set_value op) = Some w"
    and e': "e' = e\<lparr>header_changes := header_changes e @ [(i, w)]\<rparr>"
    by (rule edits_set_header)
  have fresh: "i \<notin> fst ` set (header_changes e)" using assms(3) e' by auto
  have "map_of (header_changes e @ [(i, w)]) j = (if j = i then Some w else map_of (header_changes e) j)" for j
    using fresh map_of_eq_None_iff [of "header_changes e" i]
    by (auto simp: map_add_def split: option.splits)
  then have "abs_headers ls ?hs e' = (abs_headers ls ?hs e)[i := (fst (?hs ! i), stored ls w)]"
    using assms(2) i by (auto simp: abs_headers_def original_slots_def e' nth_list_update intro!: nth_equalityI)
  moreover have "fst (abs_headers ls ?hs e ! i) = fst (?hs ! i)"
    using assms(2) i by (auto simp: abs_headers_def original_slots_def split: option.splits)
  ultimately show ?thesis using Some p w by (simp add: spec_set_def)
qed

lemma edits_set_frame:
  "edits_set sd s e path v = Inr e' \<Longrightarrow>
   header_slots e' = header_slots e \<and> (\<exists>cs. header_changes e' = header_changes e @ cs)"
  by (auto simp: edits_set_def Let_def result_simps split: option.splits if_splits)

lemma spec_set_other:
  "set_path op \<in> {''/rawMessage'', ''/action'', ''/response'', ''/response/code'',
     ''/response/enhancedCode'', ''/response/message''} \<Longrightarrow> spec_set sd ls op hs = hs"
  by (auto simp: spec_set_def array_index_def)

lemma translate_set_abs:
  assumes "translate_set sd b64d s False tr op = Inr tr'" and "original_slots s (tr_edits tr)"
    and "distinct (map fst (header_changes (tr_edits tr')))"
  shows "abs_headers ls (headers (message s)) (tr_edits tr') =
    spec_set sd ls op (abs_headers ls (headers (message s)) (tr_edits tr))"
proof (cases "set_path op \<in> {''/rawMessage'', ''/action'', ''/response'', ''/response/code'',
     ''/response/enhancedCode'', ''/response/message''}")
  case True
  then have "tr_edits tr' = tr_edits tr"
    using assms(1) by (auto simp: translate_set_def Let_def result_simps split: if_splits)
  with spec_set_other [OF True] show ?thesis by simp
next
  case False
  with assms(1) have "edits_set sd s (tr_edits tr) (set_path op) (set_value op) = Inr (tr_edits tr')"
    by (auto simp: translate_set_def Let_def result_simps)
  from edits_set_abs [OF this assms(2,3)] show ?thesis .
qed

lemma translate_set_frame:
  "translate_set sd b64d s hr tr op = Inr tr' \<Longrightarrow>
   header_slots (tr_edits tr') = header_slots (tr_edits tr) \<and>
   (\<exists>cs. header_changes (tr_edits tr') = header_changes (tr_edits tr) @ cs)"
  by (auto simp: translate_set_def Let_def result_simps dest: edits_set_frame split: if_splits)

lemma translate_sets_frame:
  "fold_r (translate_set sd b64d s hr) tr xs = Inr tr' \<Longrightarrow>
   header_slots (tr_edits tr') = header_slots (tr_edits tr) \<and>
   (\<exists>cs. header_changes (tr_edits tr') = header_changes (tr_edits tr) @ cs)"
  by (induction xs arbitrary: tr) (fastforce simp: result_simps dest: translate_set_frame)+

lemma translate_sets_abs:
  assumes "fold_r (translate_set sd b64d s False) tr xs = Inr tr'" and "original_slots s (tr_edits tr)"
    and "distinct (map fst (header_changes (tr_edits tr')))"
  shows "abs_headers ls (headers (message s)) (tr_edits tr') =
    fold (spec_set sd ls) xs (abs_headers ls (headers (message s)) (tr_edits tr))"
  using assms(1,2)
proof (induction xs arbitrary: tr)
  case (Cons x xs)
  then obtain t where x: "translate_set sd b64d s False tr x = Inr t"
    and rest: "fold_r (translate_set sd b64d s False) t xs = Inr tr'" by (auto simp: result_simps)
  have "distinct (map fst (header_changes (tr_edits t)))"
    using translate_sets_frame [OF rest] assms(3) by auto
  moreover have "original_slots s (tr_edits t)"
    using translate_set_frame [OF x] Cons.prems(2) by (simp add: original_slots_def)
  ultimately show ?case
    using Cons.IH [OF rest] translate_set_abs [OF x Cons.prems(2)] by simp
qed (use assms(1) in simp)

lemma insert_slot_map:
  assumes "insert_slot slots index x what = Inr slots'"
  shows "map f slots' =
    insert_header (case index of None \<Rightarrow> length (map f slots) | Some i \<Rightarrow> unat i) (f x) (map f slots)"
  using assms
  by (auto simp: insert_slot_def insert_header_def take_map drop_map split: option.splits if_splits)

lemma translate_add_abs:
  assumes "translate_add sd s False e a = Inr e'" and "edits_inv s e"
  shows "abs_headers ls hs e' = spec_add sd ls a (abs_headers ls hs e)"
proof (cases "add_path a = ''/message/headers''")
  case True
  with assms(1) obtain h slots where h: "de_header sd (add_value a) = Some h"
    and ins: "insert_slot (header_slots e) (add_index a) (Added (length (added_headers e)))
      ''header insertion index'' = Inr slots"
    and e': "e' = e\<lparr>added_headers := added_headers e @ [Some h], header_slots := slots\<rparr>"
    by (auto simp: translate_add_def edits_add_def result_simps split: if_splits)
  let ?f = "slot_header ls hs (header_changes e) (added_headers e @ [Some h])"
  have "map ?f (header_slots e) = abs_headers ls hs e"
    unfolding abs_headers_def
  proof (rule map_cong [OF refl])
    fix x assume "x \<in> set (header_slots e)"
    with assms(2) show "?f x = slot_header ls hs (header_changes e) (added_headers e) x"
      by (cases x) (auto simp: edits_inv_def slots_inv_def nth_append)
  qed
  with insert_slot_map [OF ins, of ?f] h True show ?thesis
    by (auto simp: e' spec_add_def abs_headers_def split: option.splits)
next
  case False
  with assms(1) show ?thesis
    by (auto simp: translate_add_def edits_add_def result_simps spec_add_def abs_headers_def split: if_splits)
qed

lemma delete_header_abs:
  assumes "delete_header i e = Inr e'" and "edits_inv s e"
  shows "abs_headers ls hs e' = remove_at i (abs_headers ls hs e)"
proof -
  let ?f = "slot_header ls hs (header_changes e) (added_headers e)"
  have i: "i < length (header_slots e)" using assms(1) by (auto simp: delete_header_def split: if_splits)
  have d: "distinct (header_slots e)" using assms(2) by (simp add: edits_inv_def slots_inv_def)
  have rm: "map ?f (remove_at i (header_slots e)) = remove_at i (map ?f (header_slots e))"
    by (simp add: remove_at_def take_map drop_map)
  show ?thesis
  proof (cases "header_slots e ! i")
    case (Original j)
    with assms(1) i rm show ?thesis by (auto simp: delete_header_def Let_def abs_headers_def)
  next
    case (Added j)
    obtain ys zs where yz: "header_slots e = ys @ header_slots e ! i # zs"
      "remove_at i (header_slots e) = ys @ zs" using i by (rule remove_at_split)
    have "header_slots e ! i \<notin> set (ys @ zs)"
      using d yz(1) by (metis distinct_append distinct.simps(2) Un_iff disjoint_iff list.set_intros(1) set_append)
    then have "slot_header ls hs (header_changes e) ((added_headers e)[j := None]) x = ?f x"
      if "x \<in> set (remove_at i (header_slots e))" for x
      using that yz(2) Added by (cases x; cases "x = Added j") auto
    then have "map (slot_header ls hs (header_changes e) ((added_headers e)[j := None]))
        (remove_at i (header_slots e)) = remove_at i (map ?f (header_slots e))"
      unfolding rm [symmetric] by (rule map_cong [OF refl])
    with assms(1) i Added show ?thesis
      by (auto simp: delete_header_def Let_def abs_headers_def split: if_splits)
  qed
qed

lemma translate_delete_abs:
  assumes "translate_delete False e path = Inr e'" and "edits_inv s e"
  shows "abs_headers ls hs e' = spec_delete path (abs_headers ls hs e)"
proof -
  have "delete_recipient i e = Inr e' \<Longrightarrow> abs_headers ls hs e' = abs_headers ls hs e" for i
    by (auto simp: delete_recipient_def Let_def abs_headers_def split: if_splits slot.splits)
  with assms delete_header_abs show ?thesis
    by (fastforce simp: translate_delete_def edits_delete_def spec_delete_def
        split: option.splits list.splits prod.splits)
qed

lemma translate_adds_abs:
  assumes "fold_r (translate_add sd s False) e xs = Inr e'" and "edits_inv s e"
  shows "abs_headers ls hs e' = fold (spec_add sd ls) xs (abs_headers ls hs e)"
  using assms
proof (induction xs arbitrary: e)
  case (Cons x xs)
  then obtain e1 where x: "translate_add sd s False e x = Inr e1"
    and rest: "fold_r (translate_add sd s False) e1 xs = Inr e'" by (auto simp: result_simps)
  from Cons.IH [OF rest translate_add_inv [OF x Cons.prems(2)]] translate_add_abs [OF x Cons.prems(2)]
  show ?case by simp
qed simp

lemma translate_deletes_abs:
  assumes "fold_r (translate_delete False) e xs = Inr e'" and "edits_inv s e"
  shows "abs_headers ls hs e' = fold spec_delete xs (abs_headers ls hs e)"
  using assms
proof (induction xs arbitrary: e)
  case (Cons x xs)
  then obtain e1 where x: "translate_delete False e x = Inr e1"
    and rest: "fold_r (translate_delete False) e1 xs = Inr e'" by (auto simp: result_simps)
  from Cons.IH [OF rest translate_delete_inv [OF x Cons.prems(2)]] translate_delete_abs [OF x Cons.prems(2)]
  show ?case by simp
qed simp

lemma abs_headers_new: "abs_headers ls (headers (message s)) (edits_new s) = headers (message s)"
  by (simp add: abs_headers_def edits_new_def map_nth comp_def)

lemma edits_add_changes: "translate_add sd s hr e a = Inr e' \<Longrightarrow> header_changes e' = header_changes e"
  by (auto simp: translate_add_def edits_add_def result_simps split: if_splits)

lemma edits_delete_changes: "translate_delete hr e p = Inr e' \<Longrightarrow> header_changes e' = header_changes e"
  by (auto simp: translate_delete_def edits_delete_def delete_header_def delete_recipient_def Let_def
      split: if_splits option.splits list.splits slot.splits)

lemma translate_ops_abs:
  assumes "translate_ops sd b64d s ops = Inr tr" and "\<not> has_raw_set ops"
    and "distinct (map fst (header_changes (tr_edits tr)))"
  shows "abs_headers ls (headers (message s)) (tr_edits tr) = spec_headers sd ls ops (headers (message s))"
proof -
  from assms(1,2) obtain tr0 e1 e2 where
    a: "fold_r (translate_set sd b64d s False) (new_translation s) (list_or_empty (ops_set ops)) = Inr tr0" and
    b: "fold_r (translate_add sd s False) (tr_edits tr0) (list_or_empty (ops_add ops)) = Inr e1" and
    c: "fold_r (translate_delete False) e1 (list_or_empty (ops_delete ops)) = Inr e2" and
    tr: "tr = tr0\<lparr>tr_edits := e2\<rparr>"
    by (auto elim: translate_ops_Inr)
  have i0: "edits_inv s (tr_edits tr0)"
    using a by (rule fold_r_invariant [where P = "\<lambda>t. edits_inv s (tr_edits t)"])
      (auto simp: new_translation_def edits_new_inv dest: translate_set_inv)
  have i1: "edits_inv s e1" using b i0 by (rule fold_r_invariant) (auto dest: translate_add_inv)
  have c1: "header_changes e1 = header_changes (tr_edits tr0)"
    using b by (rule fold_r_invariant) (auto dest: edits_add_changes)
  have "header_changes e2 = header_changes e1"
    using c by (rule fold_r_invariant) (auto dest: edits_delete_changes)
  with c1 tr assms(3) have d: "distinct (map fst (header_changes (tr_edits tr0)))" by simp
  have "original_slots s (tr_edits (new_translation s))"
    by (simp add: new_translation_def original_slots_def edits_new_def)
  from translate_sets_abs [OF a this d, of ls] translate_adds_abs [OF b i0, of ls "headers (message s)"]
    translate_deletes_abs [OF c i1, of ls "headers (message s)"] tr
  show ?thesis by (simp add: spec_headers_def new_translation_def abs_headers_new)
qed

text \<open>The operations never empty a header: the wire protocol reads an empty value as a deletion.\<close>

definition no_empty_values :: "serde \<Rightarrow> op_lists \<Rightarrow> bool" where
  "no_empty_values sd ops \<longleftrightarrow> (\<forall>op \<in> set (list_or_empty (ops_set ops)). \<forall>i tail.
     array_index (set_path op) ''/message/headers'' = Some (i, tail) \<longrightarrow>
     set_text sd tail (set_value op) \<noteq> Some [])"

lemma edits_set_change:
  assumes "edits_set sd s e path v = Inr e'"
  shows "header_changes e' = header_changes e \<or> (\<exists>i tail w.
    array_index path ''/message/headers'' = Some (i, tail) \<and> set_text sd tail v = Some w \<and>
    header_changes e' = header_changes e @ [(i, w)])"
proof (cases "array_index path ''/message/headers''")
  case None
  with assms show ?thesis by (auto simp: edits_set_def result_simps split: if_splits)
next
  case (Some p)
  then obtain i tail where "array_index path ''/message/headers'' = Some (i, tail)" by (cases p) auto
  with assms show ?thesis by (elim edits_set_header) auto
qed

lemma translate_set_edits:
  "translate_set sd b64d s hr tr op = Inr tr' \<Longrightarrow> tr_edits tr' = tr_edits tr \<or>
   edits_set sd s (tr_edits tr) (set_path op) (set_value op) = Inr (tr_edits tr')"
  by (auto simp: translate_set_def Let_def result_simps split: if_splits)

lemma translate_ops_values:
  assumes "translate_ops sd b64d s ops = Inr tr" and "no_empty_values sd ops"
  shows "\<forall>w \<in> snd ` set (header_changes (tr_edits tr)). w \<noteq> []"
proof -
  from assms(1) obtain tr0 e1 e2 where
    a: "fold_r (translate_set sd b64d s (has_raw_set ops)) (new_translation s) (list_or_empty (ops_set ops)) = Inr tr0" and
    b: "fold_r (translate_add sd s (has_raw_set ops)) (tr_edits tr0) (list_or_empty (ops_add ops)) = Inr e1" and
    c: "fold_r (translate_delete (has_raw_set ops)) e1 (list_or_empty (ops_delete ops)) = Inr e2" and
    tr: "tr = tr0\<lparr>tr_edits := e2\<rparr>"
    by (rule translate_ops_Inr)
  let ?P = "\<lambda>t. \<forall>w \<in> snd ` set (header_changes (tr_edits t)). w \<noteq> []"
  have "?P tr0"
    using a
  proof (rule fold_r_invariant)
    show "?P (new_translation s)" by (simp add: new_translation_def edits_new_def)
    fix t op t' assume "op \<in> set (list_or_empty (ops_set ops))" "?P t"
      "translate_set sd b64d s (has_raw_set ops) t op = Inr t'"
    with assms(2) show "?P t'"
      using translate_set_edits [of sd b64d s _ t op t'] edits_set_change [of sd s "tr_edits t"]
      by (fastforce simp: no_empty_values_def)
  qed
  moreover have "header_changes e1 = header_changes (tr_edits tr0)"
    using b by (rule fold_r_invariant) (auto dest: edits_add_changes)
  moreover have "header_changes e2 = header_changes e1"
    using c by (rule fold_r_invariant) (auto dest: edits_delete_changes)
  ultimately show ?thesis using tr by simp
qed

lemma edits_modifications_distinct:
  assumes "edits_modifications e s = Inr ms"
  shows "distinct (map fst (header_changes e))"
  using assms
  by (rule edits_modifications_Inr) (use emit_changes_Inr distinct_sorted_edits(1) in blast)

lemma translate_ops_no_raw:
  assumes "translate_ops sd b64d s ops = Inr tr" and "\<not> has_raw_set ops"
  shows "tr_raw tr = None"
  using assms(1)
proof (rule translate_ops_Inr)
  fix tr0 e1 e2
  assume tr: "tr = tr0\<lparr>tr_edits := e2\<rparr>" and a: "fold_r (translate_set sd b64d s (has_raw_set ops))
    (new_translation s) (list_or_empty (ops_set ops)) = Inr tr0"
  have "tr_raw tr0 = None"
    using a
  proof (rule fold_r_invariant)
    fix t op t' assume "op \<in> set (list_or_empty (ops_set ops))" "tr_raw t = None"
      "translate_set sd b64d s (has_raw_set ops) t op = Inr t'"
    with assms(2) show "tr_raw t' = None"
      by (auto simp: translate_set_def Let_def result_simps has_raw_set_def list_ex_iff split: if_splits)
  qed (simp add: new_translation_def)
  with tr show ?thesis by simp
qed

lemma translate_add_slots:
  "translate_add sd s hr e a = Inr e' \<Longrightarrow> length (header_slots e') \<le> length (header_slots e) + 1"
  by (auto simp: translate_add_def edits_add_def result_simps insert_slot_def
      split: if_splits option.splits)

lemma translate_delete_slots:
  "translate_delete hr e p = Inr e' \<Longrightarrow> length (header_slots e') \<le> length (header_slots e)"
  by (auto simp: translate_delete_def edits_delete_def delete_header_def delete_recipient_def Let_def
      remove_at_def split: if_splits option.splits list.splits slot.splits)

lemma translate_ops_slots:
  assumes "translate_ops sd b64d s ops = Inr tr"
  shows "length (header_slots (tr_edits tr)) \<le>
    length (headers (message s)) + length (list_or_empty (ops_add ops))"
proof -
  from assms obtain tr0 e1 e2 where
    a: "fold_r (translate_set sd b64d s (has_raw_set ops)) (new_translation s) (list_or_empty (ops_set ops)) = Inr tr0" and
    b: "fold_r (translate_add sd s (has_raw_set ops)) (tr_edits tr0) (list_or_empty (ops_add ops)) = Inr e1" and
    c: "fold_r (translate_delete (has_raw_set ops)) e1 (list_or_empty (ops_delete ops)) = Inr e2" and
    tr: "tr = tr0\<lparr>tr_edits := e2\<rparr>"
    by (rule translate_ops_Inr)
  have "fold_r (translate_add sd s hr) e xs = Inr e' \<Longrightarrow>
      length (header_slots e') \<le> length (header_slots e) + length xs" for hr e xs e'
    by (induction xs arbitrary: e) (fastforce simp: result_simps dest: translate_add_slots)+
  from this [OF b] have "length (header_slots e1) \<le> length (headers (message s)) + length (list_or_empty (ops_add ops))"
    using translate_sets_frame [OF a] by (simp add: new_translation_def edits_new_def)
  moreover have "length (header_slots e2) \<le> length (header_slots e1)"
    using c by (rule fold_r_invariant) (auto dest: translate_delete_slots order_trans)
  ultimately show ?thesis using tr by simp
qed

lemma translate_edit_effect:
  assumes "translate sd b64d value s stage = Inr d" and "de_operations sd value = Some ops"
    and "\<not> has_raw_set ops" and "no_empty_values sd ops"
    and "length (headers (message s)) + lim_modifications (limits s) < 2 ^ 32"
  shows "apply_headers (leading_space s) (modifications d) (headers (message s)) =
    spec_headers sd (leading_space s) ops (headers (message s))"
proof -
  from assms(1) obtain ops' tr edited where
    o: "de_operations sd value = Some ops'" "translate_ops sd b64d s ops' = Inr tr" and
    cnt: "length (list_or_empty (ops_set ops')) + length (list_or_empty (ops_add ops')) +
      length (list_or_empty (ops_delete ops')) \<le> lim_modifications (limits s)" and
    e: "edits_modifications (tr_edits tr) s = Inr edited" and
    sel: "select_verdict (tr_action tr) (tr_response tr) stage (edited @ list_or_empty (tr_raw tr)) =
      Inr (verdict d, modifications d)"
    by (rule translate_Inr)
  have tr: "translate_ops sd b64d s ops = Inr tr" using o assms(2) by simp
  have "tr_raw tr = None" using translate_ops_no_raw [OF tr assms(3)] .
  with select_verdict_Inr(1) [OF sel]
  have ap: "apply_headers (leading_space s) (modifications d) hs = apply_headers (leading_space s) edited hs" for hs
    by (auto simp: list_or_empty_def)
  have slots: "length (header_slots (tr_edits tr)) < 2 ^ 32"
    using translate_ops_slots [OF tr] cnt o(1) assms(2,5) by simp
  note edits_modifications_headers [OF translate_ops_inv [OF tr] e translate_ops_values [OF tr assms(4)] _ slots]
  moreover note translate_ops_abs [OF tr assms(3) edits_modifications_distinct [OF e]]
  ultimately show ?thesis using assms(5) ap by (simp add: abs_headers_def)
qed

section \<open>An emptied header\<close>

text \<open>Setting a header to the empty string emits what deleting it emits.\<close>

lemma empty_set_emits_delete:
  assumes "i < length (headers (message s))"
    and "edits_set sd s (edits_new s) path (JStr []) = Inr e1"
    and "array_index path ''/message/headers'' = Some (i, ''value'')"
    and "delete_header i (edits_new s) = Inr e2"
  shows "edits_modifications e1 s = edits_modifications e2 s"
proof -
  from assms(2,3) have e1: "e1 = (edits_new s)\<lparr>header_changes := [(i, [])]\<rparr>"
    by (rule edits_set_header) (simp add: set_text_def edits_new_def)
  have e2: "e2 = (edits_new s)\<lparr>header_slots := remove_at i (header_slots (edits_new s)), header_deletes := [i]\<rparr>"
    using assms(1,4) by (simp add: delete_header_def Let_def edits_new_def)
  have inv: "edits_inv s e1" "edits_inv s e2"
    using edits_set_inv [OF edits_new_inv assms(2)] delete_header_inv [OF edits_new_inv assms(4)] .
  have none: "\<forall>j. Added j \<notin> set (header_slots e1)" "\<forall>j. Added j \<notin> set (header_slots e2)"
    using inv by (simp_all add: edits_inv_def slots_inv_def e1 e2 edits_new_def)
  have "fold_r (emit_change hs) acc (sorted_edits e1) = fold_r (emit_change hs) acc (sorted_edits e2)" for hs acc
    by (simp add: sorted_edits_def e1 e2 edits_new_def emit_change_def case_prod_unfold)
  moreover have "new_from e1 = new_from e2" "recipient_deletes e1 = recipient_deletes e2"
    "added_recipients e1 = added_recipients e2" by (simp_all add: e1 e2)
  ultimately show ?thesis
    by (simp add: edits_modifications_def no_inserts [OF none(1)] no_inserts [OF none(2)])
qed

section \<open>Echoing the message\<close>

lemma translate_echo:
  assumes "session_inv s" and "state s = InBody"
    and "lim_message_bytes (limits s) < 2 ^ 32" and "0 < lim_modifications (limits s)"
    and "\<forall>(n, v) \<in> set (headers (message s)). header_name_ok n \<and> folds v"
    and "de_operations sd value = Some \<lparr>ops_set =
      Some [\<lparr>set_path = ''/rawMessage'', set_value = JStr (b64 (raw_message s))\<rparr>],
      ops_add = None, ops_delete = None\<rparr>"
    and "b64d (b64 (raw_message s)) = Some (raw_message s)"
    and "length (b64 (raw_message s)) = (length (raw_message s) + 2) div 3 * 4"
  shows "translate sd b64d value s StEndMessage = Inr \<lparr>verdict = Continue, modifications = []\<rparr>"
proof -
  have "length (raw_message s) \<le> lim_message_bytes (limits s)"
    using raw_message_length [OF assms(1,2)] by (rule order_trans)
  moreover have "length (headers (message s)) \<le> lim_headers (limits s)"
    using assms(1) by (simp add: session_inv_def size_inv_def)
  ultimately have "raw_replacement b64d (JStr (b64 (raw_message s))) s = Inr []"
    using assms(3,5,7,8) by (intro raw_replacement_same) auto
  then have "translate_ops sd b64d s \<lparr>ops_set =
      Some [\<lparr>set_path = ''/rawMessage'', set_value = JStr (b64 (raw_message s))\<rparr>],
      ops_add = None, ops_delete = None\<rparr> = Inr ((new_translation s)\<lparr>tr_raw := Some []\<rparr>)"
    by (simp add: translate_ops_def list_or_empty_def translate_set_def new_translation_def)
  moreover have "edits_modifications (edits_new s) s = Inr []"
    by (rule edits_empty_modifications [OF edits_new_inv]) (simp add: edits_is_empty_def edits_new_def)
  ultimately show ?thesis
    using assms(4,6)
    by (simp add: translate_def list_or_empty_def new_translation_def select_verdict_def)
qed

end
