(* ===== verification/Transport.thy ===== *)
theory Transport
  imports Translate_Effect
begin

text \<open>
  \<open>src/src/transport.rs\<close>: credentials, the HTTP client's settings, credential files, and the
  classification of transport errors. The \<open>url\<close>, \<open>http\<close>, \<open>reqwest\<close> and \<open>base64\<close> crates are
  arguments: a record of accessors of a URL of type \<open>'u\<close>, a predicate for legal header values,
  the client constructor. A duration is a number of milliseconds.
\<close>

section \<open>The libraries\<close>

record ('u, 'o) url_lib =
  url_scheme :: "'u \<Rightarrow> bytes"
  url_host :: "'u \<Rightarrow> bytes option"
  url_username :: "'u \<Rightarrow> bytes"
  url_password :: "'u \<Rightarrow> bytes option"
  url_query :: "'u \<Rightarrow> bytes option"
  url_fragment :: "'u \<Rightarrow> bytes option"
  url_path :: "'u \<Rightarrow> bytes"
  url_origin :: "'u \<Rightarrow> 'o"
  url_join :: "'u \<Rightarrow> bytes \<Rightarrow> 'u option"

record reqwest_error =
  is_timeout :: bool
  is_connect :: bool
  is_decode :: bool
  is_body :: bool
  is_request :: bool
  is_builder :: bool

definition http_error :: "reqwest_error \<Rightarrow> error" where
  "http_error e = HttpTransport
     (if is_timeout e then HkTimeout
      else if is_connect e then HkConnect
      else if is_decode e then HkDecode
      else if is_body e then HkBody
      else if is_request e \<or> is_builder e then HkRequest
      else HkOther)"

section \<open>Credentials\<close>

record authentication =
  auth_value :: bytes
  auth_sensitive :: bool

definition auth_header :: "(bytes \<Rightarrow> bool) \<Rightarrow> bytes \<Rightarrow> authentication result" where
  "auth_header header_ok value =
     (if header_ok value then Inr \<lparr>auth_value = value, auth_sensitive = True\<rparr>
      else Inl (Invalid ''invalid authorization header''))"

definition bearer :: "(bytes \<Rightarrow> bool) \<Rightarrow> bytes \<Rightarrow> authentication result" where
  "bearer header_ok token =
     (if token = [] \<or> list_ex (\<lambda>b. is_ascii_whitespace b \<or> is_ascii_control b) token
      then Inl (Invalid ''nonempty single-line bearer token required'')
      else auth_header header_ok (''Bearer '' @ token))"

definition basic ::
  "(bytes \<Rightarrow> bool) \<Rightarrow> (bytes \<Rightarrow> bytes) \<Rightarrow> bytes \<Rightarrow> bytes \<Rightarrow> authentication result" where
  "basic header_ok b64 username password =
     (if username = [] \<or> CHR '':'' \<in> set username \<or> password = [] \<or>
         list_ex is_ascii_control (username @ password)
      then Inl (Invalid ''invalid basic credentials'')
      else auth_header header_ok (''Basic '' @ b64 (username @ CHR '':'' # password)))"

section \<open>Client settings\<close>

datatype 'u proxy_mode = ProxyEnvironment | ProxyDisabled | ProxyExplicit 'u

record ('c, 'i, 'u) transport_options =
  root_certificates :: "'c list"
  built_in_roots :: bool
  identity :: "'i option"
  proxy :: "'u proxy_mode"
  connect_timeout :: nat
  pool_idle_timeout :: nat
  pool_max_idle_per_host :: nat
  gzip :: bool

definition default_transport :: "('c, 'i, 'u) transport_options" where
  "default_transport = \<lparr>root_certificates = [], built_in_roots = True, identity = None,
     proxy = ProxyEnvironment, connect_timeout = 5000, pool_idle_timeout = 90000,
     pool_max_idle_per_host = 16, gzip = False\<rparr>"

text \<open>What the builder of \<open>reqwest::Client\<close> has been told.\<close>

record ('c, 'i, 'u) client_builder =
  cb_redirects :: bool
  cb_timeout :: nat
  cb_connect_timeout :: nat
  cb_pool_idle_timeout :: nat
  cb_pool_max_idle :: nat
  cb_built_in_roots :: bool
  cb_gzip :: bool
  cb_certificates :: "'c list"
  cb_identity :: "'i option"
  cb_environment_proxies :: bool
  cb_proxy :: "'u option"

definition proxy_origin :: "('u, 'o) url_lib \<Rightarrow> 'u \<Rightarrow> bool" where
  "proxy_origin lib url \<longleftrightarrow>
     url_scheme lib url \<in> {''http'', ''https''} \<and> url_host lib url \<noteq> None \<and>
     url_username lib url = [] \<and> url_password lib url = None \<and> url_query lib url = None \<and>
     url_fragment lib url = None \<and> url_path lib url = ''/''"

definition transport_build ::
  "('u, 'o) url_lib \<Rightarrow> ('u \<Rightarrow> reqwest_error option) \<Rightarrow>
   (('c, 'i, 'u) client_builder \<Rightarrow> reqwest_error + 'k) \<Rightarrow>
   ('c, 'i, 'u) transport_options \<Rightarrow> nat \<Rightarrow> 'k result" where
  "transport_build lib proxy_all build_client t timeout =
     (if timeout = 0 \<or> connect_timeout t = 0 \<or> pool_idle_timeout t = 0
      then Inl (Invalid ''HTTP timeouts must be positive'')
      else if \<not> built_in_roots t \<and> root_certificates t = []
      then Inl (Invalid ''custom-only trust requires a root CA'')
      else
        (let builder = \<lparr>cb_redirects = False, cb_timeout = timeout,
               cb_connect_timeout = min timeout (connect_timeout t),
               cb_pool_idle_timeout = pool_idle_timeout t, cb_pool_max_idle = pool_max_idle_per_host t,
               cb_built_in_roots = built_in_roots t, cb_gzip = gzip t,
               cb_certificates = root_certificates t, cb_identity = identity t,
               cb_environment_proxies = True, cb_proxy = None\<rparr> in
         bind_r (case proxy t of
                   ProxyEnvironment \<Rightarrow> Inr builder
                 | ProxyDisabled \<Rightarrow> Inr (builder\<lparr>cb_environment_proxies := False\<rparr>)
                 | ProxyExplicit url \<Rightarrow>
                     if \<not> proxy_origin lib url
                     then Inl (Invalid ''proxy must be an HTTP(S) origin without credentials'')
                     else (case proxy_all url of
                       Some e \<Rightarrow> Inl (http_error e)
                     | None \<Rightarrow> Inr (builder\<lparr>cb_environment_proxies := False, cb_proxy := Some url\<rparr>)))
           (\<lambda>b. case build_client b of Inl e \<Rightarrow> Inl (http_error e) | Inr k \<Rightarrow> Inr k)))"

section \<open>Credential files\<close>

text \<open>A file that can be opened: whether it is regular (\<open>None\<close>: \<open>stat\<close> fails), and what reading
  it yields (\<open>None\<close>: an I/O error).\<close>

record stored_file =
  file_regular :: "bool option"
  file_content :: "bytes option"

type_synonym file_system = "bytes \<Rightarrow> stored_file option"

definition read_config_file :: "file_system \<Rightarrow> bytes \<Rightarrow> nat \<Rightarrow> bytes result" where
  "read_config_file fs path limit =
     bind_r (ok_or (Invalid ''cannot open credential/CA file'') (fs path)) (\<lambda>f.
     bind_r (ok_or (Invalid ''cannot stat credential/CA file'') (file_regular f)) (\<lambda>regular.
     bind_r (ensure regular (Invalid ''credential/CA file must be a regular file'')) (\<lambda>_.
     bind_r (ok_or (Invalid ''cannot read credential/CA file'') (file_content f)) (\<lambda>content.
       let bytes = take (limit + 1) content in
       if limit < length bytes then Inl (Limit ''credential/CA file'') else Inr bytes))))"

definition strip_line_end :: "bytes \<Rightarrow> bytes" where
  "strip_line_end s =
     (if ends_with [LF] s
      then (let s' = butlast s in if ends_with [CR] s' then butlast s' else s')
      else s)"

definition read_secret_file :: "file_system \<Rightarrow> bytes \<Rightarrow> bytes result" where
  "read_secret_file fs path =
     bind_r (read_config_file fs path 8192) (\<lambda>bytes.
     bind_r (ensure (utf8_valid bytes) (Invalid ''credential file must be UTF-8'')) (\<lambda>_.
       let secret = strip_line_end bytes in
       if secret = [] \<or> list_ex is_ascii_control secret
       then Inl (Invalid ''credential file must contain one nonempty line'')
       else Inr secret))"

section \<open>What the settings guarantee\<close>

text \<open>A client that was built: no redirects, deadlines within the policy timeout, some trust
  anchor, and at most an explicit proxy that is a bare origin.\<close>

lemma transport_build_Inr:
  assumes "transport_build lib proxy_all build_client t timeout = Inr k"
  shows "\<exists>b. build_client b = Inr k \<and> \<not> cb_redirects b \<and> 0 < cb_connect_timeout b \<and>
    cb_connect_timeout b \<le> cb_timeout b \<and> cb_timeout b = timeout \<and>
    (cb_built_in_roots b \<or> cb_certificates b \<noteq> []) \<and>
    (\<forall>u. cb_proxy b = Some u \<longrightarrow> proxy_origin lib u \<and> \<not> cb_environment_proxies b)"
proof -
  from assms obtain b where b: "build_client b = Inr k" and
    "0 < timeout" "0 < connect_timeout t" "built_in_roots t \<or> root_certificates t \<noteq> []"
    "cb_redirects b = False" "cb_timeout b = timeout" "cb_connect_timeout b = min timeout (connect_timeout t)"
    "cb_built_in_roots b = built_in_roots t" "cb_certificates b = root_certificates t"
    "\<forall>u. cb_proxy b = Some u \<longrightarrow> proxy_origin lib u \<and> \<not> cb_environment_proxies b"
    by (auto simp: transport_build_def Let_def result_simps
        split: if_splits proxy_mode.splits option.splits sum.splits)
  then show ?thesis by (intro exI [of _ b]) auto
qed

definition one_line :: "bytes \<Rightarrow> bool" where
  "one_line s \<longleftrightarrow> list_all (\<lambda>c. \<not> is_ascii_control c) s"

lemma control_line_ends: "is_ascii_control LF" "is_ascii_control CR"
  by (simp_all add: is_ascii_control_def)

lemma bearer_Inr:
  "bearer header_ok token = Inr a \<Longrightarrow>
   auth_value a = ''Bearer '' @ token \<and> auth_sensitive a \<and> one_line (auth_value a) \<and> header_ok (auth_value a)"
  by (auto simp: bearer_def auth_header_def one_line_def list_ex_iff list_all_iff is_ascii_control_def
      split: if_splits)

lemma ends_with_last: "ends_with [c] s \<longleftrightarrow> s \<noteq> [] \<and> last s = c"
  by (cases s rule: rev_cases) (auto simp: ends_with_iff)

lemma strip_line_end_line:
  assumes "one_line s" and "s \<noteq> []" and "eol \<in> {[], [LF], [CR, LF]}"
  shows "strip_line_end (s @ eol) = s"
proof -
  have "last s \<in> set s" using assms(2) by simp
  with assms(1) control_line_ends have "last s \<noteq> LF" "last s \<noteq> CR" by (auto simp: one_line_def list_all_iff)
  with assms(2,3) show ?thesis by (auto simp: strip_line_end_def ends_with_last butlast_append Let_def)
qed

lemma read_secret_file_line:
  assumes "fs path = Some \<lparr>file_regular = Some True, file_content = Some (s @ eol)\<rparr>"
    and "one_line s" and "s \<noteq> []" and "utf8_valid s" and "eol \<in> {[], [LF], [CR, LF]}"
    and "length (s @ eol) \<le> 8192"
  shows "read_secret_file fs path = Inr s"
proof -
  have "utf8_valid eol" using assms(5) by auto
  then have "utf8_valid (s @ eol)" using assms(4) by (rule utf8_valid_append [rotated])
  moreover have "\<not> list_ex is_ascii_control s"
    using assms(2) by (auto simp: one_line_def list_ex_iff list_all_iff)
  ultimately show ?thesis
    using assms(1,3,6) strip_line_end_line [OF assms(2,3,5)]
    by (simp add: read_secret_file_def read_config_file_def)
qed

lemma read_secret_file_Inr:
  assumes "read_secret_file fs path = Inr s"
  shows "one_line s \<and> s \<noteq> [] \<and> length s \<le> 8192"
proof -
  from assms obtain b where b: "length b \<le> 8192" "s = strip_line_end b" "s \<noteq> []" "\<not> list_ex is_ascii_control s"
    by (auto simp: read_secret_file_def read_config_file_def result_simps Let_def not_less split: if_splits)
  have "length s \<le> length b" by (simp add: b(2) strip_line_end_def Let_def)
  with b show ?thesis by (auto simp: one_line_def list_ex_iff list_all_iff)
qed

end
