(* ===== verification/Client_World.thy ===== *)
theory Client_World
  imports Transport Server
begin

text \<open>
  \<open>src/src/hooks.rs\<close>, what the scanner client works on: its options, the registration, the client
  itself, and the world it acts in. The world holds the replies still to come with the time each
  takes (headers and body together), the log of requests sent, the monotonic clock in
  milliseconds, the registration cached behind the mutex, the random numbers, and the metrics.
  A list of lock turns stands for the other tasks: whether the mutex is contended, for how long,
  and what they wrote to the cache. The metrics are shared with those tasks and with the server,
  but only ever added to; the model follows the additions of one task.

  A future that is dropped at the deadline of a surrounding \<open>tokio::time::timeout\<close> stops with
  \<open>Cancelled\<close>, which is not an error value: an observation it holds is dropped unfinished, and
  the timeout turns it into \<open>Error::Timeout\<close>.
\<close>

section \<open>Options, registration, client\<close>

record hooks_options =
  opt_stages :: "stage list"
  opt_retries :: nat
  opt_startup_wait :: nat
  opt_deregister :: bool
  opt_request_macros :: bool

definition default_hooks_options :: hooks_options where
  "default_hooks_options = \<lparr>opt_stages = [StEndMessage], opt_retries = 2, opt_startup_wait = 0,
     opt_deregister = True, opt_request_macros = True\<rparr>"

record 'u registration =
  reg_id :: bytes
  reg_endpoint :: 'u
  reg_deregistration :: "'u option"
  reg_expires :: "int option"
  reg_properties :: "bytes list"

text \<open>The parts of the client that are other crates' code.\<close>

record ('u, 'o, 'f) hooks_lib =
  lib_url :: "('u, 'o) url_lib"
  lib_json :: "bytes \<Rightarrow> json option"
  lib_serde :: serde
  lib_b64 :: "bytes \<Rightarrow> bytes"
  lib_b64_decode :: "bytes \<Rightarrow> bytes option"
  lib_parse_time :: "bytes \<Rightarrow> int option"
  lib_show_time :: "int \<Rightarrow> bytes"
  lib_utc :: "nat \<Rightarrow> int"
  lib_version :: bytes
  lib_floats :: "'f float_ops"

text \<open>The constructors of \<open>reqwest::Proxy\<close> and \<open>reqwest::Client\<close>.\<close>

record ('u, 'c, 'i, 'k) reqwest_lib =
  proxy_all :: "'u \<Rightarrow> reqwest_error option"
  build_client :: "('c, 'i, 'u) client_builder \<Rightarrow> reqwest_error + 'k"

record ('u, 'o, 'f) hooks_client =
  hc_lib :: "('u, 'o, 'f) hooks_lib"
  hc_url :: 'u
  hc_auth :: authentication
  hc_name :: bytes
  hc_timeout :: nat
  hc_response_limit :: nat
  hc_insecure_loopback :: bool
  hc_options :: hooks_options

section \<open>Requests, replies and the world\<close>

datatype http_method = POST | DELETE

record 'u http_request =
  rq_method :: http_method
  rq_url :: 'u
  rq_authorization :: bytes
  rq_registration :: "bytes option"
  rq_request_id :: "bytes option"
  rq_json :: "json option"

text \<open>A header of a reply is its text as \<open>HeaderValue::to_str\<close> gives it, if it does.\<close>

record http_response =
  rp_status :: u16
  rp_content_type :: "bytes option"
  rp_content_length :: "nat option"
  rp_chunks :: "(reqwest_error + bytes) list"
  rp_retry_after :: "bytes option"

record 'u lock_turn =
  lk_wait :: "nat option"
  lk_cache :: "'u registration option option"

record ('u, 'f) world =
  w_now :: nat
  w_script :: "(nat \<times> (reqwest_error + http_response)) list"
  w_locks :: "'u lock_turn list"
  w_cache :: "'u registration option"
  w_log :: "'u http_request list"
  w_uuids :: "nat list"
  w_stats :: "'f stats"

datatype 'e stop = Cancelled | Raised 'e

text \<open>A computation that neither waits nor can be cancelled, and the end of a timeout.\<close>

definition ready_r :: "'e + 'a \<Rightarrow> 'e stop + 'a" where
  "ready_r r = (case r of Inl e \<Rightarrow> Inl (Raised e) | Inr x \<Rightarrow> Inr x)"

definition await :: "error stop + 'a \<Rightarrow> 'a result" where
  "await r = (case r of Inl Cancelled \<Rightarrow> Inl Timeout | Inl (Raised e) \<Rightarrow> Inl e | Inr x \<Rightarrow> Inr x)"

lemma ready_r_simps [simp]: "ready_r (Inl e) = Inl (Raised e)" "ready_r (Inr x) = Inr x"
  by (simp_all add: ready_r_def)

lemma await_simps [simp]:
  "await (Inl Cancelled) = Inl Timeout" "await (Inl (Raised e)) = Inl e" "await (Inr x) = Inr x"
  by (simp_all add: await_def)

lemma ready_r_iff [result_simps]:
  "ready_r r = Inr x \<longleftrightarrow> r = Inr x" "ready_r r = Inl (Raised e) \<longleftrightarrow> r = Inl e" "ready_r r \<noteq> Inl Cancelled"
  by (simp_all add: ready_r_def split: sum.splits)

lemma await_Inr_iff [result_simps]: "await r = Inr x \<longleftrightarrow> r = Inr x"
  by (simp add: await_def split: sum.splits stop.splits)

text \<open>One request: \<open>send().await.map_err(http_error)\<close>.\<close>

definition exchange ::
  "nat \<Rightarrow> 'u http_request \<Rightarrow> ('u, 'f) world \<Rightarrow> (error stop + http_response) \<times> ('u, 'f) world" where
  "exchange deadline rq w =
     (let w' = w\<lparr>w_log := w_log w @ [rq]\<rparr> in
      case w_script w of
        [] \<Rightarrow> (Inl Cancelled, w'\<lparr>w_now := max (w_now w) deadline\<rparr>)
      | (t, r) # rest \<Rightarrow>
          if deadline < w_now w + t
          then (Inl Cancelled, w'\<lparr>w_script := rest, w_now := max (w_now w) deadline\<rparr>)
          else (ready_r (case r of Inl e \<Rightarrow> Inl (http_error e) | Inr rp \<Rightarrow> Inr rp),
                w'\<lparr>w_script := rest, w_now := w_now w + t\<rparr>))"

section \<open>Metrics of the client\<close>

datatype client_op = RegistrationWaitOp | RegistrationOp | HookOp | DeregistrationOp

fun op_of :: "client_op \<Rightarrow> 'f stats \<Rightarrow> 'f operation_stats" where
  "op_of RegistrationWaitOp st = registration_wait_op st"
| "op_of RegistrationOp st = registration_op st"
| "op_of HookOp st = hook_op st"
| "op_of DeregistrationOp st = deregistration_op st"

fun put_op :: "client_op \<Rightarrow> 'f operation_stats \<Rightarrow> 'f stats \<Rightarrow> 'f stats" where
  "put_op RegistrationWaitOp ops st = st\<lparr>registration_wait_op := ops\<rparr>"
| "put_op RegistrationOp ops st = st\<lparr>registration_op := ops\<rparr>"
| "put_op HookOp ops st = st\<lparr>hook_op := ops\<rparr>"
| "put_op DeregistrationOp ops st = st\<lparr>deregistration_op := ops\<rparr>"

definition begin_op :: "client_op \<Rightarrow> ('u, 'f) world \<Rightarrow> observation \<times> ('u, 'f) world" where
  "begin_op op w =
     (case op_begin (w_now w * 1000000) (op_of op (w_stats w)) of
        (obs, ops) \<Rightarrow> (obs, w\<lparr>w_stats := put_op op ops (w_stats w)\<rparr>))"

definition drop_op ::
  "'f float_ops \<Rightarrow> client_op \<Rightarrow> observation \<Rightarrow> ('u, 'f) world \<Rightarrow> unit result \<times> ('u, 'f) world" where
  "drop_op fl op obs w =
     (case op_drop (f64_add fl) (as_secs_f64 fl) (w_now w * 1000000) obs (op_of op (w_stats w)) of
        Inl e \<Rightarrow> (Inl e, w)
      | Inr ops \<Rightarrow> (Inr (), w\<lparr>w_stats := put_op op ops (w_stats w)\<rparr>))"

text \<open>An observed operation: the observation begins before it and is finished with its result;
  when the operation is cancelled, it is dropped as it was.\<close>

definition finish_run :: "('e \<Rightarrow> error) \<Rightarrow> 'e stop + 'a \<Rightarrow> observation \<Rightarrow> observation" where
  "finish_run err r obs =
     (case r of
        Inl Cancelled \<Rightarrow> obs
      | Inl (Raised e) \<Rightarrow> finish_error (Some (err e)) obs
      | Inr _ \<Rightarrow> finish_error None obs)"

definition observe ::
  "'f float_ops \<Rightarrow> client_op \<Rightarrow> ('e \<Rightarrow> error) \<Rightarrow> (error \<Rightarrow> 'e) \<Rightarrow>
   (('u, 'f) world \<Rightarrow> ('e stop + 'a) \<times> ('u, 'f) world) \<Rightarrow>
   ('u, 'f) world \<Rightarrow> ('e stop + 'a) \<times> ('u, 'f) world" where
  "observe fl op err from_error run w =
     (case begin_op op w of (obs, w1) \<Rightarrow>
      case run w1 of (r, w2) \<Rightarrow>
      case drop_op fl op (finish_run err r obs) w2 of
        (Inl e, w3) \<Rightarrow> (Inl (Raised (from_error e)), w3)
      | (Inr _, w3) \<Rightarrow> (r, w3))"

section \<open>The registration lock\<close>

definition acquire :: "'u lock_turn \<Rightarrow> ('u, 'f) world \<Rightarrow> ('u, 'f) world" where
  "acquire l w = w\<lparr>w_cache := (case lk_cache l of None \<Rightarrow> w_cache w | Some c \<Rightarrow> c)\<rparr>"

definition wait_lock ::
  "nat option \<Rightarrow> 'u lock_turn \<Rightarrow> nat \<Rightarrow> ('u, 'f) world \<Rightarrow> (error stop + unit) \<times> ('u, 'f) world" where
  "wait_lock deadline l t w =
     (case deadline of
        Some d \<Rightarrow>
          if d < w_now w + t then (Inl Cancelled, w\<lparr>w_now := max (w_now w) d\<rparr>)
          else (Inr (), acquire l (w\<lparr>w_now := w_now w + t\<rparr>))
      | None \<Rightarrow> (Inr (), acquire l (w\<lparr>w_now := w_now w + t\<rparr>)))"

definition registration_lock ::
  "'f float_ops \<Rightarrow> nat option \<Rightarrow> ('u, 'f) world \<Rightarrow> (error stop + unit) \<times> ('u, 'f) world" where
  "registration_lock fl deadline w =
     (case w_locks w of
        [] \<Rightarrow> (Inr (), w)
      | l # ls \<Rightarrow>
          (let w1 = w\<lparr>w_locks := ls\<rparr> in
           case lk_wait l of
             None \<Rightarrow> (Inr (), acquire l w1)
           | Some t \<Rightarrow> observe fl RegistrationWaitOp id id (wait_lock deadline l t) w1))"

section \<open>What observing leaves alone\<close>

lemma begin_op_frame [simp]:
  "w_now (snd (begin_op op w)) = w_now w" "w_script (snd (begin_op op w)) = w_script w"
  "w_locks (snd (begin_op op w)) = w_locks w" "w_cache (snd (begin_op op w)) = w_cache w"
  "w_log (snd (begin_op op w)) = w_log w" "w_uuids (snd (begin_op op w)) = w_uuids w"
  by (simp_all add: begin_op_def op_begin_def)

lemma drop_op_frame [simp]:
  "w_now (snd (drop_op fl op obs w)) = w_now w" "w_script (snd (drop_op fl op obs w)) = w_script w"
  "w_locks (snd (drop_op fl op obs w)) = w_locks w" "w_cache (snd (drop_op fl op obs w)) = w_cache w"
  "w_log (snd (drop_op fl op obs w)) = w_log w" "w_uuids (snd (drop_op fl op obs w)) = w_uuids w"
  by (simp_all add: drop_op_def split: sum.splits)

lemma put_op_frame [simp]: "hook_retries (put_op op ops st) = hook_retries st"
  "ready (put_op op ops st) = ready st"
  by (cases op; simp)+

lemma op_of_put_op [simp]: "op_of op' (put_op op ops st) = (if op' = op then ops else op_of op' st)"
  by (cases op; cases op'; simp)

lemma observed_retries [simp]:
  "hook_retries (w_stats (snd (begin_op op w))) = hook_retries (w_stats w)"
  "hook_retries (w_stats (snd (drop_op fl op obs w))) = hook_retries (w_stats w)"
  by (simp_all add: begin_op_def drop_op_def split: prod.splits sum.splits)

lemma observed_ready [simp]:
  "ready (w_stats (snd (begin_op op w))) = ready (w_stats w)"
  "ready (w_stats (snd (drop_op fl op obs w))) = ready (w_stats w)"
  by (simp_all add: begin_op_def drop_op_def split: prod.splits sum.splits)

text \<open>The world after an observed operation is that of the operation, up to the metrics.\<close>

lemma observed_world:
  "snd (observe fl op err raise run w) =
     snd (drop_op fl op (finish_run err (fst (run (snd (begin_op op w)))) (fst (begin_op op w)))
       (snd (run (snd (begin_op op w)))))"
  by (auto simp: observe_def split: prod.splits sum.splits)

lemma observed_frame:
  "w_now (snd (observe fl op err raise run w)) = w_now (snd (run (snd (begin_op op w))))"
  "w_script (snd (observe fl op err raise run w)) = w_script (snd (run (snd (begin_op op w))))"
  "w_locks (snd (observe fl op err raise run w)) = w_locks (snd (run (snd (begin_op op w))))"
  "w_cache (snd (observe fl op err raise run w)) = w_cache (snd (run (snd (begin_op op w))))"
  "w_log (snd (observe fl op err raise run w)) = w_log (snd (run (snd (begin_op op w))))"
  "w_uuids (snd (observe fl op err raise run w)) = w_uuids (snd (run (snd (begin_op op w))))"
  "hook_retries (w_stats (snd (observe fl op err raise run w))) =
     hook_retries (w_stats (snd (run (snd (begin_op op w)))))"
  "ready (w_stats (snd (observe fl op err raise run w))) = ready (w_stats (snd (run (snd (begin_op op w)))))"
  by (simp_all add: observed_world)

text \<open>Its result is that of the operation, unless the category of an error were unknown.\<close>

lemma op_drop_Inr:
  "op_drop fadd secs now obs ops = Inr ops' \<Longrightarrow>
   op_active ops' = op_active ops - 1 \<and>
   measurements.count (measured ops') = measurements.count (measured ops) + 1"
  by (auto simp: op_drop_def Let_def result_simps split: if_splits)

lemma op_drop_Inl: "op_drop fadd secs now obs ops = Inl e \<Longrightarrow> \<exists>m. e = Panic m"
  by (auto simp: op_drop_def Let_def record_failure_def kind_index_def map_r_def result_simps split: if_splits)

lemma observed_value:
  assumes "observe fl op err raise run w = (r, w')"
  shows "r = fst (run (snd (begin_op op w))) \<or> (\<exists>m. r = Inl (Raised (raise (Panic m))))"
proof -
  obtain obs w1 where b: "begin_op op w = (obs, w1)" by fastforce
  obtain x w2 where r: "run w1 = (x, w2)" by fastforce
  show ?thesis
    using assms b r op_drop_Inl
    by (auto simp: observe_def drop_op_def split: sum.splits) blast
qed

lemma observed_Inr:
  assumes "observe fl op err raise run w = (Inr x, w')"
  shows "\<exists>w2. run (snd (begin_op op w)) = (Inr x, w2)"
  using observed_value [OF assms] by (cases "run (snd (begin_op op w))") auto

text \<open>An operation that raises no panic is observed exactly: its result is returned, the gauge is
  back where it was, and one more operation is counted.\<close>

definition calm :: "('e \<Rightarrow> error) \<Rightarrow> 'e stop + 'a \<Rightarrow> bool" where
  "calm err r \<longleftrightarrow> (\<forall>e m. r = Inl (Raised e) \<longrightarrow> err e \<noteq> Panic m)"

lemma finish_run_outcome:
  assumes "calm err r"
  shows "outcome (finish_run err r (fst (begin_op op w))) \<in> insert ''success'' (set FAILURE_KINDS)"
proof (cases r)
  case (Inl s)
  show ?thesis
  proof (cases s)
    case Cancelled
    with Inl show ?thesis by (simp add: finish_run_def begin_op_def op_begin_def FAILURE_KINDS_def)
  next
    case (Raised e)
    with Inl assms kind_category [of "err e"] show ?thesis
      by (auto simp: finish_run_def finish_error_def calm_def dest: in_set_butlastD)
  qed
qed (simp add: finish_run_def finish_error_def)

lemma observed_calm:
  assumes "run (snd (begin_op op w)) = (r, w2)" and "calm err r"
  shows "fst (observe fl op err raise run w) = r"
    and "op_active (op_of op' (w_stats (snd (observe fl op err raise run w)))) =
      op_active (op_of op' (w_stats w2)) - of_bool (op' = op)"
    and "measurements.count (measured (op_of op' (w_stats (snd (observe fl op err raise run w))))) =
      measurements.count (measured (op_of op' (w_stats w2))) + of_bool (op' = op)"
proof -
  obtain obs w1 where b: "begin_op op w = (obs, w1)" by fastforce
  obtain ops where d: "op_drop (f64_add fl) (as_secs_f64 fl) (w_now w2 * 1000000) (finish_run err r obs)
      (op_of op (w_stats w2)) = Inr ops"
    using op_drop_ok [OF finish_run_outcome [OF assms(2), of op w]] b by fastforce
  show "fst (observe fl op err raise run w) = r"
    using assms(1) b d by (simp add: observe_def drop_op_def)
  show "op_active (op_of op' (w_stats (snd (observe fl op err raise run w)))) =
      op_active (op_of op' (w_stats w2)) - of_bool (op' = op)"
    and "measurements.count (measured (op_of op' (w_stats (snd (observe fl op err raise run w))))) =
      measurements.count (measured (op_of op' (w_stats w2))) + of_bool (op' = op)"
    using assms(1) b d op_drop_Inr [OF d] by (simp_all add: observe_def drop_op_def)
qed

lemma begin_op_metrics:
  "op_active (op_of op' (w_stats (snd (begin_op op w)))) = op_active (op_of op' (w_stats w)) + of_bool (op' = op)"
  "measured (op_of op' (w_stats (snd (begin_op op w)))) = measured (op_of op' (w_stats w))"
  by (simp_all add: begin_op_def op_begin_def)

end
