(* ===== verification/Registration.thy ===== *)
theory Registration
  imports Client_World
begin

text \<open>
  \<open>src/src/hooks.rs\<close>, the scanner registration: URL rules, the bounded reading of a JSON response,
  the validation of a registration, and the cached registration behind its lock.
\<close>

section \<open>URLs\<close>

definition trim_matches :: "byte set \<Rightarrow> bytes \<Rightarrow> bytes" where
  "trim_matches cs s = rev (dropWhile (\<lambda>c. c \<in> cs) (rev (dropWhile (\<lambda>c. c \<in> cs) s)))"

definition loopback_host :: "bytes option \<Rightarrow> bool" where
  "loopback_host host =
     (case host of
        None \<Rightarrow> False
      | Some s \<Rightarrow>
          (case parse_ip (trim_matches {CHR ''['', CHR '']''} s) of
             None \<Rightarrow> False
           | Some ip \<Rightarrow> is_loopback ip))"

definition validate_url :: "('u, 'o) url_lib \<Rightarrow> 'u \<Rightarrow> bool \<Rightarrow> unit result" where
  "validate_url lib url insecure_loopback =
     (let local = loopback_host (url_host lib url) in
      if url_scheme lib url \<noteq> ''https'' \<and> \<not> (insecure_loopback \<and> url_scheme lib url = ''http'' \<and> local)
      then Inl (Invalid ''HTTPS required (development HTTP needs a literal loopback IP)'')
      else if url_username lib url \<noteq> [] \<or> url_password lib url \<noteq> None \<or> url_fragment lib url \<noteq> None
      then Inl (Invalid ''URL credentials or fragment'')
      else Inr ())"

section \<open>Reading a JSON response\<close>

text \<open>\<open>str::trim\<close>: the UTF-8 encodings of the characters with the property White_Space.\<close>

definition white_space :: "bytes list" where
  "white_space =
     [[SP], [HT], [LF], [CHR 0x0B], [CHR 0x0C], [CR], [CHR 0xC2, CHR 0x85], [CHR 0xC2, CHR 0xA0],
      [CHR 0xE1, CHR 0x9A, CHR 0x80], [CHR 0xE2, CHR 0x81, CHR 0x9F], [CHR 0xE3, CHR 0x80, CHR 0x80]] @
     map (\<lambda>c. [CHR 0xE2, CHR 0x80, c])
       [CHR 0x80, CHR 0x81, CHR 0x82, CHR 0x83, CHR 0x84, CHR 0x85, CHR 0x86, CHR 0x87, CHR 0x88,
        CHR 0x89, CHR 0x8A, CHR 0xA8, CHR 0xA9, CHR 0xAF]"

lemma white_space_nonempty: "p \<in> set white_space \<Longrightarrow> p \<noteq> []"
  by (auto simp: white_space_def)

function trim_start :: "bytes \<Rightarrow> bytes" where
  "trim_start s =
     (case List.find (\<lambda>p. starts_with p s) white_space of
        None \<Rightarrow> s
      | Some p \<Rightarrow> trim_start (drop (length p) s))"
  by auto

lemma white_space_prefix:
  assumes "List.find (\<lambda>p. starts_with p s) white_space = Some p"
  shows "length s - length p < length s"
proof -
  from assms have "p \<in> set white_space" "length p \<le> length s"
    by (auto simp: find_Some_iff starts_with_iff)
  with white_space_nonempty show ?thesis by (cases p) auto
qed

termination trim_start
  by (relation "measure length") (auto dest: white_space_prefix)

function trim_end :: "bytes \<Rightarrow> bytes" where
  "trim_end s =
     (case List.find (\<lambda>p. ends_with p s) white_space of
        None \<Rightarrow> s
      | Some p \<Rightarrow> trim_end (take (length s - length p) s))"
  by auto

lemma white_space_suffix:
  assumes "List.find (\<lambda>p. ends_with p s) white_space = Some p"
  shows "length s - length p < length s"
proof -
  from assms have "p \<in> set white_space" "length p \<le> length s"
    by (auto simp: find_Some_iff ends_with_iff)
  with white_space_nonempty show ?thesis by (cases p) auto
qed

termination trim_end
  by (relation "measure length") (auto dest: white_space_suffix)

declare trim_start.simps [simp del] trim_end.simps [simp del]

definition trim :: "bytes \<Rightarrow> bytes" where
  "trim s = trim_end (trim_start s)"

fun read_chunks :: "nat \<Rightarrow> bytes \<Rightarrow> (reqwest_error + bytes) list \<Rightarrow> bytes result" where
  "read_chunks limit data [] = Inr data"
| "read_chunks limit data (Inl e # cs) = Inl (http_error e)"
| "read_chunks limit data (Inr chunk # cs) =
     (if saturating_sub limit (length data) < length chunk then Inl (Limit ''HTTP response'')
      else read_chunks limit (data @ chunk) cs)"

definition bounded_json :: "(bytes \<Rightarrow> json option) \<Rightarrow> http_response \<Rightarrow> nat \<Rightarrow> json result" where
  "bounded_json parse_json rp limit =
     (let ct = (case rp_content_type rp of None \<Rightarrow> [] | Some v \<Rightarrow> v) in
      bind_r (ensure (eq_ignore_ascii_case (trim (hd (split_on (CHR '';'') ct))) ''application/json'')
        (Invalid ''expected application/json'')) (\<lambda>_.
      bind_r (ensure (case rp_content_length rp of None \<Rightarrow> True | Some l \<Rightarrow> l \<le> limit)
        (Limit ''HTTP response'')) (\<lambda>_.
      bind_r (read_chunks limit [] (rp_chunks rp)) (\<lambda>data.
        ok_or (Invalid ''HTTP JSON'') (parse_json data)))))"

lemma read_chunks_length: "read_chunks limit data cs = Inr out \<Longrightarrow> length data \<le> limit \<Longrightarrow> length out \<le> limit"
  by (induction limit data cs rule: read_chunks.induct) (auto simp: saturating_sub_def split: if_splits)

section \<open>Validating a registration\<close>

definition same_origin :: "('u, 'o, 'f) hooks_client \<Rightarrow> bytes \<Rightarrow> 'u result" where
  "same_origin c path =
     (let lib = lib_url (hc_lib c) in
      bind_r (ok_or (Invalid ''scanner endpoint URL'') (url_join lib (hc_url c) path)) (\<lambda>url.
      bind_r (validate_url lib url (hc_insecure_loopback c)) (\<lambda>_.
        if url_origin lib url \<noteq> url_origin lib (hc_url c)
        then Inl (Invalid ''cross-origin scanner endpoint'')
        else Inr url)))"

definition stage_names :: "('u, 'o, 'f) hooks_client \<Rightarrow> bytes list" where
  "stage_names c = map hook_name (opt_stages (hc_options c))"

definition id_byte :: "byte \<Rightarrow> bool" where
  "id_byte b \<longleftrightarrow> is_ascii_alphanumeric b \<or> b \<in> {CHR ''-'', CHR ''_'', CHR '':''}"

definition registration_id :: "json \<Rightarrow> bytes result" where
  "registration_id value =
     bind_r (ok_or (Invalid ''registration id'') (as_str (jindex value ''registrationId''))) (\<lambda>ident.
       if ident = [] \<or> 255 < length ident \<or> \<not> list_all id_byte ident
       then Inl (Invalid ''registration id'')
       else Inr ident)"

definition confirm_stages :: "bytes list \<Rightarrow> json \<Rightarrow> unit result" where
  "confirm_stages wanted value =
     bind_r (ok_or (Invalid ''registration stages'')
       (as_array (jindex (jindex (jindex value ''negotiated'') ''inbound'') ''stages''))) (\<lambda>stages.
       ensure (length stages = length wanted \<and> list_all (\<lambda>s. JStr s \<in> set stages) wanted)
         (Invalid ''scanner did not confirm the configured stages''))"

definition confirm_property :: "bytes list \<Rightarrow> json \<Rightarrow> bytes list result" where
  "confirm_property properties prop =
     bind_r (ok_or (Invalid ''scanner confirmed a property outside the offered profile'')
       (Option.bind (as_str prop) (\<lambda>p. if p \<in> set OFFERED_PROPERTIES then Some p else None))) (\<lambda>p.
       Inr (if p \<in> set properties then properties else properties @ [p]))"

definition confirm_properties :: "json \<Rightarrow> bytes list result" where
  "confirm_properties value =
     bind_r (ok_or (Invalid ''registration properties'')
       (as_array (jindex (jindex (jindex value ''negotiated'') ''inbound'') ''properties''))) (\<lambda>props.
     bind_r (fold_r confirm_property [] props) (\<lambda>properties.
     bind_r (ensure (list_all (\<lambda>p. p \<in> set properties) REQUIRED_PROPERTIES)
       (Invalid ''scanner did not confirm the required properties'')) (\<lambda>_.
       Inr properties)))"

definition registration_expiry :: "(bytes \<Rightarrow> int option) \<Rightarrow> int \<Rightarrow> json \<Rightarrow> int option result" where
  "registration_expiry parse_time utc value =
     bind_r (case jget value ''expiresAt'' of
               None \<Rightarrow> Inr None
             | Some v \<Rightarrow>
                 if v = JNull then Inr None
                 else bind_r (ok_or (Invalid ''registration expiry'') (as_str v)) (\<lambda>t.
                   map_r Some (ok_or (Invalid ''registration expiry'') (parse_time t)))) (\<lambda>expires.
       if (case expires of None \<Rightarrow> False | Some e \<Rightarrow> e \<le> utc)
       then Inl (Invalid ''expired registration'') else Inr expires)"

definition accept_registration :: "('u, 'o, 'f) hooks_client \<Rightarrow> int \<Rightarrow> json \<Rightarrow> 'u registration result" where
  "accept_registration c utc value =
     bind_r (registration_id value) (\<lambda>ident.
     bind_r (ensure (jindex value ''status'' = JStr ''active'' \<and>
                     jindex (jindex value ''negotiated'') ''serialization'' = JStr ''json'')
       (Invalid ''incompatible registration'')) (\<lambda>_.
     bind_r (confirm_stages (stage_names c) value) (\<lambda>_.
     bind_r (confirm_properties value) (\<lambda>properties.
     bind_r (ok_or (Invalid ''hook endpoint'') (as_str (jindex value ''hookEndpoint''))) (\<lambda>path.
     bind_r (same_origin c path) (\<lambda>endpoint.
     bind_r (case jget (jindex value ''endpoints'') ''deregistration'' of
               Some (JStr path) \<Rightarrow> map_r Some (same_origin c path)
             | Some JNull \<Rightarrow> Inr None
             | None \<Rightarrow> Inr None
             | Some _ \<Rightarrow> Inl (Invalid ''deregistration endpoint'')) (\<lambda>deregistration.
     bind_r (registration_expiry (lib_parse_time (hc_lib c)) utc value) (\<lambda>expires.
       Inr \<lparr>reg_id = ident, reg_endpoint = endpoint, reg_deregistration = deregistration,
            reg_expires = expires, reg_properties = properties\<rparr>))))))))"

definition registration_request :: "('u, 'o, 'f) hooks_client \<Rightarrow> 'u http_request" where
  "registration_request c =
     \<lparr>rq_method = POST, rq_url = hc_url c, rq_authorization = auth_value (hc_auth c),
      rq_registration = None, rq_request_id = None,
      rq_json = Some (jobj [(''name'', JStr (hc_name c)), (''version'', JStr (lib_version (hc_lib c))),
        (''timeoutMs'', JNum (PosInt (of_nat (hc_timeout c)))), (''serialization'', JStr ''json''),
        (''inbound'', jobj [(''stages'', JArr (map JStr (stage_names c))),
          (''properties'', JArr (map JStr OFFERED_PROPERTIES))]),
        (''outbound'', JNull)])\<rparr>"

definition register ::
  "('u, 'o, 'f) hooks_client \<Rightarrow> nat \<Rightarrow> ('u, 'f) world \<Rightarrow> (error stop + 'u registration) \<times> ('u, 'f) world" where
  "register c deadline =
     bind_s (exchange deadline (registration_request c)) (\<lambda>rp.
       check_s (\<lambda>w. ready_r (
         if rp_status rp \<noteq> 201 then Inl (HttpStatus (rp_status rp))
         else bind_r (bounded_json (lib_json (hc_lib c)) rp (hc_response_limit c)) (\<lambda>value.
           accept_registration c (lib_utc (hc_lib c) (w_now w)) value))))"

definition still_valid :: "('u, 'o, 'f) hooks_client \<Rightarrow> ('u, 'f) world \<Rightarrow> 'u registration \<Rightarrow> bool" where
  "still_valid c w reg =
     (case reg_expires reg of None \<Rightarrow> True | Some e \<Rightarrow> lib_utc (hc_lib c) (w_now w) + 5000 < e)"

text \<open>The cached registration while it is good for five more seconds, else a new one. The lock is
  held throughout.\<close>

abbreviation (input) hc_floats :: "('u, 'o, 'f) hooks_client \<Rightarrow> 'f float_ops" where
  "hc_floats c \<equiv> lib_floats (hc_lib c)"

definition cached :: "('u, 'o, 'f) hooks_client \<Rightarrow> ('u, 'f) world \<Rightarrow> 'u registration option" where
  "cached c w =
     (case w_cache w of None \<Rightarrow> None | Some reg \<Rightarrow> if still_valid c w reg then Some reg else None)"

definition registered ::
  "('u, 'o, 'f) hooks_client \<Rightarrow> nat \<Rightarrow> ('u, 'f) world \<Rightarrow> (error stop + 'u registration) \<times> ('u, 'f) world" where
  "registered c deadline =
     bind_s (registration_lock (hc_floats c) (Some deadline)) (\<lambda>_ w.
       case cached c w of
         Some reg \<Rightarrow> (Inr reg, w)
       | None \<Rightarrow>
           bind_s (observe (hc_floats c) RegistrationOp id id (register c deadline)) (\<lambda>reg.
           bind_s (modify_s (\<lambda>w. w\<lparr>w_cache := Some reg\<rparr>)) (\<lambda>_. return_s reg)) w)"

section \<open>What a registration guarantees\<close>

definition trusted_url :: "('u, 'o, 'f) hooks_client \<Rightarrow> 'u \<Rightarrow> bool" where
  "trusted_url c url \<longleftrightarrow>
     url_origin (lib_url (hc_lib c)) url = url_origin (lib_url (hc_lib c)) (hc_url c) \<and>
     validate_url (lib_url (hc_lib c)) url (hc_insecure_loopback c) = Inr ()"

definition registration_ok :: "('u, 'o, 'f) hooks_client \<Rightarrow> 'u registration \<Rightarrow> bool" where
  "registration_ok c reg \<longleftrightarrow>
     reg_id reg \<noteq> [] \<and> length (reg_id reg) \<le> 255 \<and> list_all id_byte (reg_id reg) \<and>
     trusted_url c (reg_endpoint reg) \<and> (\<forall>u. reg_deregistration reg = Some u \<longrightarrow> trusted_url c u) \<and>
     distinct (reg_properties reg) \<and>
     set REQUIRED_PROPERTIES \<subseteq> set (reg_properties reg) \<and>
     set (reg_properties reg) \<subseteq> set OFFERED_PROPERTIES"

lemma same_origin_Inr: "same_origin c path = Inr url \<Longrightarrow> trusted_url c url"
  by (auto simp: same_origin_def Let_def result_simps trusted_url_def split: if_splits)

lemma confirm_properties_fold:
  assumes "fold_r confirm_property ps props = Inr qs" and "distinct ps" and "set ps \<subseteq> set OFFERED_PROPERTIES"
  shows "distinct qs \<and> set qs \<subseteq> set OFFERED_PROPERTIES"
  using assms(1)
  by (rule fold_r_invariant)
    (use assms(2,3) in \<open>auto simp: confirm_property_def result_simps bind_eq_Some_conv split: if_splits\<close>)

lemma registration_expiry_Inr:
  assumes "registration_expiry parse_time utc value = Inr expires"
  shows "case expires of None \<Rightarrow> True | Some e \<Rightarrow> utc < e"
proof -
  from assms have "\<not> (case expires of None \<Rightarrow> False | Some e \<Rightarrow> e \<le> utc)"
    unfolding registration_expiry_def bind_r_Inr_iff by (metis Inl_Inr_False Inr_inject)
  then show ?thesis by (cases expires) auto
qed

lemma accept_registration_Inr:
  assumes "accept_registration c utc value = Inr reg"
  shows "registration_ok c reg"
    and "case reg_expires reg of None \<Rightarrow> True | Some e \<Rightarrow> utc < e"
proof -
  from assms obtain ident properties path endpoint dereg expires where
    i: "registration_id value = Inr ident" and
    p: "confirm_properties value = Inr properties" and
    e: "same_origin c path = Inr endpoint" and
    d: "(case jget (jindex value ''endpoints'') ''deregistration'' of
               Some (JStr path) \<Rightarrow> map_r Some (same_origin c path)
             | Some JNull \<Rightarrow> Inr None
             | None \<Rightarrow> Inr None
             | Some _ \<Rightarrow> Inl (Invalid ''deregistration endpoint'')) = Inr dereg" and
    x: "registration_expiry (lib_parse_time (hc_lib c)) utc value = Inr expires" and
    reg: "reg = \<lparr>reg_id = ident, reg_endpoint = endpoint, reg_deregistration = dereg,
            reg_expires = expires, reg_properties = properties\<rparr>"
    unfolding accept_registration_def bind_r_Inr_iff by blast
  have "ident \<noteq> [] \<and> length ident \<le> 255 \<and> list_all id_byte ident"
    using i by (auto simp: registration_id_def result_simps split: if_splits)
  moreover have "\<forall>u. dereg = Some u \<longrightarrow> trusted_url c u"
    using d by (auto simp: result_simps dest: same_origin_Inr split: option.splits json.splits)
  moreover have "distinct properties \<and> set properties \<subseteq> set OFFERED_PROPERTIES \<and>
      set REQUIRED_PROPERTIES \<subseteq> set properties"
    using p confirm_properties_fold [of "[]"]
    by (auto simp: confirm_properties_def result_simps list_all_iff)
  ultimately show "registration_ok c reg"
    using same_origin_Inr [OF e] reg by (auto simp: registration_ok_def)
  show "case reg_expires reg of None \<Rightarrow> True | Some e \<Rightarrow> utc < e"
    using registration_expiry_Inr [OF x] reg by simp
qed

text \<open>With distinct stages configured, the scanner confirms exactly those.\<close>

lemma confirm_stages_exact:
  assumes "confirm_stages wanted value = Inr u" and "distinct wanted"
  obtains stages where
    "jindex (jindex (jindex value ''negotiated'') ''inbound'') ''stages'' = JArr stages"
    "set stages = JStr ` set wanted"
proof -
  from assms(1) obtain stages where
    st: "as_array (jindex (jindex (jindex value ''negotiated'') ''inbound'') ''stages'') = Some stages"
    and len: "length stages = length wanted" and sub: "JStr ` set wanted \<subseteq> set stages"
    by (auto simp: confirm_stages_def result_simps list_all_iff)
  have "card (JStr ` set wanted) = length stages"
    using assms(2) len by (simp add: card_image inj_on_def distinct_card)
  then have "set stages = JStr ` set wanted"
    using sub card_length [of stages] by (metis List.finite_set card_seteq)
  moreover have "jindex (jindex (jindex value ''negotiated'') ''inbound'') ''stages'' = JArr stages"
    using st by (cases "jindex (jindex (jindex value ''negotiated'') ''inbound'') ''stages''") auto
  ultimately show ?thesis by (rule that [rotated])
qed

end
