(* ===== verification/Hooks_Client.thy ===== *)
theory Hooks_Client
  imports Registration
begin

text \<open>
  \<open>src/src/hooks.rs\<close>, the client: one hook invocation with its recovery and retries, the startup
  loop, deregistration, and the client as a policy of the milter server.
\<close>

section \<open>Failures and backoff\<close>

record hook_failure =
  hf_error :: error
  hf_retry_after :: "nat option"

definition failure_from :: "error \<Rightarrow> hook_failure" where
  "failure_from e = \<lparr>hf_error = e, hf_retry_after = None\<rparr>"

definition retry_status :: "u16 \<Rightarrow> bool" where
  "retry_status status \<longleftrightarrow> status = 429 \<or> (500 \<le> status \<and> status < 600)"

fun transient :: "error \<Rightarrow> bool" where
  "transient (HttpTransport HkConnect) = True"
| "transient (HttpStatus status) = retry_status status"
| "transient _ = False"

fun startup_transient :: "error \<Rightarrow> bool" where
  "startup_transient Timeout = True"
| "startup_transient (HttpTransport k) = (k \<in> {HkConnect, HkTimeout, HkOther})"
| "startup_transient (HttpStatus status) = retry_status status"
| "startup_transient _ = False"

definition RETRY_BASE :: nat where "RETRY_BASE = 100"
definition RETRY_MAX :: nat where "RETRY_MAX = 5000"
definition RETRY_JITTER_MS :: nat where "RETRY_JITTER_MS = 100"

definition backoff :: "nat \<Rightarrow> nat option \<Rightarrow> nat \<Rightarrow> nat" where
  "backoff attempt retry_after uuid =
     (let exponential = RETRY_BASE * 2 ^ min (saturating_sub attempt 1) 16;
          jitter = uuid mod RETRY_JITTER_MS in
      min (max exponential (case retry_after of None \<Rightarrow> 0 | Some d \<Rightarrow> d)) RETRY_MAX + jitter)"

definition draw_uuid :: "('u, 'f) world \<Rightarrow> nat \<times> ('u, 'f) world" where
  "draw_uuid w = (case w_uuids w of [] \<Rightarrow> (0, w) | x # xs \<Rightarrow> (x, w\<lparr>w_uuids := xs\<rparr>))"

section \<open>One hook request\<close>

definition hook_request ::
  "('u, 'o, 'f) hooks_client \<Rightarrow> 'u registration \<Rightarrow> bytes \<Rightarrow> json \<Rightarrow> 'u http_request" where
  "hook_request c reg request_id bdy =
     \<lparr>rq_method = POST, rq_url = reg_endpoint reg, rq_authorization = auth_value (hc_auth c),
      rq_registration = Some (reg_id reg), rq_request_id = Some request_id, rq_json = Some bdy\<rparr>"

definition parse_retry_after :: "bytes option \<Rightarrow> nat option" where
  "parse_retry_after h = map_option (\<lambda>secs. secs * 1000)
     (Option.bind h (\<lambda>v. parse_unsigned (2 ^ 64 - 1) (trim v)))"

definition hook ::
  "('u, 'o, 'f) hooks_client \<Rightarrow> nat \<Rightarrow> 'u registration \<Rightarrow> bytes \<Rightarrow> json \<Rightarrow> nat \<Rightarrow> ('u, 'f) world \<Rightarrow>
   (hook_failure stop + json option) \<times> ('u, 'f) world" where
  "hook c deadline reg request_id bdy response_limit w =
     (case exchange deadline (hook_request c reg request_id bdy) w of
        (Inl s, w') \<Rightarrow> (Inl (map_stop failure_from s), w')
      | (Inr rp, w') \<Rightarrow>
          (ready_r (
             if rp_status rp = 204 then Inr None
             else if rp_status rp = 200 then
               (case bounded_json (lib_json (hc_lib c)) rp response_limit of
                  Inl e \<Rightarrow> Inl (failure_from e)
                | Inr v \<Rightarrow> Inr (Some v))
             else Inl \<lparr>hf_error = HttpStatus (rp_status rp),
                       hf_retry_after = parse_retry_after (rp_retry_after rp)\<rparr>),
           w'))"

section \<open>One invocation\<close>

definition session_request ::
  "('u, 'o, 'f) hooks_client \<Rightarrow> session \<Rightarrow> stage \<Rightarrow> 'u registration \<Rightarrow> ('u, 'f) world \<Rightarrow> json result" where
  "session_request c s stage reg w =
     request (lib_b64 (hc_lib c)) (lib_show_time (hc_lib c) (lib_utc (hc_lib c) (w_now w))) s stage
       (reg_properties reg)"

definition forget_registration ::
  "('u, 'o, 'f) hooks_client \<Rightarrow> nat \<Rightarrow> bytes \<Rightarrow> ('u, 'f) world \<Rightarrow> (error stop + unit) \<times> ('u, 'f) world" where
  "forget_registration c deadline ident =
     bind_s (registration_lock (hc_floats c) (Some deadline)) (\<lambda>_.
       modify_s (\<lambda>w.
         case w_cache w of
           None \<Rightarrow> w
         | Some r \<Rightarrow> if reg_id r = ident then w\<lparr>w_cache := None\<rparr> else w))"

text \<open>The one recovery of an invocation: a new registration and the request for it.\<close>

definition recover ::
  "('u, 'o, 'f) hooks_client \<Rightarrow> session \<Rightarrow> stage \<Rightarrow> nat \<Rightarrow> bytes \<Rightarrow> ('u, 'f) world \<Rightarrow>
   (error stop + 'u registration \<times> json) \<times> ('u, 'f) world" where
  "recover c s stage deadline ident =
     bind_s (forget_registration c deadline ident) (\<lambda>_.
     bind_s (registered c deadline) (\<lambda>reg.
     bind_s (check_s (\<lambda>w. ready_r (session_request c s stage reg w))) (\<lambda>bdy.
       return_s (reg, bdy))))"

definition gone :: "error \<Rightarrow> bool" where
  "gone e \<longleftrightarrow> e = HttpStatus 404 \<or> e = HttpStatus 410"

definition hook_response_limit :: "('u, 'o, 'f) hooks_client \<Rightarrow> session \<Rightarrow> nat" where
  "hook_response_limit c s =
     saturating_add (lim_message_bytes (limits s)) 2 div 3 * 4 + hc_response_limit c"

definition count_retry :: "'f stats \<Rightarrow> 'f stats" where
  "count_retry st = st\<lparr>hook_retries := hook_retries st + 1\<rparr>"

definition pause :: "nat \<Rightarrow> ('u, 'f) world \<Rightarrow> ('u, 'f) world" where
  "pause delay w = w\<lparr>w_now := w_now w + delay\<rparr>"

definition observed_hook ::
  "('u, 'o, 'f) hooks_client \<Rightarrow> session \<Rightarrow> bytes \<Rightarrow> nat \<Rightarrow> 'u registration \<Rightarrow> json \<Rightarrow> ('u, 'f) world \<Rightarrow>
   (hook_failure stop + json option) \<times> ('u, 'f) world" where
  "observed_hook c s request_id deadline reg bdy =
     observe (hc_floats c) HookOp hf_error failure_from
       (hook c deadline reg request_id bdy (hook_response_limit c s))"

function invoke_loop ::
  "('u, 'o, 'f) hooks_client \<Rightarrow> session \<Rightarrow> stage \<Rightarrow> bytes \<Rightarrow> nat \<Rightarrow> 'u registration \<Rightarrow> json \<Rightarrow> bool \<Rightarrow> nat \<Rightarrow>
   ('u, 'f) world \<Rightarrow> (error stop + decision) \<times> ('u, 'f) world" where
  "invoke_loop c s stage request_id deadline reg bdy recovered retries w =
     (case observed_hook c s request_id deadline reg bdy w of
        (Inr (Some value), w1) \<Rightarrow>
          (ready_r (translate (lib_serde (hc_lib c)) (lib_b64_decode (hc_lib c)) value s stage), w1)
      | (Inr None, w1) \<Rightarrow> (Inr default_decision, w1)
      | (Inl Cancelled, w1) \<Rightarrow> (Inl Cancelled, w1)
      | (Inl (Raised f), w1) \<Rightarrow>
          if gone (hf_error f) \<and> \<not> recovered then
            (case recover c s stage deadline (reg_id reg) w1 of
               (Inl e, w2) \<Rightarrow> (Inl e, w2)
             | (Inr (reg', bdy'), w2) \<Rightarrow>
                 invoke_loop c s stage request_id deadline reg' bdy' True retries w2)
          else if transient (hf_error f) \<and> retries < opt_retries (hc_options c) then
            (case draw_uuid w1 of
               (uuid, w2) \<Rightarrow>
                 (let delay = backoff (retries + 1) (hf_retry_after f) uuid in
                  if deadline \<le> w_now w2 + delay then (Inl (Raised (hf_error f)), w2)
                  else invoke_loop c s stage request_id deadline reg bdy recovered (retries + 1)
                    (pause delay (w2\<lparr>w_stats := count_retry (w_stats w2)\<rparr>))))
          else (Inl (Raised (hf_error f)), w1))"
  by pat_completeness auto

termination invoke_loop
  by (relation "measure (\<lambda>(c, s, stage, rid, d, reg, bdy, recovered, retries, w).
      of_bool (\<not> recovered) + (opt_retries (hc_options c) - retries))") auto

declare invoke_loop.simps [simp del]

definition invoke ::
  "('u, 'o, 'f) hooks_client \<Rightarrow> session \<Rightarrow> stage \<Rightarrow> bytes \<Rightarrow> ('u, 'f) world \<Rightarrow>
   (error stop + decision) \<times> ('u, 'f) world" where
  "invoke c s stage request_id w =
     (let deadline = w_now w + hc_timeout c in
      bind_s (registered c deadline) (\<lambda>reg.
      bind_s (check_s (\<lambda>w. ready_r (session_request c s stage reg w))) (\<lambda>bdy.
        invoke_loop c s stage request_id deadline reg bdy False 0)) w)"

section \<open>Startup and shutdown\<close>

lemma exchange_clock: "w_now w \<le> w_now (snd (exchange d rq w))"
  by (auto simp: exchange_def Let_def split: list.splits)

lemma wait_lock_clock: "w_now w \<le> w_now (snd (wait_lock d l t w))"
  by (auto simp: wait_lock_def acquire_def split: option.splits)

lemma registration_lock_clock: "w_now w \<le> w_now (snd (registration_lock fl d w))"
  using wait_lock_clock
  by (fastforce simp: registration_lock_def acquire_def observed_frame Let_def split: list.splits option.splits
      intro: order_trans [OF _ wait_lock_clock])

lemma register_world: "snd (register c d w) = snd (exchange d (registration_request c) w)"
  by (cases "exchange d (registration_request c) w") (auto simp: register_def bind_s.simps check_s_def split: sum.splits)

text \<open>\<open>registered\<close> by cases: no lock, a cached registration, a new one, or a failed attempt.\<close>

lemma registered_cases:
  assumes "registered c d w = (r, w')"
  obtains
    (blocked) e where "r = Inl e" "registration_lock (hc_floats c) (Some d) w = (Inl e, w')"
  | (cached) reg where "r = Inr reg" "registration_lock (hc_floats c) (Some d) w = (Inr (), w')"
      "w_cache w' = Some reg"
  | (fresh) reg w1 w2 where "r = Inr reg" "registration_lock (hc_floats c) (Some d) w = (Inr (), w1)"
      "observe (hc_floats c) RegistrationOp id id (register c d) w1 = (Inr reg, w2)"
      "w' = w2\<lparr>w_cache := Some reg\<rparr>"
  | (failed) e w1 where "r = Inl e" "registration_lock (hc_floats c) (Some d) w = (Inr (), w1)"
      "observe (hc_floats c) RegistrationOp id id (register c d) w1 = (Inl e, w')"
proof -
  obtain lr w1 where l: "registration_lock (hc_floats c) (Some d) w = (lr, w1)" by fastforce
  obtain rr w2 where o: "observe (hc_floats c) RegistrationOp id id (register c d) w1 = (rr, w2)" by fastforce
  from assms l o show ?thesis
    by (cases lr; cases rr)
      (auto simp: registered_def cached_def bind_s.simps state_defs split: option.splits if_splits
        intro: blocked cached fresh failed)
qed

lemma registered_clock: "w_now w \<le> w_now (snd (registered c d w))"
proof -
  obtain r w' where r: "registered c d w = (r, w')" by fastforce
  have reg: "w_now v \<le> w_now (snd (observe (hc_floats c) RegistrationOp id id (register c d) v))" for v
    using exchange_clock [of "snd (begin_op RegistrationOp v)" d "registration_request c"]
    by (simp add: observed_frame register_world)
  have lock: "w_now w \<le> w_now v" if "registration_lock (hc_floats c) (Some d) w = (x, v)" for x v
    using registration_lock_clock [of w "hc_floats c" "Some d"] that by simp
  from r have "w_now w \<le> w_now w'"
  proof (cases rule: registered_cases)
    case (fresh reg w1 w2)
    with lock [OF fresh(2)] reg [of w1] show ?thesis by simp
  next
    case (failed e w1)
    with lock [OF failed(2)] reg [of w1] show ?thesis by simp
  qed (auto dest: lock)
  with r show ?thesis by simp
qed

lemma backoff_lower: "RETRY_BASE \<le> backoff attempt ra uuid"
proof -
  have "RETRY_BASE \<le> RETRY_BASE * 2 ^ k" for k by simp
  then have "RETRY_BASE \<le> min (max (RETRY_BASE * 2 ^ k) d) RETRY_MAX" for k d
    by (simp add: le_max_iff_disj RETRY_BASE_def RETRY_MAX_def)
  then show ?thesis unfolding backoff_def Let_def by (rule trans_le_add1)
qed

function startup_loop ::
  "('u, 'o, 'f) hooks_client \<Rightarrow> nat \<Rightarrow> nat \<Rightarrow> ('u, 'f) world \<Rightarrow> unit result \<times> ('u, 'f) world" where
  "startup_loop c deadline attempt w =
     (case registered c (w_now w + hc_timeout c) w of
        (r, w1) \<Rightarrow>
          (case await r of
             Inr reg \<Rightarrow> (Inr (), w1)
           | Inl e \<Rightarrow>
               if startup_transient e then
                 (case draw_uuid w1 of
                    (uuid, w2) \<Rightarrow>
                      (let delay = backoff (attempt + 1) None uuid in
                       if deadline \<le> w_now w2 + delay then (Inl e, w2)
                       else startup_loop c deadline (attempt + 1) (pause delay w2)))
               else (Inl e, w1)))"
  by pat_completeness auto

lemma draw_uuid_clock: "w_now (snd (draw_uuid w)) = w_now w"
  by (simp add: draw_uuid_def split: list.splits)

lemma startup_decreases:
  assumes "registered c (w_now w + hc_timeout c) w = (r, w1)" and "draw_uuid w1 = (uuid, w2)"
    and "\<not> deadline \<le> w_now w2 + backoff attempt None uuid"
  shows "deadline - w_now (pause (backoff attempt None uuid) w2) < deadline - w_now w"
  using backoff_lower [of attempt None uuid] registered_clock [of w c "w_now w + hc_timeout c"]
    draw_uuid_clock [of w1] assms by (simp add: RETRY_BASE_def pause_def)

termination startup_loop
  by (relation "measure (\<lambda>(c, deadline, attempt, w). deadline - w_now w)")
    (auto intro: startup_decreases [OF sym sym])

declare startup_loop.simps [simp del]

definition new_client ::
  "('u, 'o, 'f) hooks_lib \<Rightarrow> 'u \<Rightarrow> authentication \<Rightarrow> bytes \<Rightarrow> nat \<Rightarrow> bool \<Rightarrow> hooks_options \<Rightarrow>
   ('u, 'o, 'f) hooks_client" where
  "new_client lib url auth name timeout insecure_loopback options =
     \<lparr>hc_lib = lib, hc_url = url, hc_auth = auth, hc_name = name, hc_timeout = timeout,
      hc_response_limit = 1024 * 1024, hc_insecure_loopback = insecure_loopback, hc_options = options\<rparr>"

definition with_options ::
  "('u, 'o, 'f) hooks_lib \<Rightarrow> ('u, 'c, 'i, 'k) reqwest_lib \<Rightarrow> 'u \<Rightarrow> authentication \<Rightarrow> bytes \<Rightarrow> nat \<Rightarrow> bool \<Rightarrow>
   ('c, 'i, 'u) transport_options \<Rightarrow> hooks_options \<Rightarrow> ('u, 'f) world \<Rightarrow>
   ('u, 'o, 'f) hooks_client result \<times> ('u, 'f) world" where
  "with_options lib rq url auth name timeout insecure_loopback transport options =
     bind_s (check_s (\<lambda>_. validate_url (lib_url lib) url insecure_loopback)) (\<lambda>_.
     bind_s (check_s (\<lambda>_. ensure (opt_stages options \<noteq> []) (Invalid ''at least one hook stage is required''))) (\<lambda>_.
     bind_s (check_s (\<lambda>_. transport_build (lib_url lib) (proxy_all rq) (build_client rq) transport timeout)) (\<lambda>_.
       let this = new_client lib url auth name timeout insecure_loopback options in
       bind_s (\<lambda>w. startup_loop this (w_now w + opt_startup_wait options) 0 w) (\<lambda>_. return_s this))))"

text \<open>\<open>HooksClient::new\<close>: bearer token, default transport and options, metrics of its own.\<close>

definition client_new ::
  "('u, 'o, 'f) hooks_lib \<Rightarrow> ('u, 'c, 'i, 'k) reqwest_lib \<Rightarrow> (bytes \<Rightarrow> bool) \<Rightarrow> 'f \<Rightarrow> 'u \<Rightarrow> bytes \<Rightarrow> bytes \<Rightarrow> nat \<Rightarrow>
   bool \<Rightarrow> ('u, 'f) world \<Rightarrow> ('u, 'o, 'f) hooks_client result \<times> ('u, 'f) world" where
  "client_new lib rq header_ok zero url token name timeout insecure_loopback =
     bind_s (check_s (\<lambda>_. bearer header_ok token)) (\<lambda>auth.
     bind_s (modify_s (\<lambda>w. w\<lparr>w_stats := default_stats zero\<rparr>)) (\<lambda>_.
       with_options lib rq url auth name timeout insecure_loopback default_transport default_hooks_options))"

definition deregistration_request :: "('u, 'o, 'f) hooks_client \<Rightarrow> 'u registration \<Rightarrow> 'u \<Rightarrow> 'u http_request" where
  "deregistration_request c reg url =
     \<lparr>rq_method = DELETE, rq_url = url, rq_authorization = auth_value (hc_auth c),
      rq_registration = Some (reg_id reg), rq_request_id = None, rq_json = None\<rparr>"

definition send_deregistration ::
  "('u, 'o, 'f) hooks_client \<Rightarrow> 'u registration \<Rightarrow> 'u \<Rightarrow> ('u, 'f) world \<Rightarrow> (error stop + unit) \<times> ('u, 'f) world" where
  "send_deregistration c reg url w =
     (case exchange (w_now w + hc_timeout c) (deregistration_request c reg url) w of
        (r, w') \<Rightarrow>
          (ready_r (bind_r (await r) (\<lambda>rp.
             if rp_status rp \<in> {200, 204, 404, 410} then Inr () else Inl (HttpStatus (rp_status rp)))),
           w'))"

definition deregister ::
  "('u, 'o, 'f) hooks_client \<Rightarrow> ('u, 'f) world \<Rightarrow> (error stop + unit) \<times> ('u, 'f) world" where
  "deregister c =
     bind_s (registration_lock (hc_floats c) None) (\<lambda>_ w1.
       let w = w1\<lparr>w_cache := None\<rparr> in
       case w_cache w1 of
         None \<Rightarrow> (Inr (), w)
       | Some reg \<Rightarrow>
           (case reg_deregistration reg of
              None \<Rightarrow> (Inr (), w)
            | Some url \<Rightarrow>
                if \<not> opt_deregister (hc_options c) then (Inr (), w)
                else observe (hc_floats c) DeregistrationOp id id (send_deregistration c reg url) w))"

section \<open>The client as a policy\<close>

definition hooks_actions :: u32 where
  "hooks_actions = ADD_HEADERS OR CHANGE_BODY OR CHANGE_HEADERS OR QUARANTINE OR CHANGE_FROM OR
     ADD_RECIPIENT OR ADD_RECIPIENT_PAR OR DELETE_RECIPIENT"

definition projection_macros :: macro_lists where
  "projection_macros = [
     (MsConnect, [''j'', ''{daemon_name}'', ''{daemon_addr}'', ''{daemon_port}'', ''{client_addr}'',
        ''{client_port}'', ''{client_name}'', ''{client_ptr}'', ''{client_connections}'']),
     (MsHelo, [''{tls_version}'', ''{cipher}'', ''{cipher_bits}'', ''{cert_subject}'', ''{cert_issuer}'']),
     (MsMail, [''i'', ''{auth_type}'', ''{auth_authen}'', ''{auth_author}'']),
     (MsRecipient, [''i'', ''{rcpt_addr}'']),
     (MsData, [''i'']),
     (MsEndHeaders, [''i'']),
     (MsEndMessage, [''i''])]"

definition hooks_macros :: "('u, 'o, 'f) hooks_client \<Rightarrow> macro_lists" where
  "hooks_macros c = (if \<not> opt_request_macros (hc_options c) then [] else projection_macros)"

definition evaluate ::
  "('u, 'o, 'f) hooks_client \<Rightarrow> bytes \<Rightarrow> ('u, 'f) world \<Rightarrow> stage \<Rightarrow> session \<Rightarrow> decision result \<times> ('u, 'f) world" where
  "evaluate c request_id w stage s =
     (case invoke c s stage request_id w of (r, w') \<Rightarrow> (await r, w'))"

definition hooks_policy :: "('u, 'o, 'f) hooks_client \<Rightarrow> (bytes \<times> ('u, 'f) world) policy" where
  "hooks_policy c = \<lparr>pol_stages = opt_stages (hc_options c), pol_actions = hooks_actions,
     pol_macros = hooks_macros c,
     pol_evaluate = (\<lambda>(request_id, w) stage s. fst (evaluate c request_id w stage s))\<rparr>"

end
