(* ===== verification/Client_Effects.thy ===== *)
theory Client_Effects
  imports Hooks_Client
begin

text \<open>
  What an invocation does to the world. A locale collects what the client relies on: an effect
  relation that composes and that the client's steps (an observed registration or hook request,
  the registration lock, a pause before the deadline) stay within. The bound for a whole
  invocation is proved once from these laws and interpreted for the requests sent, for the
  clock, for the retry counter and for the metrics.
\<close>

section \<open>The cache only ever holds validated registrations\<close>

definition cache_ok :: "('u, 'o, 'f) hooks_client \<Rightarrow> 'u registration option \<Rightarrow> bool" where
  "cache_ok c x \<longleftrightarrow> (\<forall>r. x = Some r \<longrightarrow> registration_ok c r)"

definition world_ok :: "('u, 'o, 'f) hooks_client \<Rightarrow> ('u, 'f) world \<Rightarrow> bool" where
  "world_ok c w \<longleftrightarrow> cache_ok c (w_cache w) \<and>
     (\<forall>l \<in> set (w_locks w). \<forall>x. lk_cache l = Some x \<longrightarrow> cache_ok c x)"

definition client_ok :: "('u, 'o, 'f) hooks_client \<Rightarrow> bool" where
  "client_ok c \<longleftrightarrow> validate_url (lib_url (hc_lib c)) (hc_url c) (hc_insecure_loopback c) = Inr ()"

lemma world_ok_simps [simp]:
  "world_ok c (w\<lparr>w_now := t\<rparr>) = world_ok c w"
  "world_ok c (w\<lparr>w_log := l\<rparr>) = world_ok c w"
  "world_ok c (w\<lparr>w_script := sc\<rparr>) = world_ok c w"
  "world_ok c (w\<lparr>w_uuids := us\<rparr>) = world_ok c w"
  "world_ok c (w\<lparr>w_stats := st\<rparr>) = world_ok c w"
  by (simp_all add: world_ok_def)

lemma world_ok_cache: "world_ok c w \<Longrightarrow> cache_ok c x \<Longrightarrow> world_ok c (w\<lparr>w_cache := x\<rparr>)"
  by (simp add: world_ok_def)

lemma world_ok_pause [simp]: "world_ok c (pause t w) = world_ok c w"
  by (simp add: pause_def)

lemma world_ok_frame: "w_cache v = w_cache w \<Longrightarrow> w_locks v = w_locks w \<Longrightarrow> world_ok c v = world_ok c w"
  by (simp add: world_ok_def)

lemma world_ok_observed:
  "world_ok c (snd (observe fl op err raise run w)) = world_ok c (snd (run (snd (begin_op op w))))"
  by (rule world_ok_frame) (simp_all add: observed_frame)

lemma world_ok_begin [simp]: "world_ok c (snd (begin_op op w)) = world_ok c w"
  by (rule world_ok_frame) simp_all

lemma world_ok_exchange: "world_ok c w \<Longrightarrow> world_ok c (snd (exchange d rq w))"
  by (auto simp: exchange_def Let_def split: list.splits)

lemma world_ok_lock:
  assumes "world_ok c w"
  shows "world_ok c (snd (registration_lock fl d w))"
proof (cases "w_locks w")
  case (Cons l ls)
  have a: "world_ok c (acquire l v)" if "world_ok c v" for v
    using assms Cons that by (auto simp: acquire_def world_ok_def split: option.splits)
  have r: "world_ok c (w\<lparr>w_locks := ls\<rparr>)" using assms Cons by (simp add: world_ok_def)
  then have "world_ok c (snd (wait_lock d l t (snd (begin_op op (w\<lparr>w_locks := ls\<rparr>)))))" for t op
    by (auto simp: wait_lock_def a split: option.splits)
  with Cons a [OF r] show ?thesis
    by (simp add: registration_lock_def Let_def world_ok_observed split: option.splits)
qed (use assms in \<open>simp add: registration_lock_def\<close>)

lemma world_ok_uuid: "world_ok c w \<Longrightarrow> world_ok c (snd (draw_uuid w))"
  by (auto simp: draw_uuid_def split: list.splits)

lemma register_Inr:
  assumes "register c d w = (Inr reg, w')"
  shows "registration_ok c reg"
proof -
  from assms obtain v where "accept_registration c (lib_utc (hc_lib c) (w_now w')) v = Inr reg"
    by (auto simp: register_def result_simps split: if_splits)
  then show ?thesis by (rule accept_registration_Inr(1))
qed

lemma registered_ok:
  assumes "registered c d w = (r, w')" and "world_ok c w"
  shows "world_ok c w'" and "r = Inr reg \<Longrightarrow> registration_ok c reg"
proof -
  have l: "world_ok c v" if "registration_lock (hc_floats c) (Some d) w = (x, v)" for x v
    using world_ok_lock [OF assms(2), of "hc_floats c" "Some d"] that by simp
  have x: "world_ok c v'" if "world_ok c v"
    "observe (hc_floats c) RegistrationOp id id (register c d) v = (y, v')" for v y v'
    using world_ok_observed [of c "hc_floats c" RegistrationOp id id "register c d" v] that
    by (simp add: register_world world_ok_exchange)
  from assms(1) have "world_ok c w' \<and> (r = Inr reg \<longrightarrow> registration_ok c reg)"
  proof (cases rule: registered_cases)
    case (cached reg')
    with l [OF cached(2)] show ?thesis by (auto simp: world_ok_def cache_ok_def)
  next
    case (fresh reg' w1 w2)
    obtain w3 where "register c d (snd (begin_op RegistrationOp w1)) = (Inr reg', w3)"
      using observed_Inr [OF fresh(3)] by blast
    with fresh x [OF l [OF fresh(2)] fresh(3)] register_Inr show ?thesis
      by (auto simp: cache_ok_def intro!: world_ok_cache)
  qed (auto dest: l x)
  then show "world_ok c w'" and "r = Inr reg \<Longrightarrow> registration_ok c reg" by auto
qed

lemma world_ok_forget:
  assumes "world_ok c w"
  shows "world_ok c (snd (forget_registration c d ident w))"
proof -
  obtain r w1 where "registration_lock (hc_floats c) (Some d) w = (r, w1)" by fastforce
  with world_ok_lock [OF assms, of "hc_floats c" "Some d"] show ?thesis
    by (cases r) (auto simp: forget_registration_def state_defs cache_ok_def intro!: world_ok_cache
        split: option.splits)
qed

text \<open>A recovery by its steps: the cache forgotten, then perhaps a new registration and its request.\<close>

lemma recover_cases:
  assumes "recover c s stage d ident w = (r, w')"
  obtains
    (stuck) e where "r = Inl e" "forget_registration c d ident w = (Inl e, w')"
  | (renewed) w1 rr where "forget_registration c d ident w = (Inr (), w1)" "registered c d w1 = (rr, w')"
      "\<And>reg bdy. r = Inr (reg, bdy) \<Longrightarrow> rr = Inr reg \<and> session_request c s stage reg w' = Inr bdy"
      "\<And>e. r = Inl e \<Longrightarrow> rr = Inl e \<or>
        (\<exists>reg e'. rr = Inr reg \<and> session_request c s stage reg w' = Inl e' \<and> e = Raised e')"
proof -
  obtain fr w1 where f: "forget_registration c d ident w = (fr, w1)" by fastforce
  show ?thesis
  proof (cases fr)
    case (Inl e)
    with assms f show ?thesis by (intro stuck [of e]) (simp_all add: recover_def)
  next
    case (Inr u)
    obtain rr w2 where g: "registered c d w1 = (rr, w2)" by fastforce
    have w: "w' = w2" using assms f g Inr
      by (cases rr) (auto simp: recover_def bind_s.simps state_defs split: sum.splits)
    show ?thesis
      by (rule renewed [of w1 rr])
        (use assms f g Inr w in \<open>auto simp: recover_def bind_s.simps state_defs ready_r_def split: sum.splits\<close>)
  qed
qed

lemma recover_ok:
  assumes "recover c s stage d ident w = (r, w')" and "world_ok c w"
  shows "world_ok c w'" and "r = Inr (reg, bdy) \<Longrightarrow> registration_ok c reg"
proof -
  have f: "world_ok c v" if "forget_registration c d ident w = (x, v)" for x v
    using world_ok_forget [OF assms(2), of d ident] that by simp
  from assms(1) have "world_ok c w' \<and> (r = Inr (reg, bdy) \<longrightarrow> registration_ok c reg)"
  proof (cases rule: recover_cases)
    case (stuck e)
    then show ?thesis by (auto dest: f)
  next
    case (renewed w1 rr)
    from registered_ok(1) [OF renewed(2) f [OF renewed(1)]]
      registered_ok(2) [OF renewed(2) f [OF renewed(1)], of reg] renewed(3) show ?thesis by auto
  qed
  then show "world_ok c w'" and "r = Inr (reg, bdy) \<Longrightarrow> registration_ok c reg" by auto
qed

lemma hook_world: "snd (hook c d reg rid bdy lim w) = snd (exchange d (hook_request c reg rid bdy) w)"
  by (auto simp: hook_def split: prod.splits sum.splits)

lemma world_ok_hook: "observed_hook c s rid d reg bdy w = (x, w') \<Longrightarrow> world_ok c w \<Longrightarrow> world_ok c w'"
  using world_ok_observed [of c "hc_floats c" HookOp hf_error failure_from
      "hook c d reg rid bdy (hook_response_limit c s)" w]
  by (simp add: observed_hook_def hook_world world_ok_exchange)

lemma invoke_loop_cases:
  assumes "invoke_loop c s stage rid d reg bdy recovered retries w = (r, w')"
  obtains
    (answered) v where "observed_hook c s rid d reg bdy w = (Inr v, w')"
      "r = ready_r (case v of None \<Rightarrow> Inr default_decision
        | Some x \<Rightarrow> translate (lib_serde (hc_lib c)) (lib_b64_decode (hc_lib c)) x s stage)"
  | (failed) f where "observed_hook c s rid d reg bdy w = (Inl f, w')" "r = Inl (map_stop hf_error f)"
  | (lost) f w1 e where "observed_hook c s rid d reg bdy w = (Inl (Raised f), w1)"
      "gone (hf_error f)" "\<not> recovered" "recover c s stage d (reg_id reg) w1 = (Inl e, w')" "r = Inl e"
  | (recovered) f w1 reg' w2 bdy' where "observed_hook c s rid d reg bdy w = (Inl (Raised f), w1)"
      "gone (hf_error f)" "\<not> recovered" "recover c s stage d (reg_id reg) w1 = (Inr (reg', bdy'), w2)"
      "invoke_loop c s stage rid d reg' bdy' True retries w2 = (r, w')"
  | (late) f w1 where "observed_hook c s rid d reg bdy w = (Inl (Raised f), w1)"
      "transient (hf_error f)" "w' = snd (draw_uuid w1)" "r = Inl (Raised (hf_error f))"
  | (retried) f w1 uuid w2 delay where "observed_hook c s rid d reg bdy w = (Inl (Raised f), w1)"
      "transient (hf_error f)" "retries < opt_retries (hc_options c)" "draw_uuid w1 = (uuid, w2)"
      "delay = backoff (retries + 1) (hf_retry_after f) uuid" "w_now w2 + delay < d"
      "invoke_loop c s stage rid d reg bdy recovered (retries + 1)
        (pause delay (w2\<lparr>w_stats := count_retry (w_stats w2)\<rparr>)) = (r, w')"
proof -
  obtain hr w1 where h: "observed_hook c s rid d reg bdy w = (hr, w1)" by fastforce
  note eq = assms [unfolded invoke_loop.simps [of c s stage rid d reg bdy recovered retries w] h, simplified]
  consider (ok) v where "hr = Inr v" | (cut) "hr = Inl Cancelled" | (err) f where "hr = Inl (Raised f)"
    by (cases hr) (use stop.exhaust in blast)+
  then show ?thesis
  proof cases
    case (ok v)
    with eq h answered show ?thesis by (cases v) auto
  next
    case cut
    with eq h failed [of Cancelled] show ?thesis by auto
  next
    case (err f)
    consider (g) "gone (hf_error f)" "\<not> recovered"
      | (t) "\<not> (gone (hf_error f) \<and> \<not> recovered)" "transient (hf_error f)" "retries < opt_retries (hc_options c)"
      | (n) "\<not> (gone (hf_error f) \<and> \<not> recovered)" "\<not> (transient (hf_error f) \<and> retries < opt_retries (hc_options c))"
      by blast
    then show ?thesis
    proof cases
      case g
      obtain rr w2 where rg: "recover c s stage d (reg_id reg) w1 = (rr, w2)" by fastforce
      show ?thesis
      proof (cases rr)
        case (Inl e)
        with g rg eq h err show ?thesis by (intro lost [of f w1 e]) auto
      next
        case (Inr p)
        with g rg eq h err show ?thesis
          by (cases p) (auto intro: recovered [of f w1 "fst p" "snd p" w2])
      qed
    next
      case t
      obtain uuid w2 where u: "draw_uuid w1 = (uuid, w2)" by fastforce
      show ?thesis
      proof (cases "d \<le> w_now w2 + backoff (retries + 1) (hf_retry_after f) uuid")
        case True
        with t u eq h err show ?thesis by (intro late [of f w1]) (auto simp: Let_def)
      next
        case False
        with t u eq h err show ?thesis
          by (intro retried [of f w1 uuid w2 "backoff (retries + 1) (hf_retry_after f) uuid"])
            (auto simp: Let_def)
      qed
    next
      case n
      with eq h err show ?thesis by (intro failed [of "Raised f"]) (auto split: if_splits)
    qed
  qed
qed

section \<open>Effects\<close>

text \<open>\<open>rel d n k\<close>: at most \<open>n\<close> requests and \<open>k\<close> retries, under the deadline \<open>d\<close>.\<close>

locale client_effect =
  fixes c :: "('u, 'o, 'f) hooks_client"
    and rel :: "nat \<Rightarrow> nat \<Rightarrow> nat \<Rightarrow> ('u, 'f) world \<Rightarrow> ('u, 'f) world \<Rightarrow> bool"
  assumes rel_refl: "rel d 0 0 w w"
    and rel_trans: "rel d m k u v \<Longrightarrow> rel d n l v w \<Longrightarrow> rel d (m + n) (k + l) u w"
    and rel_mono: "rel d m k u v \<Longrightarrow> m \<le> n \<Longrightarrow> k \<le> l \<Longrightarrow> rel d n l u v"
    and rel_register: "trusted_url c (hc_url c) \<Longrightarrow>
      rel d 1 0 w (snd (observe (hc_floats c) RegistrationOp id id (register c d) w))"
    and rel_hook: "registration_ok c reg \<Longrightarrow> rel d 1 0 w (snd (observed_hook c s rid d reg bdy w))"
    and rel_lock: "rel d 0 0 w (snd (registration_lock (hc_floats c) (Some d) w))"
    and rel_cache: "rel d 0 0 w (w\<lparr>w_cache := x\<rparr>)"
    and rel_uuid: "rel d 0 0 w (snd (draw_uuid w))"
    and rel_pause: "w_now w + t < d \<Longrightarrow> rel d 0 1 w (pause t (w\<lparr>w_stats := count_retry (w_stats w)\<rparr>))"
begin

lemma rel_locked: "registration_lock (hc_floats c) (Some d) w = (x, w') \<Longrightarrow> rel d 0 0 w w'"
  using rel_lock [of d w] by simp

lemma rel_hooked: "registration_ok c reg \<Longrightarrow> observed_hook c s rid d reg bdy w = (x, w') \<Longrightarrow> rel d 1 0 w w'"
  using rel_hook [of reg d w s rid bdy] by simp

lemma rel_forget: "forget_registration c d ident w = (r, w') \<Longrightarrow> rel d 0 0 w w'"
proof -
  assume f: "forget_registration c d ident w = (r, w')"
  obtain x w1 where l: "registration_lock (hc_floats c) (Some d) w = (x, w1)" by fastforce
  from f l consider "w' = w1" | "w' = w1\<lparr>w_cache := None\<rparr>"
    by (cases x) (auto simp: forget_registration_def state_defs split: option.splits if_splits)
  then show ?thesis using rel_locked [OF l] rel_trans [OF rel_locked [OF l] rel_cache] by cases auto
qed

lemma rel_registered:
  assumes "client_ok c" and "registered c d w = (r, w')"
  shows "rel d 1 0 w w'"
proof -
  have t: "trusted_url c (hc_url c)" using assms(1) by (simp add: trusted_url_def client_ok_def)
  have reg: "rel d 1 0 w v'" if "registration_lock (hc_floats c) (Some d) w = (x, v)"
    "observe (hc_floats c) RegistrationOp id id (register c d) v = (y, v')" for x v y v'
    using rel_trans [OF rel_locked [OF that(1)] rel_register [OF t]] that(2) by (metis add_0 snd_conv)
  from assms(2) show ?thesis
  proof (cases rule: registered_cases)
    case (fresh reg' w1 w2)
    with rel_trans [OF reg [OF fresh(2,3)] rel_cache] show ?thesis by simp
  next
    case (failed e w1)
    with reg show ?thesis by simp
  qed (auto intro: rel_mono [OF rel_locked])
qed

lemma rel_recover:
  assumes "client_ok c" and "recover c s stage d ident w = (r, w')"
  shows "rel d 1 0 w w'"
  using assms(2)
proof (cases rule: recover_cases)
  case (stuck e)
  then show ?thesis by (auto intro: rel_mono [OF rel_forget])
next
  case (renewed w1 rr)
  from rel_trans [OF rel_forget [OF renewed(1)] rel_registered [OF assms(1) renewed(2)]] show ?thesis by simp
qed

lemma rel_invoke_loop:
  assumes "client_ok c" and "registration_ok c reg" and "world_ok c w"
    and "invoke_loop c s stage rid d reg bdy recovered retries w = (r, w')"
  shows "rel d (1 + 2 * of_bool (\<not> recovered) + (opt_retries (hc_options c) - retries))
    (opt_retries (hc_options c) - retries) w w'"
  using assms(2-)
proof (induction "of_bool (\<not> recovered) + (opt_retries (hc_options c) - retries)"
    arbitrary: reg bdy recovered retries w rule: less_induct)
  case less
  let ?left = "opt_retries (hc_options c) - retries"
  note hk = rel_hooked [OF less.prems(1)]
  from less.prems(3) show ?case
  proof (cases rule: invoke_loop_cases)
    case (answered v)
    then show ?thesis by (intro rel_mono [OF hk]) auto
  next
    case (failed f)
    then show ?thesis by (intro rel_mono [OF hk]) auto
  next
    case (lost f w1 e)
    from rel_trans [OF hk [OF lost(1)] rel_recover [OF assms(1) lost(4)]] lost(3)
    show ?thesis by (elim rel_mono) auto
  next
    case (recovered f w1 reg' w2 bdy')
    have ok: "world_ok c w2" "registration_ok c reg'"
      using recover_ok [OF recovered(4) world_ok_hook [OF recovered(1) less.prems(2)]] by auto
    have "rel d (1 + 2 * of_bool (\<not> True) + ?left) ?left w2 w'"
      using less.hyps [OF _ ok(2,1) recovered(5)] recovered(3) by simp
    from rel_trans [OF rel_trans [OF hk [OF recovered(1)] rel_recover [OF assms(1) recovered(4)]] this]
      recovered(3)
    show ?thesis by (elim rel_mono) auto
  next
    case (late f w1)
    have "rel d 1 0 w w'" using rel_trans [OF hk [OF late(1)] rel_uuid] late(3) by simp
    then show ?thesis by (elim rel_mono) auto
  next
    case (retried f w1 uuid w2 delay)
    let ?w3 = "pause delay (w2\<lparr>w_stats := count_retry (w_stats w2)\<rparr>)"
    have w2: "snd (draw_uuid w1) = w2" using retried(4) by simp
    have ok: "world_ok c ?w3" using world_ok_uuid [OF world_ok_hook [OF retried(1) less.prems(2)]] w2 by simp
    have "rel d (1 + 2 * of_bool (\<not> recovered) + (opt_retries (hc_options c) - (retries + 1)))
        (opt_retries (hc_options c) - (retries + 1)) ?w3 w'"
      using less.hyps [OF _ less.prems(1) ok retried(7)] retried(3) by simp
    from rel_trans [OF rel_trans [OF rel_trans [OF hk [OF retried(1)] rel_uuid [of d w1, unfolded w2]]
      rel_pause [OF retried(6)]] this] retried(3)
    show ?thesis by (elim rel_mono) auto
  qed
qed

lemma rel_invoke:
  assumes "client_ok c" and "world_ok c w" and "invoke c s stage rid w = (r, w')"
  shows "rel (w_now w + hc_timeout c) (opt_retries (hc_options c) + 4) (opt_retries (hc_options c)) w w'"
proof -
  let ?d = "w_now w + hc_timeout c"
  obtain rr w1 where reg: "registered c ?d w = (rr, w1)" by fastforce
  note first = rel_registered [OF assms(1) reg]
  show ?thesis
  proof (cases "\<exists>reg bdy. rr = Inr reg \<and> session_request c s stage reg w1 = Inr bdy")
    case True
    then obtain reg' bdy where rr: "rr = Inr reg'" "session_request c s stage reg' w1 = Inr bdy" by blast
    with assms(3) reg have loop: "invoke_loop c s stage rid ?d reg' bdy False 0 w1 = (r, w')"
      by (simp add: invoke_def Let_def check_s_def bind_s.simps)
    have ok: "world_ok c w1" "registration_ok c reg'" using registered_ok [OF reg assms(2)] rr by auto
    from rel_trans [OF first rel_invoke_loop [OF assms(1) ok(2,1) loop]] show ?thesis
      by (elim rel_mono) auto
  next
    case False
    then have "w' = w1"
      using assms(3) reg
      by (cases rr) (auto simp: invoke_def Let_def check_s_def bind_s.simps ready_r_def split: sum.splits)
    with first have "rel ?d 1 0 w w'" by simp
    then show ?thesis by (elim rel_mono) auto
  qed
qed

end

section \<open>The requests, the clock and the retry counter\<close>

lemma exchange_log: "w_log (snd (exchange d rq w)) = w_log w @ [rq]"
  by (auto simp: exchange_def Let_def split: list.splits)

lemma exchange_now: "w_now w \<le> w_now (snd (exchange d rq w)) \<and> w_now (snd (exchange d rq w)) \<le> max (w_now w) d"
  by (auto simp: exchange_def Let_def split: list.splits)

lemma exchange_stats: "w_stats (snd (exchange d rq w)) = w_stats w"
  by (auto simp: exchange_def Let_def split: list.splits)

lemma wait_lock_frame:
  "w_log (snd (wait_lock d l t w)) = w_log w" "w_stats (snd (wait_lock d l t w)) = w_stats w"
  by (auto simp: wait_lock_def acquire_def split: option.splits)

lemma wait_lock_deadline: "w_now (snd (wait_lock (Some d) l t w)) \<le> max (w_now w) d"
  by (auto simp: wait_lock_def acquire_def)

lemma registration_lock_log: "w_log (snd (registration_lock fl d w)) = w_log w"
  by (simp add: registration_lock_def acquire_def observed_frame wait_lock_frame Let_def
      split: list.splits option.splits)

lemma registration_lock_retries:
  "hook_retries (w_stats (snd (registration_lock fl d w))) = hook_retries (w_stats w)"
  by (simp add: registration_lock_def acquire_def observed_frame wait_lock_frame Let_def
      split: list.splits option.splits)

lemma registration_lock_deadline: "w_now (snd (registration_lock fl (Some d) w)) \<le> max (w_now w) d"
proof -
  have "w_now (snd (wait_lock (Some d) l t (snd (begin_op op (w\<lparr>w_locks := ls\<rparr>))))) \<le> max (w_now w) d"
    for l ls t op using wait_lock_deadline [of d l t "snd (begin_op op (w\<lparr>w_locks := ls\<rparr>))"] by simp
  then show ?thesis
    by (simp add: registration_lock_def acquire_def observed_frame Let_def split: list.splits option.splits)
qed

lemma draw_uuid_frame:
  "w_log (snd (draw_uuid w)) = w_log w" "w_stats (snd (draw_uuid w)) = w_stats w"
  by (simp_all add: draw_uuid_def split: list.splits)

lemma count_retry_retries [simp]: "hook_retries (count_retry st) = hook_retries st + 1"
  by (simp add: count_retry_def)

lemmas step_worlds = observed_frame observed_hook_def register_world hook_world

definition sends_trusted ::
  "('u, 'o, 'f) hooks_client \<Rightarrow> nat \<Rightarrow> nat \<Rightarrow> nat \<Rightarrow> ('u, 'f) world \<Rightarrow> ('u, 'f) world \<Rightarrow> bool" where
  "sends_trusted c d n k w w' \<longleftrightarrow> (\<exists>rqs. w_log w' = w_log w @ rqs \<and> length rqs \<le> n \<and>
     (\<forall>rq \<in> set rqs. trusted_url c (rq_url rq)))"

definition within_deadline :: "nat \<Rightarrow> nat \<Rightarrow> nat \<Rightarrow> ('u, 'f) world \<Rightarrow> ('u, 'f) world \<Rightarrow> bool" where
  "within_deadline d n k w w' \<longleftrightarrow> w_now w \<le> w_now w' \<and> w_now w' \<le> max (w_now w) d"

definition counts_retries :: "nat \<Rightarrow> nat \<Rightarrow> nat \<Rightarrow> ('u, 'f) world \<Rightarrow> ('u, 'f) world \<Rightarrow> bool" where
  "counts_retries d n k w w' \<longleftrightarrow>
     (\<exists>m \<le> k. hook_retries (w_stats w') = hook_retries (w_stats w) + of_nat m)"

interpretation requests: client_effect c "sends_trusted c" for c :: "('u, 'o, 'f) hooks_client"
proof unfold_locales
  fix d m k n l :: nat and u v w :: "('u, 'f) world"
  assume "sends_trusted c d m k u v" "sends_trusted c d n l v w"
  then obtain a b where "w_log v = w_log u @ a" "w_log w = w_log v @ b" "length a \<le> m" "length b \<le> n"
    "\<forall>rq \<in> set a. trusted_url c (rq_url rq)" "\<forall>rq \<in> set b. trusted_url c (rq_url rq)"
    unfolding sends_trusted_def by blast
  then show "sends_trusted c d (m + n) (k + l) u w"
    unfolding sends_trusted_def by (intro exI [of _ "a @ b"]) auto
qed (auto simp: sends_trusted_def step_worlds exchange_log registration_lock_log draw_uuid_frame pause_def
    registration_request_def hook_request_def registration_ok_def)

interpretation clock: client_effect c "within_deadline" for c :: "('u, 'o, 'f) hooks_client"
proof unfold_locales
  fix d :: nat and w :: "('u, 'f) world" and reg :: "'u registration" and s rid bdy
  show "within_deadline d 1 0 w (snd (observe (hc_floats c) RegistrationOp id id (register c d) w))"
    using exchange_now [of "snd (begin_op RegistrationOp w)" d "registration_request c"]
    by (simp add: within_deadline_def step_worlds)
  show "within_deadline d 1 0 w (snd (observed_hook c s rid d reg bdy w))"
    using exchange_now [of "snd (begin_op HookOp w)" d "hook_request c reg rid bdy"]
    by (simp add: within_deadline_def step_worlds)
  show "within_deadline d 0 0 w (snd (registration_lock (hc_floats c) (Some d) w))"
    by (simp add: within_deadline_def registration_lock_clock registration_lock_deadline)
qed (auto simp: within_deadline_def draw_uuid_clock pause_def)

interpretation retry_counter: client_effect c "counts_retries" for c :: "('u, 'o, 'f) hooks_client"
proof unfold_locales
  fix d m k n l :: nat and u v w :: "('u, 'f) world"
  assume "counts_retries d m k u v" "counts_retries d n l v w"
  then obtain a b where "hook_retries (w_stats v) = hook_retries (w_stats u) + of_nat a" "a \<le> k"
    "hook_retries (w_stats w) = hook_retries (w_stats v) + of_nat b" "b \<le> l" by (auto simp: counts_retries_def)
  then show "counts_retries d (m + n) (k + l) u w"
    unfolding counts_retries_def by (intro exI [of _ "a + b"]) (simp add: add.assoc)
next
  fix d m k n l :: nat and u v :: "('u, 'f) world"
  assume "counts_retries d m k u v" "k \<le> l"
  then show "counts_retries d n l u v" unfolding counts_retries_def by (meson order_trans)
next
  fix w :: "('u, 'f) world" and t d :: nat
  show "counts_retries d 0 1 w (pause t (w\<lparr>w_stats := count_retry (w_stats w)\<rparr>))"
    unfolding counts_retries_def by (intro exI [of _ 1]) (simp add: pause_def)
qed (auto simp: counts_retries_def step_worlds exchange_stats registration_lock_retries draw_uuid_frame
    intro: exI [of _ "0::nat"])

end
