(* ===== verification/Hooks_Correct.thy ===== *)
theory Hooks_Correct
  imports Client_Effects Server_Inv
begin

text \<open>
  Properties of the scanner client: backoff, retries, startup, shutdown, the absence of panics,
  and the macros the projection needs.
\<close>

section \<open>Backoff\<close>

lemma backoff_upper: "backoff attempt ra uuid < RETRY_MAX + RETRY_JITTER_MS"
proof -
  have "uuid mod RETRY_JITTER_MS < RETRY_JITTER_MS" by (simp add: RETRY_JITTER_MS_def)
  moreover have "min x RETRY_MAX \<le> RETRY_MAX" for x by simp
  ultimately show ?thesis unfolding backoff_def Let_def by (rule add_le_less_mono [rotated])
qed

lemma backoff_retry_after: "min d RETRY_MAX \<le> backoff attempt (Some d) uuid"
  unfolding backoff_def Let_def by (rule trans_le_add1) (simp add: min_le_iff_disj le_max_iff_disj)

lemma backoff_mono: "a \<le> b \<Longrightarrow> backoff a ra uuid \<le> backoff b ra uuid"
  unfolding backoff_def Let_def saturating_sub_def
  by (intro add_mono min.mono max.mono mult_le_mono2 power_increasing order_refl) auto

section \<open>No panics\<close>

lemma no_panic_text_error: "text_error r \<Longrightarrow> no_panic r"
  by (cases r) (auto simp: text_error_def)

lemma no_panic_projections [simp]:
  "no_panic (macro_text s n)" "no_panic (macro_number s n)" "no_panic (opt_text o')"
  "no_panic (address_json a sndr)"
  by (simp_all add: no_panic_text_error)

lemma project_no_panic: "no_panic (project b64 now s cn stage prop)"
proof -
  have "no_panic (project_envelope s stage)"
    by (auto simp: project_envelope_def intro!: no_panic_bind no_panic_collect_r split: option.splits)
  moreover have "no_panic (project_client s cn)"
    unfolding project_client_def Let_def by (intro no_panic_bind) auto
  moreover have "no_panic (project_tls s)" "no_panic (project_auth s)" "no_panic (project_server s)"
    by (auto simp: project_tls_def project_auth_def project_server_def intro!: no_panic_bind
        split: option.splits)
  ultimately show ?thesis by (simp add: project_def)
qed

lemma request_no_panic: "no_panic (request b64 now s stage props)"
  by (auto simp: request_def intro!: no_panic_bind no_panic_ok_or no_panic_fold_r project_no_panic)

lemma read_chunks_no_panic: "no_panic (read_chunks limit data cs)"
  by (induction limit data cs rule: read_chunks.induct) (auto simp: http_error_def)

lemma bounded_json_no_panic: "no_panic (bounded_json pj rp limit)"
  unfolding bounded_json_def Let_def
  by (intro no_panic_bind no_panic_ensure no_panic_ok_or read_chunks_no_panic) auto

lemma validate_url_no_panic: "no_panic (validate_url lib url insecure)"
  by (simp add: validate_url_def Let_def)

lemma same_origin_no_panic: "no_panic (same_origin c path)"
  by (auto simp: same_origin_def Let_def intro!: no_panic_bind no_panic_ok_or validate_url_no_panic)

lemma accept_registration_no_panic: "no_panic (accept_registration c utc v)"
proof -
  have "no_panic (registration_id v)"
    by (auto simp: registration_id_def intro!: no_panic_bind no_panic_ok_or)
  moreover have "no_panic (confirm_stages ws v)" for ws
    by (auto simp: confirm_stages_def intro!: no_panic_bind no_panic_ok_or no_panic_ensure)
  moreover have "no_panic (confirm_properties v)"
    by (auto simp: confirm_properties_def confirm_property_def
        intro!: no_panic_bind no_panic_ok_or no_panic_ensure no_panic_fold_r)
  moreover have "no_panic (registration_expiry pt utc v)" for pt
    unfolding registration_expiry_def
    by (intro no_panic_bind) (auto intro!: no_panic_bind no_panic_ok_or split: option.splits)
  ultimately show ?thesis
    unfolding accept_registration_def
    by (intro no_panic_bind no_panic_ensure no_panic_ok_or same_origin_no_panic)
      (auto intro: same_origin_no_panic split: option.splits json.splits)
qed

text \<open>The same for computations that may be cancelled.\<close>

lemma calm_ready_r [simp]: "calm id (ready_r r) = no_panic r"
  by (auto simp: calm_def no_panic_def ready_r_def split: sum.splits)

lemma calm_simps [simp]: "calm err (Inr x)" "calm err (Inl Cancelled)"
  "calm err (Inl (Raised e)) \<longleftrightarrow> (\<forall>m. err e \<noteq> Panic m)"
  by (simp_all add: calm_def)

lemma no_panic_await: "calm id r \<Longrightarrow> no_panic (await r)"
  by (auto simp: calm_def no_panic_def await_def split: sum.splits stop.splits)

lemma calm_Inl: "calm err (Inl e :: 'e stop + 'a) \<Longrightarrow> calm err (Inl e :: 'e stop + 'b)"
  by (simp add: calm_def)

lemma exchange_calm: "calm id (fst (exchange d rq w))"
  by (auto simp: exchange_def Let_def http_error_def ready_r_def split: list.splits sum.splits)

lemma register_calm: "calm id (fst (register c d w))"
proof -
  obtain x w1 where x: "exchange d (registration_request c) w = (x, w1)" by fastforce
  with exchange_calm [of d "registration_request c" w] show ?thesis
    by (cases x) (auto simp: register_def bind_s.simps check_s_def
        intro!: no_panic_bind bounded_json_no_panic accept_registration_no_panic dest: calm_Inl)
qed

lemma hook_calm: "calm hf_error (fst (hook c d reg rid bdy lim w))"
proof -
  obtain x w1 where x: "exchange d (hook_request c reg rid bdy) w = (x, w1)" by fastforce
  show ?thesis
  proof (cases x)
    case (Inl s)
    with x exchange_calm [of d "hook_request c reg rid bdy" w] show ?thesis
      by (cases s) (simp_all add: hook_def failure_from_def)
  next
    case (Inr rp)
    with x bounded_json_no_panic [of "lib_json (hc_lib c)" rp lim] show ?thesis
      by (auto simp: hook_def ready_r_def failure_from_def calm_def no_panic_def split: sum.splits if_splits)
  qed
qed

lemma observed_calm_result: "calm err (fst (run (snd (begin_op op w)))) \<Longrightarrow>
  fst (observe fl op err raise run w) = fst (run (snd (begin_op op w)))"
  using observed_calm(1) [of run op w "fst (run (snd (begin_op op w)))" "snd (run (snd (begin_op op w)))"] by simp

lemma wait_lock_calm: "calm err (fst (wait_lock d l t w))"
  by (auto simp: wait_lock_def split: option.splits)

lemma observed_wait_lock:
  "fst (observe fl op id id (wait_lock d l t) w) = fst (wait_lock d l t (snd (begin_op op w)))"
  by (rule observed_calm_result) (rule wait_lock_calm)

lemma registration_lock_calm: "calm err (fst (registration_lock fl d w))"
  by (auto simp: registration_lock_def Let_def observed_wait_lock wait_lock_calm split: list.splits option.splits)

lemma observed_register_calm: "calm id (fst (observe fl RegistrationOp id id (register c d) w))"
  by (subst observed_calm_result) (rule register_calm)+

lemma registered_calm:
  assumes "registered c d w = (r, w')"
  shows "calm id r"
  using assms
proof (cases rule: registered_cases)
  case (blocked e)
  with registration_lock_calm [of id "hc_floats c" "Some d" w] show ?thesis by (simp add: calm_def)
next
  case (failed e w1)
  with observed_register_calm [of "hc_floats c" c d w1] show ?thesis by (simp add: calm_def)
qed simp_all

lemma recover_calm:
  assumes "recover c s stage d ident w = (r, w')"
  shows "calm id r"
  using assms
proof (cases rule: recover_cases)
  case (stuck e)
  obtain x w1 where l: "registration_lock (hc_floats c) (Some d) w = (x, w1)" by fastforce
  with stuck registration_lock_calm [of id "hc_floats c" "Some d" w] show ?thesis
    by (cases x) (auto simp: forget_registration_def state_defs calm_def)
next
  case (renewed w1 rr)
  show ?thesis
  proof (cases r)
    case (Inl e)
    from renewed(4) [OF Inl] registered_calm [OF renewed(2)] request_no_panic Inl show ?thesis
      by (auto simp: calm_def session_request_def) (metis no_panic_def)
  qed simp
qed

lemma observed_hook_calm: "calm hf_error (fst (observed_hook c s rid d reg bdy w))"
  unfolding observed_hook_def by (subst observed_calm_result) (rule hook_calm)+

lemma invoke_loop_calm:
  "invoke_loop c s stage rid d reg bdy recovered retries w = (r, w') \<Longrightarrow> calm id r"
proof (induction "of_bool (\<not> recovered) + (opt_retries (hc_options c) - retries)"
    arbitrary: reg bdy recovered retries w rule: less_induct)
  case less
  note h = observed_hook_calm [of c s rid d reg bdy w]
  from less.prems show ?case
  proof (cases rule: invoke_loop_cases)
    case (answered v)
    then show ?thesis by (auto simp: translate_no_panic split: option.splits)
  next
    case (failed f)
    with h show ?thesis by (cases f) auto
  next
    case (lost f w1 e)
    with recover_calm [OF lost(4)] show ?thesis by (simp add: calm_def)
  next
    case (recovered f w1 reg' w2 bdy')
    with less.hyps [OF _ recovered(5)] show ?thesis by simp
  next
    case (late f w1)
    with h show ?thesis by simp
  next
    case (retried f w1 uuid w2 delay)
    with less.hyps [OF _ retried(7)] show ?thesis by simp
  qed
qed

lemma invoke_calm: "calm id (fst (invoke c s stage rid w))"
proof -
  let ?d = "w_now w + hc_timeout c"
  obtain rr w1 where reg: "registered c ?d w = (rr, w1)" by fastforce
  show ?thesis
  proof (cases rr)
    case (Inl e)
    with registered_calm [OF reg] reg show ?thesis
      by (auto simp: invoke_def Let_def bind_s.simps dest: calm_Inl)
  next
    case (Inr reg')
    have loop: "calm id (fst (invoke_loop c s stage rid ?d reg' bdy False 0 w1))" for bdy
      by (rule invoke_loop_calm [OF prod.collapse [symmetric]])
    have "no_panic (session_request c s stage reg' w1)"
      by (simp add: session_request_def request_no_panic)
    with loop Inr reg show ?thesis
      by (cases "session_request c s stage reg' w1")
        (simp_all add: invoke_def Let_def bind_s.simps check_s_def no_panic_def)
  qed
qed

lemma evaluate_no_panic: "no_panic (fst (evaluate c rid w stage s))"
  using no_panic_await [OF invoke_calm [of c s stage rid w]]
  by (cases "invoke c s stage rid w") (simp add: evaluate_def)

section \<open>A timeout is not retried\<close>

lemma timeout_not_transient: "\<not> transient Timeout" "\<not> transient (HttpTransport HkTimeout)" "\<not> gone Timeout"
  "\<not> gone (HttpTransport HkTimeout)"
  by (simp_all add: gone_def)

lemma invoke_loop_final:
  assumes "observed_hook c s rid d reg bdy w = (Inl (Raised f), w1)"
    and "\<not> transient (hf_error f)" and "\<not> gone (hf_error f)"
  shows "invoke_loop c s stage rid d reg bdy recovered retries w = (Inl (Raised (hf_error f)), w1)"
  using assms by (subst invoke_loop.simps) simp

section \<open>Startup and shutdown\<close>

lemma registered_cached:
  assumes "registered c d w = (Inr reg, w')"
  shows "w_cache w' = Some reg"
  using assms by (cases rule: registered_cases) auto

lemma startup_loop_cases:
  assumes "startup_loop c deadline attempt w = (r, w')"
  obtains
    (ended) reg where "registered c (w_now w + hc_timeout c) w = (Inr reg, w')" "r = Inr ()"
  | (failed) rr e w1 where "registered c (w_now w + hc_timeout c) w = (rr, w1)" "await rr = Inl e" "r = Inl e"
      "w' = w1 \<or> w' = snd (draw_uuid w1)"
  | (again) rr e w1 uuid w2 where "registered c (w_now w + hc_timeout c) w = (rr, w1)" "await rr = Inl e"
      "startup_transient e" "draw_uuid w1 = (uuid, w2)" "w_now w2 + backoff (attempt + 1) None uuid < deadline"
      "startup_loop c deadline (attempt + 1) (pause (backoff (attempt + 1) None uuid) w2) = (r, w')"
proof -
  obtain rr w1 where g: "registered c (w_now w + hc_timeout c) w = (rr, w1)" by fastforce
  obtain uuid w2 where u: "draw_uuid w1 = (uuid, w2)" by fastforce
  note eq = assms [unfolded startup_loop.simps [of c deadline attempt w] g, simplified]
  show ?thesis
  proof (cases "await rr")
    case (Inr reg)
    with eq g show ?thesis by (intro ended [of reg]) (auto simp: result_simps)
  next
    case (Inl e)
    show ?thesis
    proof (cases "startup_transient e \<and> w_now w2 + backoff (attempt + 1) None uuid < deadline")
      case True
      with eq g u Inl show ?thesis by (intro again [of rr w1 e uuid w2]) (auto simp: Let_def)
    next
      case False
      with eq g u Inl show ?thesis by (intro failed [of rr w1 e]) (auto simp: Let_def split: if_splits)
    qed
  qed
qed

lemma startup_loop_registers:
  "startup_loop c deadline attempt w = (Inr u, w') \<Longrightarrow> world_ok c w \<Longrightarrow>
   \<exists>reg. w_cache w' = Some reg \<and> registration_ok c reg \<and> world_ok c w'"
proof (induction "deadline - w_now w" arbitrary: attempt w rule: less_induct)
  case less
  from less.prems(1) show ?case
  proof (cases rule: startup_loop_cases)
    case (ended reg)
    with registered_cached [OF ended(1)] registered_ok [OF ended(1) less.prems(2)] show ?thesis by auto
  next
    case (again rr e w1 uuid w2)
    have "world_ok c w2"
      using world_ok_uuid [OF registered_ok(1) [OF again(1) less.prems(2)]] again(4) by simp
    with less.hyps [OF startup_decreases [OF again(1,4)] again(6)] again(5) show ?thesis by simp
  qed simp
qed

lemma registered_deadline:
  assumes "registered c d w = (r, w')"
  shows "w_now w' \<le> max (w_now w) d"
proof -
  have lock: "w_now v \<le> max (w_now w) d" if "registration_lock (hc_floats c) (Some d) w = (x, v)" for x v
    using registration_lock_deadline [of "hc_floats c" d w] that by simp
  have reg: "w_now v' \<le> max (w_now v) d"
    if "observe (hc_floats c) RegistrationOp id id (register c d) v = (y, v')" for v y v'
    using exchange_now [of "snd (begin_op RegistrationOp v)" d "registration_request c"]
      observed_frame(1) [of "hc_floats c" RegistrationOp id id "register c d" v] that
    by (simp add: register_world)
  from assms show ?thesis
  proof (cases rule: registered_cases)
    case (fresh reg' w1 w2)
    with lock [OF fresh(2)] reg [OF fresh(3)] show ?thesis by simp
  next
    case (failed e w1)
    with lock [OF failed(2)] reg [OF failed(3)] show ?thesis by simp
  qed (auto dest: lock)
qed

lemma startup_loop_deadline:
  "startup_loop c deadline attempt w = (r, w') \<Longrightarrow> w_now w' \<le> max (w_now w) deadline + hc_timeout c"
proof (induction "deadline - w_now w" arbitrary: attempt w rule: less_induct)
  case less
  from less.prems show ?case
  proof (cases rule: startup_loop_cases)
    case (ended reg)
    with registered_deadline [OF ended(1)] show ?thesis by (simp add: max_def)
  next
    case (failed rr e w1)
    with registered_deadline [OF failed(1)] draw_uuid_clock [of w1] show ?thesis by (auto simp: max_def)
  next
    case (again rr e w1 uuid w2)
    with less.hyps [OF startup_decreases [OF again(1,4)] again(6)] show ?thesis by (simp add: pause_def)
  qed
qed

lemma with_options_Inr:
  assumes "with_options lib rq url auth name timeout insecure transport options w = (Inr c, w')"
  shows "c = new_client lib url auth name timeout insecure options" and "client_ok c"
    and "\<exists>k. transport_build (lib_url lib) (proxy_all rq) (build_client rq) transport timeout = Inr k"
    and "opt_stages options \<noteq> []"
    and "startup_loop c (w_now w + opt_startup_wait options) 0 w = (Inr (), w')"
  using assms
  by (auto simp: with_options_def result_simps Let_def new_client_def client_ok_def)

lemma with_options_deadline:
  assumes "with_options lib rq url auth name timeout insecure transport options w = (r, w')"
  shows "w_now w' \<le> w_now w + opt_startup_wait options + timeout"
proof -
  let ?c = "new_client lib url auth name timeout insecure options"
  obtain q v where q: "startup_loop ?c (w_now w + opt_startup_wait options) 0 w = (q, v)" by fastforce
  with startup_loop_deadline [OF q] have "w_now v \<le> w_now w + opt_startup_wait options + timeout"
    by (simp add: new_client_def)
  moreover have "w' = w \<or> w' = v"
    using assms q
    by (auto simp: with_options_def check_s_def bind_s.simps return_s_def Let_def split: sum.splits)
  ultimately show ?thesis by auto
qed

text \<open>After deregistration nothing is cached, whatever the scanner answers; and the scanner is told
  when it gave an endpoint for that.\<close>

lemma send_deregistration_frame:
  "w_cache (snd (send_deregistration c reg url w)) = w_cache w"
  "w_log (snd (send_deregistration c reg url w)) = w_log w @ [deregistration_request c reg url]"
  "w_stats (snd (send_deregistration c reg url w)) = w_stats w"
proof -
  have "w_cache (snd (exchange d rq w)) = w_cache w" for d rq
    by (auto simp: exchange_def Let_def split: list.splits)
  then show "w_cache (snd (send_deregistration c reg url w)) = w_cache w"
    "w_log (snd (send_deregistration c reg url w)) = w_log w @ [deregistration_request c reg url]"
    "w_stats (snd (send_deregistration c reg url w)) = w_stats w"
    using exchange_log [of "w_now w + hc_timeout c" "deregistration_request c reg url" w]
      exchange_stats [of "w_now w + hc_timeout c" "deregistration_request c reg url" w]
    by (auto simp: send_deregistration_def split: prod.splits) (metis snd_conv)+
qed

lemma lock_forever_Inr: "\<exists>w'. registration_lock fl None w = (Inr (), w')"
proof -
  have "fst (registration_lock fl None w) = Inr ()"
    by (auto simp: registration_lock_def Let_def observed_wait_lock wait_lock_def split: list.splits option.splits)
  then show ?thesis by (cases "registration_lock fl None w") simp
qed

lemma deregister_cases:
  assumes "deregister c w = (r, w')"
  obtains w1 where "registration_lock (hc_floats c) None w = (Inr (), w1)" "w_cache w' = None"
    "case w_cache w1 of
       Some reg \<Rightarrow>
         (case reg_deregistration reg of
            Some url \<Rightarrow>
              if opt_deregister (hc_options c)
              then w_log w' = w_log w @ [deregistration_request c reg url] else w_log w' = w_log w
          | None \<Rightarrow> w_log w' = w_log w)
     | None \<Rightarrow> w_log w' = w_log w"
proof -
  obtain w1 where l: "registration_lock (hc_floats c) None w = (Inr (), w1)" using lock_forever_Inr by blast
  have log: "w_log w1 = w_log w" using registration_lock_log [of "hc_floats c" None w] l by simp
  have sent: "w_cache w' = None \<and> w_log w' = w_log w @ [deregistration_request c reg url]"
    if "observe (hc_floats c) DeregistrationOp id id (send_deregistration c reg url) (w1\<lparr>w_cache := None\<rparr>) = (r, w')"
    for reg url
    using observed_frame(4,5) [of "hc_floats c" DeregistrationOp id id "send_deregistration c reg url"
        "w1\<lparr>w_cache := None\<rparr>"] that log
    by (simp add: send_deregistration_frame)
  from assms l log show ?thesis
    by (intro that [OF l]) (auto simp: deregister_def Let_def dest: sent split: option.splits if_splits)
qed

section \<open>The client in the server\<close>

lemma hooks_turn_sane:
  assumes "\<forall>m. tick_failure (ticks u) \<noteq> Some (Panic m)"
    and "\<forall>n m. write_socket u \<noteq> Some (n, Panic m)" and "\<forall>m. frame_fault u \<noteq> Some (Panic m)"
  shows "turn_sane (hooks_policy c) u"
  using assms evaluate_no_panic
  by (auto simp: turn_sane_def hooks_policy_def split: prod.splits)

lemma hooks_actions_supported: "hooks_actions = SUPPORTED_ACTIONS"
  by (simp add: hooks_actions_def SUPPORTED_ACTIONS_def action_defs)

text \<open>The macros the projection reads.\<close>

definition projected_macros :: "bytes list" where
  "projected_macros = [''i'', ''client_addr'', ''client_ptr'', ''client_connections'', ''tls_version'',
     ''cipher'', ''cipher_bits'', ''cert_subject'', ''cert_issuer'', ''auth_authen'', ''auth_type'',
     ''j'', ''daemon_addr'', ''daemon_port'']"

lemma projection_macros_cover:
  "\<forall>n \<in> set projected_macros. \<exists>(st, names) \<in> set projection_macros.
     n \<in> set names \<or> ''{'' @ n @ ''}'' \<in> set names"
  by (simp add: projected_macros_def projection_macros_def)

text \<open>The request depends on the session's macros only through those names.\<close>

lemma request_macros_cong:
  assumes "\<And>n. n \<in> set projected_macros \<Longrightarrow> macro_value s n = macro_value t n"
    and "conn s = conn t" and "message s = message t" and "helo s = helo t" and "opts s = opts t"
  shows "request b64 now s stage props = request b64 now t stage props"
proof -
  have m: "macro_text s ''i'' = macro_text t ''i''"
    "macro_text s ''client_addr'' = macro_text t ''client_addr''"
    "macro_text s ''client_ptr'' = macro_text t ''client_ptr''"
    "macro_text s ''tls_version'' = macro_text t ''tls_version''"
    "macro_text s ''cipher'' = macro_text t ''cipher''"
    "macro_text s ''cert_subject'' = macro_text t ''cert_subject''"
    "macro_text s ''cert_issuer'' = macro_text t ''cert_issuer''"
    "macro_text s ''auth_authen'' = macro_text t ''auth_authen''"
    "macro_text s ''auth_type'' = macro_text t ''auth_type''"
    "macro_text s ''j'' = macro_text t ''j''"
    "macro_text s ''daemon_addr'' = macro_text t ''daemon_addr''"
    "macro_number s ''client_connections'' = macro_number t ''client_connections''"
    "macro_number s ''cipher_bits'' = macro_number t ''cipher_bits''"
    "macro_number s ''daemon_port'' = macro_number t ''daemon_port''"
    using assms(1) by (simp_all add: macro_text_def macro_number_def projected_macros_def)
  have "raw_message s = raw_message t" by (simp add: raw_message_def leading_space_def assms)
  moreover have "project_envelope s stage = project_envelope t stage"
    by (simp only: project_envelope_def assms(3))
  moreover have "project_client s cn = project_client t cn" for cn
    unfolding project_client_def m assms(4) ..
  moreover have "project_tls s = project_tls t" "project_auth s = project_auth t"
    "project_server s = project_server t"
    unfolding project_tls_def project_auth_def project_server_def m by (rule refl)+
  ultimately have "project b64 now s cn stage p = project b64 now t cn stage p" for cn p
    unfolding project_def m(1) by simp
  then show ?thesis by (simp add: request_def assms(2))
qed

section \<open>A translated decision is one the session accepts\<close>

text \<open>With all actions granted, only a limit or a malformed SMTP reply can still refuse it.\<close>

definition limit_error :: "'a result \<Rightarrow> bool" where
  "limit_error r \<longleftrightarrow> (\<forall>e. r = Inl e \<longrightarrow> (\<exists>l. e = Limit l))"

lemma limit_error_simps [simp]: "limit_error (Inr x)" "limit_error (Inl (Limit l))"
  by (simp_all add: limit_error_def)

lemma limit_error_bind:
  "limit_error m \<Longrightarrow> (\<And>x. m = Inr x \<Longrightarrow> limit_error (f x)) \<Longrightarrow> limit_error (bind_r m f)"
  by (cases m) (auto simp: limit_error_def)

lemma limit_error_basic: "limit_error (ensure b (Limit l))" "limit_error (ok_or (Limit l) x)"
  by (cases b; simp) (cases x; simp)

lemma limit_error_fold_r: "(\<And>a x. x \<in> set xs \<Longrightarrow> limit_error (f a x)) \<Longrightarrow> limit_error (fold_r f a xs)"
  by (induction xs arbitrary: a) (auto intro!: limit_error_bind)

lemma emit_frame_limit: "limit_error (emit_frame lims acc f)"
  by (auto simp: emit_frame_def intro!: limit_error_bind limit_error_basic split: prod.splits)

lemma emit_modification_limit:
  assumes "actions o' = SUPPORTED_ACTIONS" and "is_ok (frames m (leading_space s))"
  shows "limit_error (emit_modification s o' acc m)"
proof -
  have "actions o' AND capability m \<noteq> 0"
    using assms(1) capability_supported [of m] capability_nonzero [of m] by (simp add: and.commute)
  moreover obtain fs where "frames m (leading_space s) = Inr fs" using assms(2) by (auto simp: is_ok_iff)
  ultimately show ?thesis
    by (auto simp: emit_modification_def payload_bytes_eq intro!: limit_error_bind limit_error_basic
        limit_error_fold_r emit_frame_limit split: prod.splits)
qed

lemma translated_decision_limits:
  assumes "translate sd b64d v s stage = Inr d" and "pending s = Some stage"
    and "opts s = Some o'" and "actions o' = SUPPORTED_ACTIONS"
    and "\<And>code en msg. verdict d \<noteq> Reply code en msg"
  shows "limit_error (fst (complete d s))"
proof -
  have "limit_error (fold_r (emit_modification s o') ([], 0) (modifications d))"
    using translate_modifications [OF assms(1)]
    by (intro limit_error_fold_r emit_modification_limit [OF assms(4)]) auto
  moreover have "modifications d = [] \<or> stage = StEndMessage"
    using translate_early_stage [OF assms(1)] by blast
  moreover have "is_ok (verdict_frame (verdict d))"
  proof (cases "verdict d")
    case (Reply code en msg)
    with assms(5) show ?thesis by blast
  qed simp_all
  then obtain r where "verdict_frame (verdict d) = Inr r" by (auto simp: is_ok_iff)
  ultimately have "limit_error (check_decision s d)"
    using assms(2,3)
    by (auto simp: check_decision_def intro!: limit_error_bind limit_error_basic split: prod.splits)
  then show ?thesis
    by (cases "check_decision s d") (auto simp: complete_def limit_error_def split: prod.splits)
qed

end
