(* ===== verification/Client_Metrics.thy ===== *)
theory Client_Metrics
  imports Hooks_Correct
begin

text \<open>
  The client's metrics are exact. A fourth interpretation of the effect laws: every hook and
  registration request is one finished observation of its operation, and every gauge of running
  operations is back at its old value when the client returns, also when it is cancelled.
\<close>

section \<open>What is counted\<close>

text \<open>The requests an operation's observation stands for; waiting for the lock sends none.\<close>

fun counted :: "client_op \<Rightarrow> 'u http_request \<Rightarrow> bool" where
  "counted HookOp rq = (rq_request_id rq \<noteq> None)"
| "counted RegistrationOp rq = (rq_method rq = POST \<and> rq_request_id rq = None)"
| "counted DeregistrationOp rq = (rq_method rq = DELETE)"
| "counted RegistrationWaitOp rq = False"

definition op_count :: "client_op \<Rightarrow> ('u, 'f) world \<Rightarrow> u64" where
  "op_count op w = measurements.count (measured (op_of op (w_stats w)))"

definition op_running :: "client_op \<Rightarrow> ('u, 'f) world \<Rightarrow> u64" where
  "op_running op w = op_active (op_of op (w_stats w))"

definition metered :: "nat \<Rightarrow> nat \<Rightarrow> nat \<Rightarrow> ('u, 'f) world \<Rightarrow> ('u, 'f) world \<Rightarrow> bool" where
  "metered d n k w w' \<longleftrightarrow> (\<exists>rqs. w_log w' = w_log w @ rqs \<and>
     (\<forall>op. op_running op w' = op_running op w) \<and>
     (\<forall>op. op \<noteq> RegistrationWaitOp \<longrightarrow>
        op_count op w' = op_count op w + of_nat (length (filter (counted op) rqs))))"

lemma metered_frame:
  assumes "w_log w' = w_log w" and "\<And>op. op_of op (w_stats w') = op_of op (w_stats w)"
  shows "metered d n k w w'"
  using assms unfolding metered_def by (intro exI [of _ "[]"]) (simp add: op_running_def op_count_def)

lemma metered_trans:
  assumes "metered d m k u v" and "metered d n l v w"
  shows "metered d m' k' u w"
proof -
  from assms obtain a b where "w_log v = w_log u @ a" "w_log w = w_log v @ b"
    "\<And>op. op_running op v = op_running op u" "\<And>op. op_running op w = op_running op v"
    "\<And>op. op \<noteq> RegistrationWaitOp \<Longrightarrow> op_count op v = op_count op u + of_nat (length (filter (counted op) a))"
    "\<And>op. op \<noteq> RegistrationWaitOp \<Longrightarrow> op_count op w = op_count op v + of_nat (length (filter (counted op) b))"
    unfolding metered_def by blast
  then show ?thesis unfolding metered_def by (intro exI [of _ "a @ b"]) simp
qed

text \<open>An observed operation that leaves the metrics alone itself and sends the requests it stands for.\<close>

lemma metered_observe:
  assumes calm: "\<And>v. calm err (fst (run v))" and stats: "\<And>v. w_stats (snd (run v)) = w_stats v"
    and log: "\<And>v. w_log (snd (run v)) = w_log v @ rqs"
    and own: "op \<noteq> RegistrationWaitOp \<Longrightarrow> length (filter (counted op) rqs) = 1"
    and other: "\<And>op'. op' \<noteq> op \<Longrightarrow> filter (counted op') rqs = []"
  shows "metered d n k w (snd (observe fl op err raise run w))"
proof -
  let ?b = "snd (begin_op op w)" and ?w = "snd (observe fl op err raise run w)"
  obtain r w2 where r: "run ?b = (r, w2)" by fastforce
  have s: "w_stats w2 = w_stats ?b" and c: "calm err r" using stats [of ?b] calm [of ?b] r by simp_all
  note o = observed_calm [where run = run and op = op and w = w and fl = fl and raise = raise, OF r c]
  have "op_running op' ?w = op_running op' w" for op'
    unfolding op_running_def o(2) s begin_op_metrics by simp
  moreover have "op_count op' ?w = op_count op' w + of_bool (op' = op)" for op'
    unfolding op_count_def o(3) s begin_op_metrics ..
  moreover have "w_log ?w = w_log w @ rqs" by (simp add: observed_frame log)
  ultimately show ?thesis
    unfolding metered_def using own other by (intro exI [of _ rqs]) auto
qed

lemma counted_requests [simp]:
  "counted op (registration_request c) \<longleftrightarrow> op = RegistrationOp"
  "counted op (hook_request c reg rid bdy) \<longleftrightarrow> op = HookOp"
  "counted op (deregistration_request c reg url) \<longleftrightarrow> op = DeregistrationOp"
  by (cases op; simp add: registration_request_def hook_request_def deregistration_request_def)+

lemma metered_lock: "metered d n k w (snd (registration_lock fl dl w))"
proof (cases "w_locks w")
  case Nil
  then show ?thesis by (auto simp: registration_lock_def intro: metered_frame)
next
  case (Cons l ls)
  show ?thesis
  proof (cases "lk_wait l")
    case None
    with Cons show ?thesis by (auto simp: registration_lock_def acquire_def Let_def intro: metered_frame)
  next
    case (Some t)
    have "metered d n k (w\<lparr>w_locks := ls\<rparr>)
        (snd (observe fl RegistrationWaitOp id id (wait_lock dl l t) (w\<lparr>w_locks := ls\<rparr>)))"
      by (rule metered_observe [where rqs = "[]"]) (simp_all add: wait_lock_calm wait_lock_frame)
    with Cons Some show ?thesis
      by (auto simp: registration_lock_def Let_def metered_def op_running_def op_count_def)
  qed
qed

interpretation metrics: client_effect c "metered" for c :: "('u, 'o, 'f) hooks_client"
proof unfold_locales
  fix d :: nat and w :: "('u, 'f) world" and reg :: "'u registration" and s rid bdy
  show "metered d 1 0 w (snd (observe (hc_floats c) RegistrationOp id id (register c d) w))"
    by (rule metered_observe [where rqs = "[registration_request c]"])
      (simp_all add: register_calm register_world exchange_log exchange_stats)
  show "metered d 1 0 w (snd (observed_hook c s rid d reg bdy w))"
    unfolding observed_hook_def
    by (rule metered_observe [where rqs = "[hook_request c reg rid bdy]"])
      (simp_all add: hook_calm hook_world exchange_log exchange_stats)
  show "metered d 0 0 w (snd (registration_lock (hc_floats c) (Some d) w))"
    by (rule metered_lock)
next
  fix w :: "('u, 'f) world" and t d :: nat
  show "metered d 0 1 w (pause t (w\<lparr>w_stats := count_retry (w_stats w)\<rparr>))"
  proof (rule metered_frame)
    show "op_of op (w_stats (pause t (w\<lparr>w_stats := count_retry (w_stats w)\<rparr>))) = op_of op (w_stats w)" for op
      by (cases op) (simp_all add: pause_def count_retry_def)
  qed (simp add: pause_def)
next
  fix w :: "('u, 'f) world" and d m k n l u v
  assume "metered d m k u v"
  then show "metered d n l u v" by (simp add: metered_def)
qed (auto simp: draw_uuid_frame intro: metered_frame metered_trans)

text \<open>Deregistration likewise.\<close>

lemma metered_deregister:
  assumes "deregister c w = (r, w')"
  shows "metered d n k w w'"
proof -
  obtain w1 where l: "registration_lock (hc_floats c) None w = (Inr (), w1)" using lock_forever_Inr by blast
  then have m: "metered d n k w w1" using metered_lock [of d n k w "hc_floats c" None] by simp
  have calm: "calm id (fst (send_deregistration c reg url v))" for reg url v
    using no_panic_await [OF exchange_calm [of "w_now v + hc_timeout c" "deregistration_request c reg url" v]]
    by (auto simp: send_deregistration_def intro!: no_panic_bind split: prod.splits)
  have sent: "metered d n k v (snd (observe fl DeregistrationOp id id (send_deregistration c reg url) v))"
    for fl v reg url
    by (rule metered_observe [where rqs = "[deregistration_request c reg url]"])
      (simp_all add: calm send_deregistration_frame)
  have "metered d n k w1 (w1\<lparr>w_cache := None\<rparr>)" by (rule metered_frame) simp_all
  with assms l have "metered d n k w1 w'"
    using metered_trans [OF _ sent]
    by (auto simp: deregister_def Let_def split: option.splits if_splits) (metis snd_conv)+
  with m show ?thesis by (rule metered_trans)
qed

end
