(* ===== verification/Command_Line.thy ===== *)
theory Command_Line
  imports Registration
begin

text \<open>
  \<open>src/src/main.rs\<close>, the command line: the arguments, the rules their attributes declare, the
  defaults, and the parsers of stage names and permission bits. A \<open>cli\<close> is what was given, one
  field per argument (for \<open>scanner_token\<close>, on the command line or in the environment); \<open>args\<close> is
  the parsed structure. Tokenising the command line, printing help and parsing of numbers, paths
  and URLs are clap's and are not modelled: a \<open>cli\<close> holds such values already parsed. An attribute
  \<open>requires\<close> or \<open>conflicts_with\<close> applies to an argument that was given, not to its default.
\<close>

section \<open>Values\<close>

definition parse_stage :: "bytes \<Rightarrow> string + stage" where
  "parse_stage name = ok_or ''expected connect, ehlo, mail, rcpt or data'' (from_hook_name (trim name))"

function trim_start_matches :: "bytes \<Rightarrow> bytes \<Rightarrow> bytes" where
  "trim_start_matches pre s =
     (if pre = [] then s
      else (case strip_prefix pre s of None \<Rightarrow> s | Some r \<Rightarrow> trim_start_matches pre r))"
  by auto

termination trim_start_matches
  by (relation "measure (\<lambda>(_, s). length s)") auto

declare trim_start_matches.simps [simp del]

definition is_octal_digit :: "byte \<Rightarrow> bool" where
  "is_octal_digit c \<longleftrightarrow> 48 \<le> ord c \<and> ord c \<le> 55"

definition octal_value :: "bytes \<Rightarrow> nat" where
  "octal_value ds = foldl (\<lambda>n c. n * 8 + (ord c - 48)) 0 ds"

text \<open>\<open>u32::from_str_radix(text, 8)\<close>.\<close>

definition from_octal :: "bytes \<Rightarrow> nat option" where
  "from_octal s =
     (let ds = (case s of c # cs \<Rightarrow> if c = CHR ''+'' then cs else s | [] \<Rightarrow> []) in
      if ds = [] \<or> \<not> list_all is_octal_digit ds \<or> 2 ^ 32 \<le> octal_value ds then None
      else Some (octal_value ds))"

definition parse_mode :: "bytes \<Rightarrow> string + nat" where
  "parse_mode text =
     ok_or ''expected octal permission bits such as 0660''
       (Option.bind (from_octal (trim_start_matches ''0o'' text)) (\<lambda>m. if m \<le> 511 then Some m else None))"

section \<open>Arguments\<close>

datatype log_format = LogText | LogJson

record 'u args =
  milter_listen :: bytes
  milter_unix :: "bytes option"
  milter_unix_mode :: "nat option"
  milter_unix_replace_stale :: bool
  http_listen :: bytes
  arg_scanner :: "'u option"
  scanner_token :: "bytes option"
  scanner_token_file :: "bytes option"
  scanner_basic_user :: "bytes option"
  scanner_basic_password_file :: "bytes option"
  scanner_ca :: "bytes list"
  scanner_custom_roots_only :: bool
  scanner_identity :: "bytes option"
  scanner_proxy :: "'u option"
  scanner_no_proxy :: bool
  scanner_connect_timeout_ms :: nat
  scanner_pool_idle_timeout_ms :: nat
  scanner_pool_max_idle :: nat
  scanner_gzip :: bool
  scanner_stages :: "stage list"
  scanner_retries :: nat
  scanner_startup_wait_ms :: nat
  scanner_no_deregister :: bool
  no_request_macros :: bool
  arg_log_format :: log_format
  arg_passthrough :: bool
  arg_insecure_loopback :: bool
  arg_name :: bytes
  arg_max_connections :: u32
  arg_max_message_bytes :: u32
  policy_timeout_ms :: nat
  milter_idle_timeout_ms :: nat
  milter_frame_timeout_ms :: nat
  milter_progress_interval_ms :: nat
  arg_fail_open :: bool

record 'u cli =
  cl_milter_listen :: "bytes option"
  cl_milter_unix :: "bytes option"
  cl_milter_unix_mode :: "bytes option"
  cl_milter_unix_replace_stale :: bool
  cl_http_listen :: "bytes option"
  cl_scanner :: "'u option"
  cl_scanner_token :: "bytes option"
  cl_scanner_token_file :: "bytes option"
  cl_scanner_basic_user :: "bytes option"
  cl_scanner_basic_password_file :: "bytes option"
  cl_scanner_ca :: "bytes list"
  cl_scanner_custom_roots_only :: bool
  cl_scanner_identity :: "bytes option"
  cl_scanner_proxy :: "'u option"
  cl_scanner_no_proxy :: bool
  cl_scanner_connect_timeout_ms :: "nat option"
  cl_scanner_pool_idle_timeout_ms :: "nat option"
  cl_scanner_pool_max_idle :: "nat option"
  cl_scanner_gzip :: bool
  cl_scanner_stages :: "bytes list"
  cl_scanner_retries :: "nat option"
  cl_scanner_startup_wait_ms :: "nat option"
  cl_scanner_no_deregister :: bool
  cl_no_request_macros :: bool
  cl_log_format :: "log_format option"
  cl_passthrough :: bool
  cl_insecure_loopback :: bool
  cl_name :: "bytes option"
  cl_max_connections :: "nat option"
  cl_max_message_bytes :: "nat option"
  cl_policy_timeout_ms :: "nat option"
  cl_milter_idle_timeout_ms :: "nat option"
  cl_milter_frame_timeout_ms :: "nat option"
  cl_milter_progress_interval_ms :: "nat option"
  cl_fail_open :: bool

definition or_default :: "'a option \<Rightarrow> 'a \<Rightarrow> 'a" where
  "or_default given d = (case given of None \<Rightarrow> d | Some x \<Rightarrow> x)"

text \<open>A number given within the range of its type, from the given lower end.\<close>

definition in_range :: "nat \<Rightarrow> nat \<Rightarrow> nat option \<Rightarrow> bool" where
  "in_range low bits given = (case given of None \<Rightarrow> True | Some n \<Rightarrow> low \<le> n \<and> n < 2 ^ bits)"

text \<open>The groups \<open>mode\<close> (one is required) and \<open>scanner_auth\<close> (at most one).\<close>

definition scanner_auth_given :: "'u cli \<Rightarrow> bool list" where
  "scanner_auth_given cl =
     [cl_scanner_token cl \<noteq> None, cl_scanner_token_file cl \<noteq> None, cl_scanner_basic_user cl \<noteq> None]"

definition groups_ok :: "'u cli \<Rightarrow> bool" where
  "groups_ok cl \<longleftrightarrow>
     (cl_scanner cl \<noteq> None) \<noteq> cl_passthrough cl \<and> length (filter id (scanner_auth_given cl)) \<le> 1"

text \<open>\<open>requires\<close> and \<open>conflicts_with\<close>: an argument that is given, and what must then be given too.\<close>

definition requirements :: "'u cli \<Rightarrow> (bool \<times> bool) list" where
  "requirements cl =
     (let scanner = cl_scanner cl \<noteq> None; unix = cl_milter_unix cl \<noteq> None in
      [(cl_milter_unix_mode cl \<noteq> None, unix), (cl_milter_unix_replace_stale cl, unix),
       (scanner, list_ex id (scanner_auth_given cl)),
       (cl_scanner_token_file cl \<noteq> None, scanner),
       (cl_scanner_basic_user cl \<noteq> None, scanner \<and> cl_scanner_basic_password_file cl \<noteq> None),
       (cl_scanner_basic_password_file cl \<noteq> None, cl_scanner_basic_user cl \<noteq> None),
       (cl_scanner_ca cl \<noteq> [], scanner),
       (cl_scanner_custom_roots_only cl, cl_scanner_ca cl \<noteq> []),
       (cl_scanner_identity cl \<noteq> None, scanner),
       (cl_scanner_proxy cl \<noteq> None, scanner \<and> \<not> cl_scanner_no_proxy cl),
       (cl_scanner_no_proxy cl, scanner), (cl_scanner_gzip cl, scanner),
       (cl_scanner_stages cl \<noteq> [], scanner), (cl_scanner_retries cl \<noteq> None, scanner),
       (cl_scanner_startup_wait_ms cl \<noteq> None, scanner), (cl_scanner_no_deregister cl, scanner),
       (cl_no_request_macros cl, scanner)])"

definition ranges_ok :: "'u cli \<Rightarrow> bool" where
  "ranges_ok cl \<longleftrightarrow>
     in_range 1 64 (cl_scanner_connect_timeout_ms cl) \<and> in_range 1 64 (cl_scanner_pool_idle_timeout_ms cl) \<and>
     in_range 0 64 (cl_scanner_pool_max_idle cl) \<and> in_range 0 32 (cl_scanner_retries cl) \<and>
     in_range 0 64 (cl_scanner_startup_wait_ms cl) \<and> in_range 1 32 (cl_max_connections cl) \<and>
     in_range 1 32 (cl_max_message_bytes cl) \<and> in_range 1 64 (cl_policy_timeout_ms cl) \<and>
     in_range 0 64 (cl_milter_idle_timeout_ms cl) \<and> in_range 1 64 (cl_milter_frame_timeout_ms cl) \<and>
     in_range 0 64 (cl_milter_progress_interval_ms cl)"

definition cli_ok :: "'u cli \<Rightarrow> bool" where
  "cli_ok cl \<longleftrightarrow> groups_ok cl \<and> list_all (\<lambda>(given, needed). given \<longrightarrow> needed) (requirements cl) \<and> ranges_ok cl"

definition parse_optional :: "(bytes \<Rightarrow> string + 'a) \<Rightarrow> bytes option \<Rightarrow> string + 'a option" where
  "parse_optional parse given = (case given of None \<Rightarrow> Inr None | Some t \<Rightarrow> map_r Some (parse t))"

text \<open>The values of \<open>--scanner-stages\<close>, each split at commas.\<close>

definition parse_stages :: "bytes list \<Rightarrow> string + stage list" where
  "parse_stages given =
     collect_r parse_stage (concat (map (split_on (CHR '','')) (if given = [] then [''data''] else given)))"

definition parse_args :: "'u cli \<Rightarrow> string + 'u args" where
  "parse_args cl =
     bind_r (parse_optional parse_mode (cl_milter_unix_mode cl)) (\<lambda>mode.
     bind_r (parse_stages (cl_scanner_stages cl)) (\<lambda>stages.
     bind_r (ensure (cli_ok cl) ''usage'') (\<lambda>_.
       Inr \<lparr>milter_listen = or_default (cl_milter_listen cl) ''127.0.0.1:11332'',
         milter_unix = cl_milter_unix cl, milter_unix_mode = mode,
         milter_unix_replace_stale = cl_milter_unix_replace_stale cl,
         http_listen = or_default (cl_http_listen cl) ''127.0.0.1:8080'',
         arg_scanner = cl_scanner cl, scanner_token = cl_scanner_token cl,
         scanner_token_file = cl_scanner_token_file cl, scanner_basic_user = cl_scanner_basic_user cl,
         scanner_basic_password_file = cl_scanner_basic_password_file cl, scanner_ca = cl_scanner_ca cl,
         scanner_custom_roots_only = cl_scanner_custom_roots_only cl,
         scanner_identity = cl_scanner_identity cl, scanner_proxy = cl_scanner_proxy cl,
         scanner_no_proxy = cl_scanner_no_proxy cl,
         scanner_connect_timeout_ms = or_default (cl_scanner_connect_timeout_ms cl) 5000,
         scanner_pool_idle_timeout_ms = or_default (cl_scanner_pool_idle_timeout_ms cl) 90000,
         scanner_pool_max_idle = or_default (cl_scanner_pool_max_idle cl) 16,
         scanner_gzip = cl_scanner_gzip cl, scanner_stages = stages,
         scanner_retries = or_default (cl_scanner_retries cl) 2,
         scanner_startup_wait_ms = or_default (cl_scanner_startup_wait_ms cl) 0,
         scanner_no_deregister = cl_scanner_no_deregister cl, no_request_macros = cl_no_request_macros cl,
         arg_log_format = or_default (cl_log_format cl) LogText, arg_passthrough = cl_passthrough cl,
         arg_insecure_loopback = cl_insecure_loopback cl,
         arg_name = or_default (cl_name cl) ''postfix-mta-hooks'',
         arg_max_connections = of_nat (or_default (cl_max_connections cl) 128),
         arg_max_message_bytes = of_nat (or_default (cl_max_message_bytes cl) 25000000),
         policy_timeout_ms = or_default (cl_policy_timeout_ms cl) 20000,
         milter_idle_timeout_ms = or_default (cl_milter_idle_timeout_ms cl) 0,
         milter_frame_timeout_ms = or_default (cl_milter_frame_timeout_ms cl) 60000,
         milter_progress_interval_ms = or_default (cl_milter_progress_interval_ms cl) 10000,
         arg_fail_open = cl_fail_open cl\<rparr>)))"

section \<open>What accepted arguments satisfy\<close>

definition args_ok :: "'u args \<Rightarrow> bool" where
  "args_ok a \<longleftrightarrow>
     (arg_scanner a \<noteq> None \<longleftrightarrow> \<not> arg_passthrough a) \<and>
     (arg_scanner a \<noteq> None \<longrightarrow>
        scanner_token a \<noteq> None \<or> scanner_token_file a \<noteq> None \<or> scanner_basic_user a \<noteq> None) \<and>
     (scanner_basic_user a \<noteq> None \<longrightarrow> scanner_basic_password_file a \<noteq> None) \<and>
     (scanner_custom_roots_only a \<longrightarrow> scanner_ca a \<noteq> []) \<and>
     scanner_stages a \<noteq> [] \<and> 0 < scanner_connect_timeout_ms a \<and> 0 < scanner_pool_idle_timeout_ms a \<and>
     0 < policy_timeout_ms a \<and> 0 < milter_frame_timeout_ms a \<and>
     0 < arg_max_connections a \<and> 0 < arg_max_message_bytes a \<and>
     (\<forall>m. milter_unix_mode a = Some m \<longrightarrow> m \<le> 511 \<and> milter_unix a \<noteq> None)"

lemma or_default_pos: "in_range 1 bits given \<Longrightarrow> 0 < d \<Longrightarrow> 0 < or_default given d"
  by (auto simp: in_range_def or_default_def split: option.splits)

lemma word_default_pos:
  assumes "in_range 1 32 given" and "0 < d" and "d < 2 ^ 32"
  shows "(0 :: u32) < of_nat (or_default given d)"
proof -
  have "0 < or_default given d" "or_default given d < 2 ^ 32"
    using assms by (auto simp: in_range_def or_default_def split: option.splits)
  then have "unat (of_nat (or_default given d) :: u32) \<noteq> 0"
    by (simp add: unat_of_nat take_bit_nat_eq_self)
  then show ?thesis by (simp add: word_gt_0 unat_eq_zero)
qed

lemma parse_stages_nonempty: "parse_stages given = Inr sts \<Longrightarrow> sts \<noteq> []"
proof -
  assume p: "parse_stages given = Inr sts"
  let ?names = "concat (map (split_on (CHR '','')) (if given = [] then [''data''] else given))"
  have "length sts = length ?names"
    using p unfolding parse_stages_def collect_r_Inr_iff by (simp add: list_all2_lengthD)
  moreover have "?names \<noteq> []" by (cases given) auto
  ultimately show ?thesis by auto
qed

lemma parse_args_Inr:
  assumes "parse_args cl = Inr a"
  shows "args_ok a"
proof -
  from assms obtain mode sts where mode: "parse_optional parse_mode (cl_milter_unix_mode cl) = Inr mode"
    and sts: "parse_stages (cl_scanner_stages cl) = Inr sts" and ok: "cli_ok cl"
    by (auto simp: parse_args_def result_simps)
  have m: "m \<le> 511 \<and> cl_milter_unix_mode cl \<noteq> None" if "mode = Some m" for m
    using mode that
    by (auto simp: parse_optional_def parse_mode_def result_simps bind_eq_Some_conv split: option.splits if_splits)
  from ok have "groups_ok cl" "list_all (\<lambda>(given, needed). given \<longrightarrow> needed) (requirements cl)" "ranges_ok cl"
    by (simp_all add: cli_ok_def)
  then have req: "cl_scanner cl \<noteq> None \<longleftrightarrow> \<not> cl_passthrough cl"
    "cl_scanner cl \<noteq> None \<Longrightarrow> list_ex id (scanner_auth_given cl)"
    "cl_scanner_basic_user cl \<noteq> None \<Longrightarrow> cl_scanner_basic_password_file cl \<noteq> None"
    "cl_scanner_custom_roots_only cl \<Longrightarrow> cl_scanner_ca cl \<noteq> []"
    "cl_milter_unix_mode cl \<noteq> None \<Longrightarrow> cl_milter_unix cl \<noteq> None"
    by (auto simp: groups_ok_def requirements_def Let_def)
  have "0 < or_default (cl_scanner_connect_timeout_ms cl) 5000"
    "0 < or_default (cl_scanner_pool_idle_timeout_ms cl) 90000"
    "0 < or_default (cl_policy_timeout_ms cl) 20000" "0 < or_default (cl_milter_frame_timeout_ms cl) 60000"
    using \<open>ranges_ok cl\<close> by (auto simp: ranges_ok_def intro: or_default_pos)
  moreover have "(0 :: u32) < of_nat (or_default (cl_max_connections cl) 128)"
    "(0 :: u32) < of_nat (or_default (cl_max_message_bytes cl) 25000000)"
    using \<open>ranges_ok cl\<close> by (auto simp: ranges_ok_def intro: word_default_pos)
  ultimately show ?thesis
    using assms mode sts ok m req parse_stages_nonempty [OF sts]
    by (auto simp: parse_args_def args_ok_def scanner_auth_given_def)
qed

end
