(* ===== verification/Main_Program.thy ===== *)
theory Main_Program
  imports Client_Metrics Command_Line Listener
begin

text \<open>
  \<open>src/src/main.rs\<close> and \<open>src/src/http.rs\<close>: the stale-socket check, credentials, transport and
  configuration from the arguments, the order of startup and shutdown, and the operational HTTP
  endpoints. What the operating system answers is the record \<open>outcomes\<close>, the libraries are the
  record \<open>host\<close>; the order of effects is the list of \<open>main_event\<close>s the program leaves behind, and
  the scanner client acts on the same \<open>world\<close> as in the other theories. What the two servers do
  to that world while they run is a function of the environment.
\<close>

section \<open>The stale socket\<close>

datatype path_state = PathError io_kind | PathOther | PathSocket

datatype probe = Connected | ConnectFailed io_kind | NoAnswer

text \<open>The result, and whether the path was removed.\<close>

definition replace_stale_socket ::
  "path_state \<Rightarrow> probe \<Rightarrow> io_kind option \<Rightarrow> (io_kind + unit) \<times> bool" where
  "replace_stale_socket path probe remove =
     (case path of
        PathError k \<Rightarrow> (if k = NotFound then Inr () else Inl k, False)
      | PathOther \<Rightarrow> (Inl OtherIo, False)
      | PathSocket \<Rightarrow>
          (case probe of
             Connected \<Rightarrow> (Inl AddrInUse, False)
           | ConnectFailed k \<Rightarrow>
               if k = ConnectionRefused
               then (case remove of None \<Rightarrow> (Inr (), True) | Some e \<Rightarrow> (Inl e, False))
               else (Inl k, False)
           | NoAnswer \<Rightarrow> (Inl TimedOut, False)))"

section \<open>Settings from the arguments\<close>

definition args_authentication ::
  "(bytes \<Rightarrow> bool) \<Rightarrow> (bytes \<Rightarrow> bytes) \<Rightarrow> file_system \<Rightarrow> 'u args \<Rightarrow> authentication result" where
  "args_authentication header_ok b64 fs a =
     (case scanner_token_file a of
        Some path \<Rightarrow> bind_r (read_secret_file fs path) (bearer header_ok)
      | None \<Rightarrow>
          (case scanner_basic_user a of
             Some user \<Rightarrow>
               bind_r (ok_or (Panic ''clap requires password file'') (scanner_basic_password_file a)) (\<lambda>path.
               bind_r (read_secret_file fs path) (basic header_ok b64 user))
           | None \<Rightarrow>
               bind_r (ok_or (Panic ''clap requires scanner authentication'') (scanner_token a))
                 (bearer header_ok)))"

definition load_ca ::
  "(bytes \<Rightarrow> 'c list option) \<Rightarrow> file_system \<Rightarrow> 'c list \<Rightarrow> bytes \<Rightarrow> 'c list result" where
  "load_ca pem_bundle fs certs path =
     bind_r (read_config_file fs path (1024 * 1024)) (\<lambda>bytes.
     bind_r (ok_or (Invalid ''invalid scanner CA bundle'') (pem_bundle bytes)) (\<lambda>cs.
     bind_r (ensure (cs \<noteq> []) (Invalid ''empty scanner CA bundle'')) (\<lambda>_. Inr (certs @ cs))))"

definition args_transport ::
  "(bytes \<Rightarrow> 'c list option) \<Rightarrow> (bytes \<Rightarrow> 'i option) \<Rightarrow> file_system \<Rightarrow> 'u args \<Rightarrow>
   ('c, 'i, 'u) transport_options result" where
  "args_transport pem_bundle pem_identity fs a =
     bind_r (fold_r (load_ca pem_bundle fs) [] (scanner_ca a)) (\<lambda>certs.
     bind_r (case scanner_identity a of
               None \<Rightarrow> Inr None
             | Some path \<Rightarrow>
                 bind_r (read_config_file fs path (1024 * 1024)) (\<lambda>bytes.
                   map_r Some (ok_or (Invalid ''invalid scanner client identity PEM'') (pem_identity bytes)))) (\<lambda>ident.
       Inr \<lparr>root_certificates = certs, built_in_roots = \<not> scanner_custom_roots_only a, identity = ident,
            proxy = (if scanner_no_proxy a then ProxyDisabled
                     else (case scanner_proxy a of Some u \<Rightarrow> ProxyExplicit u | None \<Rightarrow> ProxyEnvironment)),
            connect_timeout = scanner_connect_timeout_ms a,
            pool_idle_timeout = scanner_pool_idle_timeout_ms a,
            pool_max_idle_per_host = scanner_pool_max_idle a, gzip = scanner_gzip a\<rparr>))"

definition args_config :: "'u args \<Rightarrow> config" where
  "args_config a =
     default_config\<lparr>
       max_connections := unat (arg_max_connections a),
       policy_timeout := policy_timeout_ms a,
       progress_interval := (if milter_progress_interval_ms a \<noteq> 0 then Some (milter_progress_interval_ms a) else None),
       idle_timeout := (if milter_idle_timeout_ms a \<noteq> 0 then Some (milter_idle_timeout_ms a) else None),
       frame_timeout := milter_frame_timeout_ms a,
       fail_open := arg_fail_open a,
       cfg_limits := default_limits\<lparr>lim_message_bytes := unat (arg_max_message_bytes a)\<rparr>\<rparr>"

definition args_options :: "'u args \<Rightarrow> hooks_options" where
  "args_options a =
     \<lparr>opt_stages = remdups_adj (scanner_stages a), opt_retries = scanner_retries a,
      opt_startup_wait = scanner_startup_wait_ms a, opt_deregister = \<not> scanner_no_deregister a,
      opt_request_macros = \<not> no_request_macros a\<rparr>"

section \<open>Startup and shutdown\<close>

datatype main_event =
    RemovedStale | BoundMilter | ModeSet | BoundHttp | Registered | ReadyOn | Serving
  | ReadyOff | Stopping | MilterJoined | Deregistered | HttpAborted

datatype main_error = MainIo io_kind | MainError error | MainText string

text \<open>Which branch of the final \<open>select\<close> won. The signal branch carries the failure to install the
  SIGTERM handler and, when Ctrl-C came first, its result; the other two carry the text of their
  error, \<open>None\<close> for a server that returned without one.\<close>

datatype exit = SignalExit "string option" "string option option" | HttpExit "string option" | MilterExit "string option"

record ('u, 'o, 'f, 'c, 'i, 'k) host =
  h_lib :: "('u, 'o, 'f) hooks_lib"
  h_reqwest :: "('u, 'c, 'i, 'k) reqwest_lib"
  h_header_ok :: "bytes \<Rightarrow> bool"
  h_files :: file_system
  h_pem_bundle :: "bytes \<Rightarrow> 'c list option"
  h_pem_identity :: "bytes \<Rightarrow> 'i option"
  h_zero :: 'f

record ('u, 'f) outcomes =
  oc_path :: path_state
  oc_probe :: probe
  oc_remove :: "io_kind option"
  oc_bind_milter :: "io_kind option"
  oc_set_mode :: "io_kind option"
  oc_bind_http :: "io_kind option"
  oc_serving :: "('u, 'f) world \<Rightarrow> ('u, 'f) world"
  oc_exit :: exit
  oc_milter_finished :: bool
  oc_milter_join :: "error option"
  oc_http_finished :: bool
  oc_http_in_time :: bool

record ('u, 'f) main_state =
  ms_events :: "main_event list"
  ms_world :: "('u, 'f) world"

type_synonym ('u, 'f, 'a) main =
  "('u, 'f) main_state \<Rightarrow> (main_error + 'a) \<times> ('u, 'f) main_state"

definition emit :: "main_event \<Rightarrow> ('u, 'f, unit) main" where
  "emit ev = modify_s (\<lambda>st. st\<lparr>ms_events := ms_events st @ [ev]\<rparr>)"

definition attempt :: "io_kind option \<Rightarrow> main_event \<Rightarrow> ('u, 'f, unit) main" where
  "attempt failure ev =
     bind_s (check_s (\<lambda>_. case failure of Some k \<Rightarrow> Inl (MainIo k) | None \<Rightarrow> Inr ())) (\<lambda>_. emit ev)"

definition fallible :: "'a result \<Rightarrow> ('u, 'f, 'a) main" where
  "fallible r = check_s (\<lambda>_. case r of Inl e \<Rightarrow> Inl (MainError e) | Inr x \<Rightarrow> Inr x)"

definition in_world ::
  "(('u, 'f) world \<Rightarrow> 'a result \<times> ('u, 'f) world) \<Rightarrow> ('u, 'f, 'a) main" where
  "in_world f st =
     (case f (ms_world st) of
        (r, w) \<Rightarrow> (case r of Inl e \<Rightarrow> Inl (MainError e) | Inr x \<Rightarrow> Inr x, st\<lparr>ms_world := w\<rparr>))"

definition update_world :: "(('u, 'f) world \<Rightarrow> ('u, 'f) world) \<Rightarrow> ('u, 'f, unit) main" where
  "update_world g = modify_s (\<lambda>st. st\<lparr>ms_world := g (ms_world st)\<rparr>)"

definition set_ready :: "bool \<Rightarrow> ('u, 'f) world \<Rightarrow> ('u, 'f) world" where
  "set_ready b w = w\<lparr>w_stats := (w_stats w)\<lparr>ready := b\<rparr>\<rparr>"

definition stale_check :: "('u, 'f) outcomes \<Rightarrow> ('u, 'f, unit) main" where
  "stale_check oc st =
     (case replace_stale_socket (oc_path oc) (oc_probe oc) (oc_remove oc) of
        (r, removed) \<Rightarrow>
          ((case r of Inl k \<Rightarrow> Inl (MainIo k) | Inr u \<Rightarrow> Inr u),
           if removed then st\<lparr>ms_events := ms_events st @ [RemovedStale]\<rparr> else st))"

definition bind_milter :: "'u args \<Rightarrow> ('u, 'f) outcomes \<Rightarrow> ('u, 'f, unit) main" where
  "bind_milter a oc =
     (if milter_unix a \<noteq> None then
        bind_s (if milter_unix_replace_stale a then stale_check oc else return_s ()) (\<lambda>_.
        bind_s (attempt (oc_bind_milter oc) BoundMilter) (\<lambda>_.
          if milter_unix_mode a \<noteq> None then attempt (oc_set_mode oc) ModeSet else return_s ()))
      else attempt (oc_bind_milter oc) BoundMilter)"

definition start_policy ::
  "('u, 'o, 'f, 'c, 'i, 'k) host \<Rightarrow> 'u args \<Rightarrow> ('u, 'f, ('u, 'o, 'f) hooks_client option) main" where
  "start_policy h a =
     (case arg_scanner a of
        None \<Rightarrow> return_s None
      | Some url \<Rightarrow>
          bind_s (fallible (args_authentication (h_header_ok h) (lib_b64 (h_lib h)) (h_files h) a)) (\<lambda>auth.
          bind_s (fallible (args_transport (h_pem_bundle h) (h_pem_identity h) (h_files h) a)) (\<lambda>transport.
          bind_s (in_world (with_options (h_lib h) (h_reqwest h) url auth (arg_name a)
            (policy_timeout (args_config a)) (arg_insecure_loopback a) transport (args_options a))) (\<lambda>client.
          bind_s (emit Registered) (\<lambda>_. return_s (Some client))))))"

text \<open>The signal future: the handler of SIGTERM may fail to register; then Ctrl-C with its result or
  SIGTERM wins.\<close>

definition shutdown_signal :: "string option \<Rightarrow> string option option \<Rightarrow> string option" where
  "shutdown_signal register_failure ctrl_c =
     (case register_failure of
        Some e \<Rightarrow> Some e
      | None \<Rightarrow> (case ctrl_c of Some r \<Rightarrow> r | None \<Rightarrow> None))"

fun exit_result :: "exit \<Rightarrow> string + unit" where
  "exit_result (SignalExit register_failure ctrl_c) =
     (case shutdown_signal register_failure ctrl_c of None \<Rightarrow> Inr () | Some e \<Rightarrow> Inl e)"
| "exit_result (HttpExit None) = Inl ''HTTP server stopped''"
| "exit_result (HttpExit (Some e)) = Inl (''HTTP server: '' @ e)"
| "exit_result (MilterExit None) = Inl ''milter server stopped''"
| "exit_result (MilterExit (Some e)) = Inl (''milter server: '' @ e)"

text \<open>A task whose branch won has finished.\<close>

definition milter_finished :: "('u, 'f) outcomes \<Rightarrow> bool" where
  "milter_finished oc = (case oc_exit oc of MilterExit _ \<Rightarrow> True | _ \<Rightarrow> oc_milter_finished oc)"

definition http_finished :: "('u, 'f) outcomes \<Rightarrow> bool" where
  "http_finished oc = (case oc_exit oc of HttpExit _ \<Rightarrow> True | _ \<Rightarrow> oc_http_finished oc)"

definition release :: "('u, 'o, 'f) hooks_client option \<Rightarrow> ('u, 'f, unit) main" where
  "release hooks =
     (case hooks of
        None \<Rightarrow> return_s ()
      | Some c \<Rightarrow> bind_s (update_world (\<lambda>w. snd (deregister c w))) (\<lambda>_. emit Deregistered))"

definition shut_down ::
  "('u, 'o, 'f) hooks_client option \<Rightarrow> ('u, 'f) outcomes \<Rightarrow> ('u, 'f, unit) main" where
  "shut_down hooks oc =
     bind_s (update_world (set_ready False)) (\<lambda>_.
     bind_s (emit ReadyOff) (\<lambda>_.
     bind_s (emit Stopping) (\<lambda>_.
     bind_s (if \<not> milter_finished oc then
               bind_s (fallible (case oc_milter_join oc of Some e \<Rightarrow> Inl e | None \<Rightarrow> Inr ())) (\<lambda>_. emit MilterJoined)
             else return_s ()) (\<lambda>_.
     bind_s (release hooks) (\<lambda>_.
     bind_s (if \<not> http_finished oc \<and> \<not> oc_http_in_time oc then emit HttpAborted else return_s ()) (\<lambda>_.
       check_s (\<lambda>_. case exit_result (oc_exit oc) of Inl e \<Rightarrow> Inl (MainText e) | Inr u \<Rightarrow> Inr ())))))))"

definition run_main ::
  "('u, 'o, 'f, 'c, 'i, 'k) host \<Rightarrow> 'u args \<Rightarrow> ('u, 'f) outcomes \<Rightarrow> ('u, 'f, unit) main" where
  "run_main h a oc =
     bind_s (bind_milter a oc) (\<lambda>_.
     bind_s (attempt (oc_bind_http oc) BoundHttp) (\<lambda>_.
     bind_s (update_world (\<lambda>w. w\<lparr>w_stats := default_stats (h_zero h)\<rparr>)) (\<lambda>_.
     bind_s (start_policy h a) (\<lambda>hooks.
     bind_s (update_world (set_ready True)) (\<lambda>_.
     bind_s (emit ReadyOn) (\<lambda>_.
     bind_s (emit Serving) (\<lambda>_.
     bind_s (update_world (oc_serving oc)) (\<lambda>_.
       shut_down hooks oc))))))))"

section \<open>Operational endpoints\<close>

definition healthz :: "nat \<times> json" where
  "healthz = (200, jobj [(''status'', JStr ''ok'')])"

definition http_ready :: "'f stats \<Rightarrow> nat \<times> json" where
  "http_ready st = (if ready st then 200 else 503, jobj [(''ready'', JBool (ready st))])"

definition http_metrics :: "('f \<Rightarrow> string) \<Rightarrow> 'f stats \<Rightarrow> (bytes \<times> bytes) list \<times> string" where
  "http_metrics show_f64 st =
     ([(''content-type'', ''text/plain; version=0.0.4; charset=utf-8'')], render show_f64 st)"

definition router :: "('f \<Rightarrow> string) \<Rightarrow> 'f stats \<Rightarrow> bytes \<Rightarrow> ((nat \<times> json) + ((bytes \<times> bytes) list \<times> string)) option" where
  "router show_f64 st path =
     (if path = ''/healthz'' then Some (Inl healthz)
      else if path = ''/readyz'' then Some (Inl (http_ready st))
      else if path = ''/metrics'' then Some (Inr (http_metrics show_f64 st))
      else None)"

end
