(* ===== verification/Main_Correct.thy ===== *)
theory Main_Correct
  imports Main_Program "HOL-Library.Sublist"
begin

text \<open>
  Properties of the program's startup and shutdown, of its command-line values and of the
  stale-socket check.
\<close>

section \<open>The order of effects\<close>

definition main_order :: "main_event list" where
  "main_order = [RemovedStale, BoundMilter, ModeSet, BoundHttp, Registered, ReadyOn, Serving,
     ReadyOff, Stopping, MilterJoined, Deregistered, HttpAborted]"

definition emits :: "main_event list \<Rightarrow> ('u, 'f, 'a) main \<Rightarrow> bool" where
  "emits allowed m \<longleftrightarrow> (\<forall>st r st'. m st = (r, st') \<longrightarrow>
     (\<exists>es. ms_events st' = ms_events st @ es \<and> subseq es allowed))"

lemma emits_bind:
  assumes "emits A m" and "\<And>x. emits B (f x)"
  shows "emits (A @ B) (bind_s m f)"
  unfolding emits_def
proof (intro allI impI)
  fix st r st' assume b: "bind_s m f st = (r, st')"
  obtain x st1 where m: "m st = (x, st1)" by fastforce
  with assms(1) obtain es where es: "ms_events st1 = ms_events st @ es" "subseq es A" unfolding emits_def by blast
  show "\<exists>es. ms_events st' = ms_events st @ es \<and> subseq es (A @ B)"
  proof (cases x)
    case (Inl e)
    with b m have "st' = st1" by simp
    with es show ?thesis by (auto intro!: subseq_order.order_trans [OF es(2)])
  next
    case (Inr y)
    with b m have "f y st1 = (r, st')" by simp
    with assms(2) [of y] obtain es' where "ms_events st' = ms_events st1 @ es'" "subseq es' B"
      unfolding emits_def by blast
    with es show ?thesis by (intro exI [of _ "es @ es'"]) (auto intro: list_emb_append_mono)
  qed
qed

lemma emits_basic:
  "emits [ev] (emit ev)" "emits [] (return_s x)" "emits [] (check_s g)" "emits [] (fallible r)"
  "emits [] (update_world upd)" "emits [] (in_world q)"
  by (auto simp: emits_def emit_def fallible_def update_world_def in_world_def state_defs split: prod.splits)

lemma emits_mono: "emits A m \<Longrightarrow> subseq A B \<Longrightarrow> emits B m"
  unfolding emits_def by (meson subseq_order.order_trans)

lemma emits_attempt: "emits [ev] (attempt f ev)"
  using emits_bind [OF emits_basic(3) emits_basic(1)] by (simp add: attempt_def)

lemma emits_if: "(b \<Longrightarrow> emits A m) \<Longrightarrow> (\<not> b \<Longrightarrow> emits A n) \<Longrightarrow> emits A (if b then m else n)"
  by simp

lemma emits_skip: "emits A (return_s x)"
  using emits_basic(2) by (rule emits_mono) simp

lemma emits_stale: "emits [RemovedStale] (stale_check oc)"
  by (auto simp: emits_def stale_check_def split: prod.splits if_splits)

lemma emits_bind_milter: "emits [RemovedStale, BoundMilter, ModeSet] (bind_milter a oc)"
  unfolding bind_milter_def
proof (rule emits_if)
  have "emits ([RemovedStale] @ [BoundMilter] @ [ModeSet]) (bind_s
      (if milter_unix_replace_stale a then stale_check oc else return_s ()) (\<lambda>_.
      bind_s (attempt (oc_bind_milter oc) BoundMilter) (\<lambda>_.
        if milter_unix_mode a \<noteq> None then attempt (oc_set_mode oc) ModeSet else return_s ())))"
    by (intro emits_bind emits_if emits_stale emits_attempt emits_skip)
  then show "emits [RemovedStale, BoundMilter, ModeSet] (bind_s
      (if milter_unix_replace_stale a then stale_check oc else return_s ()) (\<lambda>_.
      bind_s (attempt (oc_bind_milter oc) BoundMilter) (\<lambda>_.
        if milter_unix_mode a \<noteq> None then attempt (oc_set_mode oc) ModeSet else return_s ())))" by simp
qed (rule emits_mono [OF emits_attempt], simp)

lemma emits_start_policy: "emits [Registered] (start_policy h a)"
proof (cases "arg_scanner a")
  case (Some url)
  have "emits ([] @ [] @ [] @ [Registered] @ []) (start_policy h a)"
    unfolding start_policy_def Some option.case by (intro emits_bind emits_basic)
  then show ?thesis by simp
qed (simp add: start_policy_def emits_skip)

lemma emits_release: "emits [Deregistered] (release hooks)"
proof (cases hooks)
  case (Some c)
  have "emits ([] @ [Deregistered]) (release hooks)"
    unfolding release_def Some option.case by (intro emits_bind emits_basic)
  then show ?thesis by simp
qed (simp add: release_def emits_skip)

lemma emits_shut_down: "emits [ReadyOff, Stopping, MilterJoined, Deregistered, HttpAborted] (shut_down hooks oc)"
proof -
  have "emits ([] @ [ReadyOff] @ [Stopping] @ ([] @ [MilterJoined]) @ [Deregistered] @ [HttpAborted] @ [])
      (shut_down hooks oc)"
    unfolding shut_down_def by (intro emits_bind emits_if emits_basic emits_release emits_skip)
  then show ?thesis by simp
qed

lemma emits_run_main: "emits main_order (run_main h a oc)"
proof -
  have "emits ([RemovedStale, BoundMilter, ModeSet] @ [BoundHttp] @ [] @ [Registered] @ [] @ [ReadyOn] @ [Serving] @
      [] @ [ReadyOff, Stopping, MilterJoined, Deregistered, HttpAborted]) (run_main h a oc)"
    unfolding run_main_def
    by (intro emits_bind emits_bind_milter emits_attempt emits_start_policy emits_shut_down emits_basic)
  then show ?thesis by (simp add: main_order_def)
qed

lemma emits_keep: "emits A m \<Longrightarrow> m st = (r, st') \<Longrightarrow> set (ms_events st) \<subseteq> set (ms_events st')"
  by (auto simp: emits_def) (metis UnCI set_append)

lemma emits_new: "emits A m \<Longrightarrow> m st = (r, st') \<Longrightarrow> set (ms_events st') \<subseteq> set (ms_events st) \<union> set A"
proof -
  assume "emits A m" "m st = (r, st')"
  then obtain es where "ms_events st' = ms_events st @ es" "subseq es A" unfolding emits_def by blast
  moreover from this(2) have "set es \<subseteq> set A" by (auto dest: list_emb_set)
  ultimately show ?thesis by auto
qed

section \<open>A registration is released\<close>

lemma attempt_Inr: "attempt f ev st = (Inr u, st') \<longleftrightarrow> f = None \<and> st' = st\<lparr>ms_events := ms_events st @ [ev]\<rparr>"
  by (auto simp: attempt_def emit_def result_simps split: option.splits)

lemma bind_milter_bound: "bind_milter a oc st = (Inr u, st') \<Longrightarrow> BoundMilter \<in> set (ms_events st')"
  by (auto simp: bind_milter_def result_simps attempt_Inr split: if_splits)

lemma in_world_Inr: "in_world f st = (Inr x, st') \<longleftrightarrow> (\<exists>w. f (ms_world st) = (Inr x, w) \<and> st' = st\<lparr>ms_world := w\<rparr>)"
  by (auto simp: in_world_def split: prod.splits sum.splits)

lemma start_policy_Inr:
  assumes "start_policy h a st = (Inr hooks, st')"
  shows "hooks = None \<longleftrightarrow> arg_scanner a = None" and "hooks = Some c \<Longrightarrow> hc_options c = args_options a"
  using assms
  by (auto simp: start_policy_def result_simps in_world_Inr new_client_def
      dest!: with_options_Inr(1) split: option.splits)

lemma release_world:
  assumes "release hooks st = (r, st')"
  shows "r = Inr ()" and "ready (w_stats (ms_world st')) = ready (w_stats (ms_world st))"
    and "hooks = Some c \<Longrightarrow> ms_world st' = snd (deregister c (ms_world st)) \<and> Deregistered \<in> set (ms_events st')"
proof -
  have lock: "ready (w_stats w1) = ready (w_stats w)" if "registration_lock fl None w = (x, w1)" for fl x and w w1 :: "('a, 'b) world"
    using that
    by (auto simp: registration_lock_def acquire_def Let_def wait_lock_frame dest!: arg_cong [of _ _ snd]
        simp: observed_frame split: list.splits option.splits)
  have "ready (w_stats (snd (deregister c w))) = ready (w_stats w)" for c :: "('a, 'c, 'b) hooks_client" and w
  proof -
    obtain w1 where l: "registration_lock (hc_floats c) None w = (Inr (), w1)" using lock_forever_Inr by blast
    with lock [OF l] show ?thesis
      by (auto simp: deregister_def Let_def observed_frame send_deregistration_frame split: option.splits)
  qed
  with assms show "r = Inr ()" and "ready (w_stats (ms_world st')) = ready (w_stats (ms_world st))"
    and "hooks = Some c \<Longrightarrow> ms_world st' = snd (deregister c (ms_world st)) \<and> Deregistered \<in> set (ms_events st')"
    by (auto simp: release_def update_world_def emit_def state_defs bind_s.simps split: option.splits)
qed

lemma shut_down_cases:
  assumes "shut_down hooks oc st = (r, st')"
  obtains
    (stuck) e where "oc_milter_join oc = Some e" "\<not> milter_finished oc" "r = Inl (MainError e)"
      "ms_world st' = set_ready False (ms_world st)" "ms_events st' = ms_events st @ [ReadyOff, Stopping]"
  | (through) evs st1 where "release hooks (st\<lparr>ms_world := set_ready False (ms_world st), ms_events := evs\<rparr>) = (Inr (), st1)"
      "ms_world st' = ms_world st1" "set (ms_events st1) \<subseteq> set (ms_events st')"
proof (cases "\<not> milter_finished oc \<and> oc_milter_join oc \<noteq> None")
  case True
  with assms show ?thesis
    by (intro stuck [of "the (oc_milter_join oc)"])
      (auto simp: shut_down_def update_world_def emit_def fallible_def state_defs bind_s.simps)
next
  case False
  let ?evs = "ms_events st @ [ReadyOff, Stopping] @ (if milter_finished oc then [] else [MilterJoined])"
  obtain st1 where rel: "release hooks (st\<lparr>ms_world := set_ready False (ms_world st), ms_events := ?evs\<rparr>) = (Inr (), st1)"
    using release_world(1) by (metis prod.collapse)
  with False assms show ?thesis
    by (intro through [of ?evs st1])
      (auto simp: shut_down_def update_world_def emit_def fallible_def state_defs bind_s.simps
        split: if_splits option.splits)
qed

lemma start_policy_Inl: "start_policy h a st = (Inl e, st') \<Longrightarrow> ms_events st' = ms_events st"
  by (auto simp: start_policy_def bind_s.simps fallible_def in_world_def emit_def state_defs
      split: option.splits sum.splits prod.splits)

lemma run_main_cases:
  fixes h :: "('u, 'o, 'f, 'c, 'i, 'k) host"
  assumes "run_main h a oc \<lparr>ms_events = [], ms_world = w\<rparr> = (r, st)"
  obtains
    (early) "set (ms_events st) \<subseteq> {RemovedStale, BoundMilter, ModeSet, BoundHttp}"
  | (served) hooks :: "('u, 'o, 'f) hooks_client option" and t v where "BoundMilter \<in> set (ms_events t)" "BoundHttp \<in> set (ms_events t)"
      "hooks = None \<longleftrightarrow> arg_scanner a = None" "\<And>c. hooks = Some c \<Longrightarrow> hc_options c = args_options a"
      "ms_world t = oc_serving oc v" "shut_down hooks oc t = (r, st)" "Registered \<in> set (ms_events t) \<Longrightarrow> hooks \<noteq> None"
proof -
  let ?st0 = "\<lparr>ms_events = [], ms_world = w\<rparr>"
  let ?new = "\<lambda>st. st\<lparr>ms_world := (ms_world st)\<lparr>w_stats := default_stats (h_zero h)\<rparr>\<rparr>"
  obtain r1 t1 where 1: "bind_milter a oc ?st0 = (r1, t1)" by fastforce
  have e1: "set (ms_events t1) \<subseteq> {RemovedStale, BoundMilter, ModeSet}"
    using emits_new [OF emits_bind_milter 1] by auto
  obtain r2 t2 where 2: "attempt (oc_bind_http oc) BoundHttp t1 = (r2, t2)" by fastforce
  have e2: "set (ms_events t2) \<subseteq> {RemovedStale, BoundMilter, ModeSet, BoundHttp}"
    using emits_new [OF emits_attempt 2] e1 by auto
  obtain r3 t3 where 3: "start_policy h a (?new t2) = (r3, t3)" by fastforce
  let ?t = "t3\<lparr>ms_events := ms_events t3 @ [ReadyOn, Serving], ms_world := oc_serving oc (set_ready True (ms_world t3))\<rparr>"
  show ?thesis
  proof (cases "(\<exists>e. r1 = Inl e) \<or> (\<exists>e. r2 = Inl e) \<or> (\<exists>e. r3 = Inl e)")
    case True
    with assms 1 2 3 e1 e2 start_policy_Inl [of h a "?new t2" _ t3] early show ?thesis
      by (cases r1; cases r2; cases r3)
        (auto simp: run_main_def update_world_def modify_s_def bind_s.simps)
  next
    case False
    then obtain hooks where inr: "r1 = Inr ()" "r2 = Inr ()" "r3 = Inr hooks" by (cases r1; cases r2; cases r3) auto
    have "BoundHttp \<in> set (ms_events t2)" "set (ms_events t1) \<subseteq> set (ms_events t2)"
      using 2 inr(2) by (auto simp: attempt_Inr)
    moreover have "set (ms_events t2) \<subseteq> set (ms_events t3)" using emits_keep [OF emits_start_policy 3] by simp
    moreover have "shut_down hooks oc ?t = (r, st)"
      using assms 1 2 3 inr by (simp add: run_main_def update_world_def emit_def modify_s_def bind_s.simps)
    moreover have "Registered \<in> set (ms_events t3) \<Longrightarrow> hooks \<noteq> None"
      using 3 inr(3) e2 by (auto simp: start_policy_def result_simps split: option.splits)
    ultimately show ?thesis
      using served [of ?t hooks "set_ready True (ms_world t3)"] bind_milter_bound [OF 1 [unfolded inr]] start_policy_Inr [OF 3 [unfolded inr]]
      by auto
  qed
qed

lemma run_main_registration:
  assumes "run_main h a oc \<lparr>ms_events = [], ms_world = w\<rparr> = (r, st)" and "Registered \<in> set (ms_events st)"
  shows "BoundMilter \<in> set (ms_events st)" and "BoundHttp \<in> set (ms_events st)"
    and "\<not> ready (w_stats (ms_world st))"
    and "Deregistered \<in> set (ms_events st) \<and> w_cache (ms_world st) = None \<or>
      (\<exists>e. r = Inl (MainError e) \<and> oc_milter_join oc = Some e \<and> \<not> milter_finished oc)"
proof -
  from assms(1) have "BoundMilter \<in> set (ms_events st) \<and> BoundHttp \<in> set (ms_events st) \<and>
      \<not> ready (w_stats (ms_world st)) \<and>
      (Deregistered \<in> set (ms_events st) \<and> w_cache (ms_world st) = None \<or>
      (\<exists>e. r = Inl (MainError e) \<and> oc_milter_join oc = Some e \<and> \<not> milter_finished oc))"
  proof (cases rule: run_main_cases)
    case early
    with assms(2) show ?thesis by auto
  next
    case (served hooks t v)
    have keep: "set (ms_events t) \<subseteq> set (ms_events st)" using emits_keep [OF emits_shut_down served(6)] .
    have "Registered \<in> set (ms_events t)" using emits_new [OF emits_shut_down served(6)] assms(2) by auto
    with served(7) obtain c where c: "hooks = Some c" by blast
    from served(6) show ?thesis
    proof (cases rule: shut_down_cases)
      case (stuck e)
      with keep served(1,2) show ?thesis by (auto simp: set_ready_def)
    next
      case (through evs st1)
      obtain r' w' where d: "deregister c (set_ready False (ms_world t)) = (r', w')" by fastforce
      have w: "ms_world st = w'" "Deregistered \<in> set (ms_events st)" "\<not> ready (w_stats (ms_world st))"
        using release_world(2) [OF through(1)] release_world(3) [OF through(1) c] through(2,3) d
        by (auto simp: set_ready_def)
      from d have "w_cache w' = None" by (rule deregister_cases)
      with w keep served(1,2) show ?thesis by auto
    qed
  qed
  then show "BoundMilter \<in> set (ms_events st)" and "BoundHttp \<in> set (ms_events st)"
    and "\<not> ready (w_stats (ms_world st))"
    and "Deregistered \<in> set (ms_events st) \<and> w_cache (ms_world st) = None \<or>
      (\<exists>e. r = Inl (MainError e) \<and> oc_milter_join oc = Some e \<and> \<not> milter_finished oc)" by blast+
qed

section \<open>Values\<close>

lemma stage_name_trim: "trim (hook_name st) = hook_name st"
  by (cases st) (simp_all add: trim_def trim_start.simps trim_end.simps white_space_def starts_with_def
      ends_with_def strip_suffix_def)

lemma parse_stage_name: "parse_stage (hook_name st) = Inr st"
  by (cases st) (simp_all add: parse_stage_def stage_name_trim del: hook_name.simps,
      simp_all add: from_hook_name_def stage_all_def)

definition octal_digits :: "nat \<Rightarrow> bytes" where
  "octal_digits m = [digit_char (m div 64), digit_char (m div 8 mod 8), digit_char (m mod 8)]"

lemma octal_digits_value:
  assumes "m < 512"
  shows "octal_value (octal_digits m) = m" and "list_all is_octal_digit (octal_digits m)"
proof -
  have d: "m div 64 < 8" "m div 8 mod 8 < 8" "m mod 8 < 8" using assms by auto
  have v: "ord (digit_char k) = 48 + k" if "k < 8" for k using that by (simp add: ord_digit_char)
  have "m div 8 = m div 64 * 8 + m div 8 mod 8"
    using div_mult_mod_eq [of "m div 8" 8] by (simp add: div_mult2_eq [symmetric])
  then have "m = (m div 64 * 8 + m div 8 mod 8) * 8 + m mod 8" by simp
  then show "octal_value (octal_digits m) = m"
    by (simp add: octal_value_def octal_digits_def v [OF d(1)] v [OF d(2)] v [OF d(3)])
  have "m div 64 \<le> 7" "m div 8 mod 8 \<le> 7" "m mod 8 \<le> 7" using d by linarith+
  then show "list_all is_octal_digit (octal_digits m)"
    by (simp add: octal_digits_def is_octal_digit_def v [OF d(1)] v [OF d(2)] v [OF d(3)])
qed

lemma digit_char_not_o: "k < 10 \<Longrightarrow> digit_char k \<noteq> CHR ''o''"
  using ord_digit_char [of k] by fastforce

lemma digit_char_not_plus: "k < 10 \<Longrightarrow> digit_char k \<noteq> CHR ''+''"
  using ord_digit_char [of k] by fastforce

lemma parse_mode_octal:
  assumes "m < 512" and "pre \<in> {[], ''0'', ''0o''}"
  shows "parse_mode (pre @ octal_digits m) = Inr m"
proof -
  have d: "m div 64 < 10" "m div 8 mod 8 < 10" "m mod 8 < 10"
    using assms(1) by (auto intro: less_trans [of _ 8])
  have ne: "octal_digits m \<noteq> []" and hd_plus: "hd (octal_digits m) \<noteq> CHR ''+''"
    using digit_char_not_plus [OF d(1)] by (simp_all add: octal_digits_def)
  have zero: "octal_value (CHR ''0'' # ds) = octal_value ds" for ds by (simp add: octal_value_def)
  have no: "strip_prefix ''0o'' (octal_digits m) = None" "strip_prefix ''0o'' (CHR ''0'' # octal_digits m) = None"
    using digit_char_not_o [OF d(1)] digit_char_not_o [OF d(2)] by (auto simp: octal_digits_def)
  then have t: "trim_start_matches ''0o'' (octal_digits m) = octal_digits m"
    "trim_start_matches ''0o'' (CHR ''0'' # octal_digits m) = CHR ''0'' # octal_digits m"
    by (simp_all add: trim_start_matches.simps)
  have "trim_start_matches ''0o'' (''0o'' @ octal_digits m) = octal_digits m"
    using t(1) by (subst trim_start_matches.simps) simp
  moreover have "from_octal (octal_digits m) = Some m"
    using octal_digits_value [OF assms(1)] assms(1) hd_plus ne
    by (cases "octal_digits m") (simp_all add: from_octal_def)
  moreover have "from_octal (CHR ''0'' # octal_digits m) = Some m"
    using octal_digits_value [OF assms(1)] assms(1) zero by (simp add: from_octal_def is_octal_digit_def)
  ultimately show ?thesis using assms t by (auto simp: parse_mode_def)
qed

lemma args_authentication_no_panic:
  assumes "args_ok a" and "arg_scanner a \<noteq> None"
  shows "no_panic (args_authentication header_ok b64 fs a)"
proof -
  have "no_panic (read_secret_file fs path)" for path
    unfolding read_secret_file_def read_config_file_def
    by (intro no_panic_bind no_panic_ok_or no_panic_ensure) (auto simp: Let_def intro!: no_panic_intros)
  moreover have "no_panic (bearer header_ok t)" "no_panic (basic header_ok b64 u t)" for t u
    by (simp_all add: bearer_def basic_def auth_header_def)
  ultimately show ?thesis
    using assms by (auto simp: args_authentication_def args_ok_def intro!: no_panic_bind split: option.splits)
qed

text \<open>What the rules of the command line buy: the panics and the configuration errors that the code
  guards against cannot occur with accepted arguments.\<close>

lemma load_ca_length: "load_ca pb fs certs path = Inr certs' \<Longrightarrow> length certs < length certs'"
  by (auto simp: load_ca_def result_simps)

lemma load_cas_nonempty:
  "fold_r (load_ca pb fs) certs paths = Inr certs' \<Longrightarrow> paths \<noteq> [] \<or> certs \<noteq> [] \<Longrightarrow> certs' \<noteq> []"
proof (induction paths arbitrary: certs)
  case (Cons p ps)
  from Cons.prems(1) obtain certs1 where "load_ca pb fs certs p = Inr certs1"
    "fold_r (load_ca pb fs) certs1 ps = Inr certs'" by (auto simp: result_simps)
  with Cons.IH load_ca_length [of pb fs certs p certs1] show ?case by fastforce
qed simp

lemma args_transport_Inr:
  assumes "args_ok a" and "args_transport pem_bundle pem_identity fs a = Inr t"
  shows "0 < connect_timeout t" and "0 < pool_idle_timeout t" and "built_in_roots t \<or> root_certificates t \<noteq> []"
  using assms load_cas_nonempty [of pem_bundle fs "[]" "scanner_ca a"]
  by (auto simp: args_transport_def result_simps args_ok_def)

lemma args_transport_builds:
  assumes "args_ok a" and "args_transport pem_bundle pem_identity fs a = Inr t"
    and "transport_build lib proxies build t (policy_timeout (args_config a)) = Inl e"
  shows "(\<exists>k. e = HttpTransport k) \<or>
    (\<exists>u. scanner_proxy a = Some u \<and> \<not> proxy_origin lib u \<and>
       e = Invalid ''proxy must be an HTTP(S) origin without credentials'')"
proof -
  have "proxy t = ProxyExplicit u \<Longrightarrow> scanner_proxy a = Some u" for u
    using assms(2) by (auto simp: args_transport_def result_simps split: if_splits option.splits)
  moreover have "policy_timeout (args_config a) \<noteq> 0" using assms(1) by (simp add: args_config_def args_ok_def)
  ultimately show ?thesis
    using args_transport_Inr [OF assms(1,2)] assms(3)
    by (auto simp: transport_build_def Let_def result_simps http_error_def
        split: if_splits proxy_mode.splits option.splits sum.splits)
qed

lemma args_config_limits:
  "lim_message_bytes (cfg_limits (args_config a)) < 2 ^ 32" "lim_headers (cfg_limits (args_config a)) < 2 ^ 32"
  using unsigned_less [of "arg_max_message_bytes a", where ?'a = nat]
  by (simp_all add: args_config_def default_config_def default_limits_def)

section \<open>A repeated stage\<close>

text \<open>\<open>dedup\<close> removes only neighbouring repetitions: a list with a repeated stage survives it, and
  the confirmation then also accepts a list with a stage that was not configured.\<close>

definition confirmation :: "bytes list \<Rightarrow> json" where
  "confirmation sts =
     jobj [(''negotiated'', jobj [(''inbound'', jobj [(''stages'', JArr (map JStr sts))])])]"

lemma confirm_stages_confirmation:
  "confirm_stages wanted (confirmation sts) =
     ensure (length sts = length wanted \<and> set wanted \<subseteq> set sts)
       (Invalid ''scanner did not confirm the configured stages'')"
  by (auto simp: confirm_stages_def confirmation_def jindex_def jget_jobj list_all_iff ensure_def)

lemma repeated_stage_accepted:
  assumes "scanner_stages a = [StConnect, StEndMessage, StConnect]"
    and "opt_stages (hc_options c) = opt_stages (args_options a)"
  shows "confirm_stages (stage_names c) (confirmation [''connect'', ''data'', ''mail'']) = Inr ()"
  using assms by (simp add: confirm_stages_confirmation stage_names_def args_options_def)

end
