(* ===== verification/Scanner_Fixture.thy ===== *)
theory Scanner_Fixture
  imports Main_Correct
begin

text \<open>
  \<open>src/examples/scanner.rs\<close>, the development scanner, and its interplay with the client: the
  registration it answers with is one the client accepts, and its hook response becomes the
  decision to add a header. The extracted request headers are text or absent.
\<close>

section \<open>Model\<close>

record scanner_headers =
  sh_authorization :: "bytes option"
  sh_registration :: "bytes option"
  sh_request_id :: "bytes option"

definition authorized :: "scanner_headers \<Rightarrow> bytes \<Rightarrow> bool" where
  "authorized hs token \<longleftrightarrow> sh_authorization hs = Some (''Bearer '' @ token)"

definition scanner_register :: "bytes \<Rightarrow> bytes \<Rightarrow> scanner_headers \<Rightarrow> json \<Rightarrow> u16 \<times> json" where
  "scanner_register token now hs req =
     (if \<not> authorized hs token then (401, jobj [])
      else (201, jobj [(''registrationId'', JStr ''development''), (''status'', JStr ''active''),
        (''createdAt'', JStr now), (''expiresAt'', JNull), (''hookEndpoint'', JStr ''/hook''),
        (''endpoints'', jobj [(''deregistration'', JStr ''/register/development'')]),
        (''negotiated'', jobj [(''serialization'', JStr ''json''), (''inbound'', jindex req ''inbound'')])]))"

definition scanner_deregister :: "bytes \<Rightarrow> bytes \<Rightarrow> scanner_headers \<Rightarrow> u16 \<times> json" where
  "scanner_deregister token now hs =
     (if \<not> authorized hs token then (401, jobj [])
      else (200, jobj [(''registrationId'', JStr ''development''), (''status'', JStr ''deregistered''),
        (''deregisteredAt'', JStr now)]))"

definition scanned_header :: json where
  "scanned_header = jobj [(''name'', JStr ''X-MTA-Hooks''), (''value'', JStr ''scanned'')]"

definition scanned_response :: json where
  "scanned_response =
     jobj [(''add'', JArr [jobj [(''path'', JStr ''/message/headers''), (''value'', scanned_header)]])]"

definition scanner_hook :: "bytes \<Rightarrow> scanner_headers \<Rightarrow> json \<Rightarrow> u16 \<times> json" where
  "scanner_hook token hs req =
     (if \<not> authorized hs token then (401, jobj [])
      else if jindex req ''stage'' \<noteq> JStr ''data'' then (204, JNull)
      else if sh_registration hs \<noteq> Some ''development'' \<or> sh_request_id hs = None then (400, jobj [])
      else (200, scanned_response))"

text \<open>The routes, with the size of the request body; \<open>None\<close> where axum itself answers: no such
  route, or a body over the limit where the handler extracts one.\<close>

definition body_limit :: nat where
  "body_limit = 40 * 1024 * 1024"

definition scanner_app ::
  "bytes \<Rightarrow> bytes \<Rightarrow> http_method \<Rightarrow> bytes \<Rightarrow> nat \<Rightarrow> scanner_headers \<Rightarrow> json \<Rightarrow> (u16 \<times> json) option" where
  "scanner_app token now meth path body_size hs req =
     (if path = ''/register'' \<and> meth = POST then
        (if body_size \<le> body_limit then Some (scanner_register token now hs req) else None)
      else if path = ''/register/development'' \<and> meth = DELETE then Some (scanner_deregister token now hs)
      else if path = ''/hook'' \<and> meth = POST then
        (if body_size \<le> body_limit then Some (scanner_hook token hs req) else None)
      else None)"

text \<open>The program: the token from the environment, the listener, and what is served until serving
  fails.\<close>

definition scanner_main ::
  "bytes option \<Rightarrow> io_kind option \<Rightarrow> io_kind option \<Rightarrow>
   unit result \<times> (bytes \<Rightarrow> http_method \<Rightarrow> bytes \<Rightarrow> nat \<Rightarrow> scanner_headers \<Rightarrow> json \<Rightarrow> (u16 \<times> json) option) option" where
  "scanner_main token_variable bind_failure serve_failure =
     (case token_variable of
        None \<Rightarrow> (Inl (Panic ''set MTA_HOOKS_TOKEN''), None)
      | Some token \<Rightarrow>
          if bind_failure \<noteq> None then (Inl (Panic ''bind''), None)
          else (if serve_failure \<noteq> None then Inl (Panic ''serve'') else Inr (), Some (scanner_app token)))"

text \<open>Nothing but a refusal is served to a request without the token.\<close>

lemma scanner_main_authorized:
  assumes "scanner_main token_variable bind_failure serve_failure = (r, Some app)"
    and "app now meth path body_size hs req = Some (status, v)" and "status \<noteq> 401"
  shows "\<exists>token. token_variable = Some token \<and> authorized hs token"
  using assms
  by (auto simp: scanner_main_def scanner_app_def scanner_register_def scanner_deregister_def scanner_hook_def
      split: option.splits if_splits)

definition request_headers :: "'u http_request \<Rightarrow> scanner_headers" where
  "request_headers rq = \<lparr>sh_authorization = Some (rq_authorization rq),
     sh_registration = rq_registration rq, sh_request_id = rq_request_id rq\<rparr>"

section \<open>The registration is accepted\<close>

lemma OFFERED_fold: "fold_r confirm_property [] (map JStr OFFERED_PROPERTIES) = Inr OFFERED_PROPERTIES"
  by (simp add: OFFERED_PROPERTIES_def confirm_property_def)

lemma registration_request_inbound:
  "jindex (the (rq_json (registration_request c))) ''inbound'' =
     jobj [(''stages'', JArr (map JStr (stage_names c))), (''properties'', JArr (map JStr OFFERED_PROPERTIES))]"
  by (simp add: registration_request_def jindex_def jget_jobj)

lemma fixture_registration:
  assumes "auth_value (hc_auth c) = ''Bearer '' @ token"
    and "same_origin c ''/hook'' = Inr endpoint" and "same_origin c ''/register/development'' = Inr dereg"
  shows "\<exists>v. scanner_register token now (request_headers (registration_request c))
      (the (rq_json (registration_request c))) = (201, v) \<and>
    accept_registration c utc v = Inr \<lparr>reg_id = ''development'', reg_endpoint = endpoint,
      reg_deregistration = Some dereg, reg_expires = None, reg_properties = OFFERED_PROPERTIES\<rparr>"
proof -
  let ?in = "jobj [(''stages'', JArr (map JStr (stage_names c))), (''properties'', JArr (map JStr OFFERED_PROPERTIES))]"
  let ?v = "jobj [(''registrationId'', JStr ''development''), (''status'', JStr ''active''),
        (''createdAt'', JStr now), (''expiresAt'', JNull), (''hookEndpoint'', JStr ''/hook''),
        (''endpoints'', jobj [(''deregistration'', JStr ''/register/development'')]),
        (''negotiated'', jobj [(''serialization'', JStr ''json''), (''inbound'', ?in)])]"
  have auth: "authorized (request_headers (registration_request c)) token"
    using assms(1) by (simp add: authorized_def request_headers_def registration_request_def)
  then have reply: "scanner_register token now (request_headers (registration_request c))
      (the (rq_json (registration_request c))) = (201, ?v)"
    by (simp add: scanner_register_def registration_request_inbound)
  have inb: "jindex (jindex ?v ''negotiated'') ''inbound'' = ?in" by (simp add: jindex_def jget_jobj)
  have "registration_id ?v = Inr ''development''"
    by (simp add: registration_id_def jindex_def jget_jobj id_byte_def is_ascii_alphanumeric_def)
  moreover have "confirm_stages (stage_names c) ?v = Inr ()"
    unfolding confirm_stages_def inb by (simp add: jindex_def jget_jobj list_all_iff)
  moreover have "confirm_properties ?v = Inr OFFERED_PROPERTIES"
    unfolding confirm_properties_def inb
    by (simp add: jindex_def jget_jobj OFFERED_fold) (simp add: REQUIRED_PROPERTIES_def OFFERED_PROPERTIES_def)
  moreover have "registration_expiry (lib_parse_time (hc_lib c)) utc ?v = Inr None"
    by (simp add: registration_expiry_def jget_jobj)
  ultimately have "accept_registration c utc ?v = Inr \<lparr>reg_id = ''development'', reg_endpoint = endpoint,
      reg_deregistration = Some dereg, reg_expires = None, reg_properties = OFFERED_PROPERTIES\<rparr>"
    using assms(2,3) by (simp add: accept_registration_def jindex_def jget_jobj)
  with reply show ?thesis by blast
qed

section \<open>The hook response\<close>

lemma edits_add_last:
  assumes "added_headers e = []" and "header_changes e = []" and "header_deletes e = []"
    and "header_slots e = map Original [0..<n]" and "new_from e = None"
    and "recipient_deletes e = []" and "added_recipients e = []"
  shows "edits_modifications (e\<lparr>added_headers := [Some h], header_slots := header_slots e @ [Added 0]\<rparr>) s =
    Inr [AddHeader (h_name h) (h_value h)]"
proof -
  have "fold_r (emit_insert (Suc n)) ([Some h], []) (List.enumerate 0 (map Original [0..<n] @ [Added 0])) =
      bind_r (fold_r (emit_insert (Suc n)) ([Some h], []) (List.enumerate 0 (map Original [0..<n])))
        (\<lambda>a. fold_r (emit_insert (Suc n)) a [(n, Added 0)])"
    by (simp add: enumerate_append_eq fold_r_append)
  also have "fold_r (emit_insert (Suc n)) ([Some h], []) (List.enumerate 0 (map Original [0..<n])) =
      Inr ([Some h], [])"
    by (rule no_inserts) auto
  also have "bind_r (Inr ([Some h], [])) (\<lambda>a. fold_r (emit_insert (Suc n)) a [(n, Added 0)]) =
      Inr ([None], [AddHeader (h_name h) (h_value h)])"
    by (simp add: emit_insert_def)
  finally show ?thesis
    using assms by (simp add: edits_modifications_def sorted_edits_def map_filter_simps)
qed

lemma fixture_translation:
  assumes "de_operations sd scanned_response = Some \<lparr>ops_set = None,
      ops_add = Some [\<lparr>add_path = ''/message/headers'', add_value = scanned_header, add_index = None\<rparr>],
      ops_delete = None\<rparr>"
    and "de_header sd scanned_header = Some \<lparr>h_name = ''X-MTA-Hooks'', h_value = ''scanned''\<rparr>"
    and "length (headers (message s)) < lim_headers (limits s)" and "0 < lim_modifications (limits s)"
  shows "translate sd b64d scanned_response s StEndMessage =
    Inr \<lparr>verdict = Continue, modifications = [AddHeader ''X-MTA-Hooks'' ''scanned'']\<rparr>"
proof -
  let ?h = "\<lparr>h_name = ''X-MTA-Hooks'', h_value = ''scanned''\<rparr>"
  let ?e = "(edits_new s)\<lparr>added_headers := [Some ?h], header_slots := header_slots (edits_new s) @ [Added 0]\<rparr>"
  have "translate_ops sd b64d s \<lparr>ops_set = None,
      ops_add = Some [\<lparr>add_path = ''/message/headers'', add_value = scanned_header, add_index = None\<rparr>],
      ops_delete = None\<rparr> = Inr ((new_translation s)\<lparr>tr_edits := ?e\<rparr>)"
    using assms(2,3)
    by (simp add: translate_ops_def list_or_empty_def has_raw_set_def new_translation_def translate_add_def
        edits_add_def insert_slot_def edits_new_def)
  moreover have "edits_modifications ?e s = Inr [AddHeader ''X-MTA-Hooks'' ''scanned'']"
    using edits_add_last [of "edits_new s" "length (headers (message s))" ?h s] by (simp add: edits_new_def)
  moreover have "is_ok (frames (AddHeader ''X-MTA-Hooks'' ''scanned'') ls)" for ls
    by (cases ls) (simp_all add: is_ok_def header_frames_def header_name_ok_def string_frame_def)
  then obtain fs where "frames (AddHeader ''X-MTA-Hooks'' ''scanned'') (leading_space s) = Inr fs"
    by (auto simp: is_ok_iff)
  ultimately show ?thesis
    using assms(1,4)
    by (simp add: translate_def list_or_empty_def new_translation_def select_verdict_def del: frames.simps)
qed

section \<open>A whole exchange\<close>

definition json_reply :: "(json \<Rightarrow> bytes) \<Rightarrow> u16 \<times> json \<Rightarrow> http_response" where
  "json_reply show_json r = \<lparr>rp_status = fst r, rp_content_type = Some ''application/json'',
     rp_content_length = None, rp_chunks = [Inr (show_json (snd r))], rp_retry_after = None\<rparr>"

lemma bounded_json_reply:
  assumes "parse_json (show_json v) = Some v" and "length (show_json v) \<le> limit"
  shows "bounded_json parse_json (json_reply show_json (st, v)) limit = Inr v"
proof -
  have "trim ''application/json'' = ''application/json''"
    by (simp add: trim_def trim_start.simps trim_end.simps white_space_def starts_with_def ends_with_def
        strip_suffix_def)
  with assms show ?thesis
    by (simp add: bounded_json_def json_reply_def saturating_sub_def)
qed

lemma request_stage:
  assumes "request b64 now s stage OFFERED_PROPERTIES = Inr bdy"
  shows "jindex bdy ''stage'' = JStr (hook_name stage)"
proof -
  from assms obtain cn m where b: "bdy = JObj m" and
    f: "fold_r (\<lambda>bdy p. map_r (\<lambda>v. obj_insert (tl p) v bdy) (project b64 now s cn stage p)) [] OFFERED_PROPERTIES
      = Inr m"
    by (auto simp: request_def result_simps)
  have "''/stage'' \<in> set OFFERED_PROPERTIES" by (simp add: OFFERED_PROPERTIES_def)
  from request_fold_value [OF f _ this OFFERED_inj] show ?thesis
    by (simp add: b project_def jindex_def)
qed

lemma exchange_reply:
  assumes "w_script w = (t, Inr rp) # rest" and "w_now w + t \<le> d"
  shows "exchange d rq w = (Inr rp, w\<lparr>w_log := w_log w @ [rq], w_script := rest, w_now := w_now w + t\<rparr>)"
  using assms by (simp add: exchange_def)

lemma observe_calm_frame:
  assumes "run (snd (begin_op op w)) = (r, w2)" and "calm err r"
  shows "\<exists>w'. observe fl op err raise run w = (r, w') \<and> w_now w' = w_now w2 \<and> w_script w' = w_script w2 \<and>
    w_locks w' = w_locks w2 \<and> w_cache w' = w_cache w2 \<and> w_log w' = w_log w2"
  using observed_calm(1) [where run = run and op = op and w = w and fl = fl and raise = raise, OF assms]
    observed_frame [of fl op err raise run w] assms(1)
  by (intro exI [of _ "snd (observe fl op err raise run w)"]) (auto simp: prod_eq_iff)

text \<open>The registration of the client with the development scanner.\<close>

lemma fixture_registered:
  assumes auth: "auth_value (hc_auth c) = ''Bearer '' @ token"
    and origin: "same_origin c ''/hook'' = Inr endpoint" "same_origin c ''/register/development'' = Inr dereg"
    and first: "scanner_register token now (request_headers (registration_request c))
      (the (rq_json (registration_request c))) = r"
    and json: "lib_json (hc_lib c) (show_json (snd r)) = Some (snd r)" "length (show_json (snd r)) \<le> hc_response_limit c"
    and world: "w_cache w = None" "w_locks w = []" "w_script w = (t, Inr (json_reply show_json r)) # rest"
      "w_now w + t \<le> d"
  shows "\<exists>w'. registered c d w = (Inr \<lparr>reg_id = ''development'', reg_endpoint = endpoint,
      reg_deregistration = Some dereg, reg_expires = None, reg_properties = OFFERED_PROPERTIES\<rparr>, w') \<and>
    w_now w' = w_now w + t \<and> w_script w' = rest \<and> w_log w' = w_log w @ [registration_request c]"
proof -
  let ?reg = "\<lparr>reg_id = ''development'', reg_endpoint = endpoint, reg_deregistration = Some dereg,
    reg_expires = None, reg_properties = OFFERED_PROPERTIES\<rparr>"
  obtain v where v: "r = (201, v)" "\<And>utc. accept_registration c utc v = Inr ?reg"
    using fixture_registration [OF auth origin] first by (metis Pair_inject)
  let ?b = "snd (begin_op RegistrationOp w)"
  let ?w1 = "?b\<lparr>w_log := w_log w @ [registration_request c], w_script := rest, w_now := w_now w + t\<rparr>"
  have "exchange d (registration_request c) ?b = (Inr (json_reply show_json r), ?w1)"
    using world by (subst exchange_reply) auto
  moreover have "bounded_json (lib_json (hc_lib c)) (json_reply show_json (201, v)) (hc_response_limit c) = Inr v"
    using json v(1) by (intro bounded_json_reply) auto
  ultimately have "register c d ?b = (Inr ?reg, ?w1)"
    using v by (simp add: register_def check_s_def json_reply_def)
  then have "\<exists>w'. observe (hc_floats c) RegistrationOp id id (register c d) w = (Inr ?reg, w') \<and>
      w_now w' = w_now w + t \<and> w_script w' = rest \<and> w_log w' = w_log w @ [registration_request c]"
    using observe_calm_frame [of "register c d" RegistrationOp w "Inr ?reg" ?w1 id "hc_floats c" id] by auto
  moreover have "registration_lock (hc_floats c) (Some d) w = (Inr (), w)"
    using world by (simp add: registration_lock_def)
  ultimately show ?thesis
    using world by (auto simp: registered_def cached_def modify_s_def return_s_def bind_s.simps)
qed

lemma fixture_hook:
  assumes json: "lib_json (hc_lib c) (show_json scanned_response) = Some scanned_response"
      "length (show_json scanned_response) \<le> hc_response_limit c"
    and world: "w_script w = (t, Inr (json_reply show_json (200, scanned_response))) # rest" "w_now w + t \<le> d"
  shows "\<exists>w'. observed_hook c s rid d reg bdy w = (Inr (Some scanned_response), w') \<and>
    w_log w' = w_log w @ [hook_request c reg rid bdy]"
proof -
  let ?b = "snd (begin_op HookOp w)"
  let ?w1 = "?b\<lparr>w_log := w_log w @ [hook_request c reg rid bdy], w_script := rest, w_now := w_now w + t\<rparr>"
  have "exchange d (hook_request c reg rid bdy) ?b = (Inr (json_reply show_json (200, scanned_response)), ?w1)"
    using world by (subst exchange_reply) auto
  moreover have "bounded_json (lib_json (hc_lib c)) (json_reply show_json (200, scanned_response))
      (hook_response_limit c s) = Inr scanned_response"
    using json by (intro bounded_json_reply) (auto simp: hook_response_limit_def)
  ultimately have "hook c d reg rid bdy (hook_response_limit c s) ?b = (Inr (Some scanned_response), ?w1)"
    by (simp add: hook_def json_reply_def)
  from observe_calm_frame [of "hook c d reg rid bdy (hook_response_limit c s)" HookOp w, OF this,
      of hf_error "hc_floats c" failure_from]
  show ?thesis by (auto simp: observed_hook_def)
qed

lemma fixture_invocation:
  assumes auth: "auth_value (hc_auth c) = ''Bearer '' @ token"
    and origin: "same_origin c ''/hook'' = Inr endpoint" "same_origin c ''/register/development'' = Inr dereg"
    and first: "scanner_register token now (request_headers (registration_request c))
      (the (rq_json (registration_request c))) = r"
    and json: "\<forall>v \<in> {snd r, scanned_response}. lib_json (hc_lib c) (show_json v) = Some v \<and>
      length (show_json v) \<le> hc_response_limit c"
    and world: "w_cache w = None" "w_locks w = []"
      "w_script w = [(t1, Inr (json_reply show_json r)), (t2, Inr (json_reply show_json (200, scanned_response)))]"
      "t1 + t2 \<le> hc_timeout c"
    and req: "request (lib_b64 (hc_lib c)) (lib_show_time (hc_lib c) (lib_utc (hc_lib c) (w_now w + t1))) s
      StEndMessage OFFERED_PROPERTIES = Inr bdy"
    and tr: "translate (lib_serde (hc_lib c)) (lib_b64_decode (hc_lib c)) scanned_response s StEndMessage = Inr decis"
  shows "\<exists>w' rq. evaluate c rid w StEndMessage s = (Inr decis, w') \<and>
    w_log w' = w_log w @ [registration_request c, rq] \<and> rq_json rq = Some bdy \<and>
    scanner_hook token (request_headers rq) bdy = (200, scanned_response)"
proof -
  let ?reg = "\<lparr>reg_id = ''development'', reg_endpoint = endpoint, reg_deregistration = Some dereg,
    reg_expires = None, reg_properties = OFFERED_PROPERTIES\<rparr>"
  let ?d = "w_now w + hc_timeout c" and ?rq = "hook_request c ?reg rid bdy"
  have "w_now w + t1 \<le> ?d" using world(4) by simp
  from fixture_registered [OF auth origin first _ _ world(1-3) this] json
  obtain w1 where reg: "registered c ?d w = (Inr ?reg, w1)" and w1: "w_now w1 = w_now w + t1"
    "w_script w1 = [(t2, Inr (json_reply show_json (200, scanned_response)))]"
    "w_log w1 = w_log w @ [registration_request c]" by auto
  have "w_now w1 + t2 \<le> ?d" using world(4) w1(1) by simp
  from fixture_hook [OF _ _ w1(2) this, of c s rid ?reg bdy] json
  obtain w2 where hk: "observed_hook c s rid ?d ?reg bdy w1 = (Inr (Some scanned_response), w2)"
    and w2: "w_log w2 = w_log w1 @ [?rq]" by auto
  have "session_request c s StEndMessage ?reg w1 = Inr bdy"
    using req w1(1) by (simp add: session_request_def)
  with reg hk tr have "evaluate c rid w StEndMessage s = (Inr decis, w2)"
    by (simp add: evaluate_def invoke_def check_s_def bind_s.simps invoke_loop.simps)
  moreover have "scanner_hook token (request_headers ?rq) bdy = (200, scanned_response)"
    using auth request_stage [OF req]
    by (simp add: scanner_hook_def authorized_def request_headers_def hook_request_def)
  ultimately show ?thesis using w1 w2 by (intro exI [of _ w2] exI [of _ ?rq]) (auto simp: hook_request_def)
qed

end
