(* ===== verification/Hook_Samples.thy ===== *)
theory Hook_Samples
  imports Samples Scanner_Fixture
begin

text \<open>
  Concrete libraries, clients and responses at which the properties of the scanner client are
  instantiated: URLs of one origin, a decoder for the two documents of the development scanner,
  and an encoding with base64's lengths.
\<close>

definition sample_urls :: "(bytes, bytes) url_lib" where
  "sample_urls = \<lparr>url_scheme = (\<lambda>_. ''https''), url_host = (\<lambda>_. Some ''scanner''),
     url_username = (\<lambda>_. []), url_password = (\<lambda>_. None), url_query = (\<lambda>_. None),
     url_fragment = (\<lambda>_. None), url_path = id, url_origin = (\<lambda>_. ''scanner''),
     url_join = (\<lambda>_ p. Some p)\<rparr>"

definition sample_b64 :: "bytes \<Rightarrow> bytes" where
  "sample_b64 bs = bs @ replicate ((length bs + 2) div 3 * 4 - length bs) (CHR ''='')"

definition sample_b64_decode :: "bytes \<Rightarrow> bytes option" where
  "sample_b64_decode bs = Some (raw_message sample_eom)"

definition echo_response :: json where
  "echo_response = JStr ''echo''"

definition scanned_ops :: op_lists where
  "scanned_ops = \<lparr>ops_set = None,
     ops_add = Some [\<lparr>add_path = ''/message/headers'', add_value = scanned_header, add_index = None\<rparr>],
     ops_delete = None\<rparr>"

definition echo_ops :: op_lists where
  "echo_ops = \<lparr>ops_set =
     Some [\<lparr>set_path = ''/rawMessage'', set_value = JStr (sample_b64 (raw_message sample_eom))\<rparr>],
     ops_add = None, ops_delete = None\<rparr>"

definition sample_serde :: serde where
  "sample_serde = \<lparr>de_operations = (\<lambda>v. if v = scanned_response then Some scanned_ops
       else if v = echo_response then Some echo_ops else None),
     de_header = (\<lambda>v. if v = scanned_header
       then Some \<lparr>h_name = ''X-MTA-Hooks'', h_value = ''scanned''\<rparr> else None),
     de_address = (\<lambda>_. None)\<rparr>"

definition sample_registration_value :: json where
  "sample_registration_value = jobj [(''registrationId'', JStr ''development''), (''status'', JStr ''active''),
     (''createdAt'', JStr ''now''), (''expiresAt'', JNull), (''hookEndpoint'', JStr ''/hook''),
     (''endpoints'', jobj [(''deregistration'', JStr ''/register/development'')]),
     (''negotiated'', jobj [(''serialization'', JStr ''json''),
       (''inbound'', jobj [(''stages'', JArr [JStr ''data'']),
         (''properties'', JArr (map JStr OFFERED_PROPERTIES))])])]"

definition sample_show :: "json \<Rightarrow> bytes" where
  "sample_show v = (if v = scanned_response then ''S'' else ''R'')"

definition sample_lib :: "(bytes, bytes, nat) hooks_lib" where
  "sample_lib = \<lparr>lib_url = sample_urls,
     lib_json = (\<lambda>bs. if bs = ''S'' then Some scanned_response
       else if bs = ''R'' then Some sample_registration_value else None),
     lib_serde = sample_serde, lib_b64 = sample_b64, lib_b64_decode = sample_b64_decode,
     lib_parse_time = (\<lambda>_. None), lib_show_time = (\<lambda>_. ''now''), lib_utc = int, lib_version = ''0'',
     lib_floats = sample_floats\<rparr>"

definition sample_client :: "(bytes, bytes, nat) hooks_client" where
  "sample_client = \<lparr>hc_lib = sample_lib, hc_url = ''/register'',
     hc_auth = \<lparr>auth_value = ''Bearer token'', auth_sensitive = True\<rparr>, hc_name = ''mx'',
     hc_timeout = 1000, hc_response_limit = 1024 * 1024, hc_insecure_loopback = False,
     hc_options = default_hooks_options\<rparr>"

definition sample_registration :: "bytes registration" where
  "sample_registration = \<lparr>reg_id = ''development'', reg_endpoint = ''/hook'',
     reg_deregistration = Some ''/register/development'', reg_expires = None,
     reg_properties = OFFERED_PROPERTIES\<rparr>"

definition sample_world :: "(bytes, nat) world" where
  "sample_world = \<lparr>w_now = 0,
     w_script = [(10, Inr (json_reply sample_show (201, sample_registration_value))),
       (20, Inr (json_reply sample_show (200, scanned_response)))],
     w_locks = [], w_cache = None, w_log = [], w_uuids = [], w_stats = default_stats 0\<rparr>"

lemma scanned_not_registration [simp]: "sample_registration_value \<noteq> scanned_response"
  by (simp add: sample_registration_value_def scanned_response_def jobj_def)

lemma echo_not_scanned [simp]: "echo_response \<noteq> scanned_response"
  by (simp add: echo_response_def scanned_response_def jobj_def)

lemma sample_stage_names: "stage_names sample_client = [''data'']"
  by (simp add: stage_names_def sample_client_def default_hooks_options_def)

lemma sample_same_origin: "same_origin sample_client p = Inr p"
  by (simp add: same_origin_def sample_client_def sample_lib_def sample_urls_def validate_url_def)

lemma sample_client_ok: "client_ok sample_client"
  by (simp add: client_ok_def sample_client_def sample_lib_def sample_urls_def validate_url_def)

lemma sample_world_ok: "world_ok sample_client sample_world"
  by (simp add: world_ok_def cache_ok_def sample_world_def)

lemma sample_register_reply:
  "scanner_register ''token'' ''now'' (request_headers (registration_request sample_client))
     (the (rq_json (registration_request sample_client))) = (201, sample_registration_value)"
proof -
  have "authorized (request_headers (registration_request sample_client)) ''token''"
    by (simp add: authorized_def request_headers_def registration_request_def sample_client_def)
  then show ?thesis
    by (simp add: scanner_register_def registration_request_inbound sample_stage_names
        sample_registration_value_def)
qed

lemma sample_serde_scanned:
  "de_operations sample_serde scanned_response = Some scanned_ops"
  "de_operations sample_serde echo_response = Some echo_ops"
  "de_header sample_serde scanned_header = Some \<lparr>h_name = ''X-MTA-Hooks'', h_value = ''scanned''\<rparr>"
  by (simp_all add: sample_serde_def)

lemma sample_eom_message:
  "headers (message sample_eom) = [(''Subject'', '' hi'')]" "body (message sample_eom) = ''x''"
  "state sample_eom = InBody" "limits sample_eom = default_limits"
  by (simp_all add: sample_eom_eq sample_body_eq sample_defs)

lemma sample_eom_inv: "session_inv sample_eom"
  using sample_eom_reach by (rule reachable_inv)

lemma sample_scanned_translation:
  "translate sample_serde sample_b64_decode scanned_response sample_eom StEndMessage =
     Inr \<lparr>verdict = Continue, modifications = [AddHeader ''X-MTA-Hooks'' ''scanned'']\<rparr>"
  by (rule fixture_translation)
    (simp_all add: sample_serde_scanned scanned_ops_def sample_eom_message default_limits_def)

lemma sample_b64_length: "length (sample_b64 bs) = (length bs + 2) div 3 * 4"
proof -
  have "length bs \<le> (length bs + 2) div 3 * 4" by linarith
  then show ?thesis by (simp add: sample_b64_def)
qed

lemma sample_echo_headers:
  "\<forall>(n, v) \<in> set (headers (message sample_eom)). header_name_ok n \<and> folds v"
  by (simp add: sample_eom_message header_name_ok_def)

lemma sample_echo_translation:
  "translate sample_serde sample_b64_decode echo_response sample_eom StEndMessage =
     Inr \<lparr>verdict = Continue, modifications = []\<rparr>"
  by (rule translate_echo [where ?b64.0 = sample_b64, OF sample_eom_inv _ _ _ sample_echo_headers])
    (simp_all add: sample_serde_scanned echo_ops_def sample_eom_message default_limits_def
      sample_b64_decode_def sample_b64_length)

lemma sample_request:
  "\<exists>bdy. request sample_b64 now sample_eom StEndMessage OFFERED_PROPERTIES = Inr bdy"
proof -
  have "macros sample_eom = []" "conn sample_eom = Some sample_peer" "helo sample_eom = None"
    "sender (message sample_eom) = Some \<lparr>address = ''<a@b>'', parameters = []\<rparr>"
    "recipients (message sample_eom) = [\<lparr>address = ''<c@d>'', parameters = []\<rparr>]"
    by (simp_all add: sample_eom_eq sample_body_eq sample_defs)
  then show ?thesis
    by (simp add: request_def OFFERED_PROPERTIES_def project_def project_envelope_def project_client_def
        project_tls_def project_auth_def project_server_def macro_text_def macro_number_def macro_value_def
        opt_text_def address_json_def as_text_def sample_peer_def Let_def)
qed

section \<open>A run of the program\<close>

definition sample_cli :: "bytes cli" where
  "sample_cli = \<lparr>cl_milter_listen = None, cl_milter_unix = None, cl_milter_unix_mode = None,
     cl_milter_unix_replace_stale = False, cl_http_listen = None, cl_scanner = Some ''/register'',
     cl_scanner_token = Some ''token'', cl_scanner_token_file = None, cl_scanner_basic_user = None,
     cl_scanner_basic_password_file = None, cl_scanner_ca = [], cl_scanner_custom_roots_only = False,
     cl_scanner_identity = None, cl_scanner_proxy = None, cl_scanner_no_proxy = False,
     cl_scanner_connect_timeout_ms = None, cl_scanner_pool_idle_timeout_ms = None,
     cl_scanner_pool_max_idle = None, cl_scanner_gzip = False, cl_scanner_stages = [],
     cl_scanner_retries = None, cl_scanner_startup_wait_ms = None, cl_scanner_no_deregister = False,
     cl_no_request_macros = False, cl_log_format = None, cl_passthrough = False,
     cl_insecure_loopback = False, cl_name = Some ''mx'', cl_max_connections = None,
     cl_max_message_bytes = None, cl_policy_timeout_ms = Some 1000, cl_milter_idle_timeout_ms = None,
     cl_milter_frame_timeout_ms = None, cl_milter_progress_interval_ms = None, cl_fail_open = False\<rparr>"

definition sample_args :: "bytes args" where
  "sample_args = \<lparr>milter_listen = ''127.0.0.1:11332'', milter_unix = None, milter_unix_mode = None,
     milter_unix_replace_stale = False, http_listen = ''127.0.0.1:8080'',
     arg_scanner = Some ''/register'', scanner_token = Some ''token'', scanner_token_file = None,
     scanner_basic_user = None, scanner_basic_password_file = None, scanner_ca = [],
     scanner_custom_roots_only = False, scanner_identity = None, scanner_proxy = None,
     scanner_no_proxy = False, scanner_connect_timeout_ms = 5000, scanner_pool_idle_timeout_ms = 90000,
     scanner_pool_max_idle = 16, scanner_gzip = False, scanner_stages = [StEndMessage],
     scanner_retries = 2, scanner_startup_wait_ms = 0, scanner_no_deregister = False,
     no_request_macros = False, arg_log_format = LogText, arg_passthrough = False,
     arg_insecure_loopback = False, arg_name = ''mx'', arg_max_connections = 128,
     arg_max_message_bytes = 25000000, policy_timeout_ms = 1000, milter_idle_timeout_ms = 0,
     milter_frame_timeout_ms = 60000, milter_progress_interval_ms = 10000, arg_fail_open = False\<rparr>"

lemma sample_parse_args: "parse_args sample_cli = Inr sample_args"
proof -
  have "parse_stages [] = Inr [StEndMessage]"
    using parse_stage_name [of StEndMessage] by (simp add: parse_stages_def)
  moreover have "cli_ok sample_cli"
    by (simp add: cli_ok_def groups_ok_def requirements_def ranges_ok_def scanner_auth_given_def sample_cli_def
        in_range_def)
  ultimately show ?thesis
    by (simp add: parse_args_def parse_optional_def sample_args_def sample_cli_def or_default_def)
qed

definition sample_host :: "(bytes, bytes, nat, unit, unit, unit) host" where
  "sample_host = \<lparr>h_lib = sample_lib,
     h_reqwest = \<lparr>proxy_all = (\<lambda>_. None), build_client = (\<lambda>_. Inr ())\<rparr>, h_header_ok = (\<lambda>_. True),
     h_files = (\<lambda>_. None), h_pem_bundle = (\<lambda>_. None), h_pem_identity = (\<lambda>_. None), h_zero = 0\<rparr>"

definition sample_outcomes :: "(bytes, nat) outcomes" where
  "sample_outcomes = \<lparr>oc_path = PathError NotFound, oc_probe = NoAnswer, oc_remove = None,
     oc_bind_milter = None, oc_set_mode = None, oc_bind_http = None, oc_serving = id,
     oc_exit = SignalExit None None, oc_milter_finished = False,
     oc_milter_join = None, oc_http_finished = False, oc_http_in_time = True\<rparr>"

definition sample_start :: "(bytes, nat) main_state" where
  "sample_start = \<lparr>ms_events = [], ms_world = sample_world\<rparr>"

lemma sample_registered:
  "\<exists>w'. registered sample_client 1000 (sample_world\<lparr>w_stats := st\<rparr>) = (Inr sample_registration, w') \<and>
     w_log w' = [registration_request sample_client]"
proof -
  have "\<exists>w'. registered sample_client 1000 (sample_world\<lparr>w_stats := st\<rparr>) = (Inr \<lparr>reg_id = ''development'',
      reg_endpoint = ''/hook'', reg_deregistration = Some ''/register/development'', reg_expires = None,
      reg_properties = OFFERED_PROPERTIES\<rparr>, w') \<and>
    w_now w' = 10 \<and> w_script w' = tl (w_script sample_world) \<and> w_log w' = [registration_request sample_client]"
    using fixture_registered [OF _ sample_same_origin sample_same_origin sample_register_reply,
        of sample_show "sample_world\<lparr>w_stats := st\<rparr>" 10 "tl (w_script sample_world)" 1000]
    by (simp add: sample_world_def sample_show_def sample_client_def sample_lib_def)
  then show ?thesis by (auto simp: sample_registration_def)
qed

lemma sample_with_options:
  "\<exists>w'. with_options sample_lib (h_reqwest sample_host) ''/register''
     \<lparr>auth_value = ''Bearer token'', auth_sensitive = True\<rparr> ''mx'' 1000 False t default_hooks_options
     (sample_world\<lparr>w_stats := st\<rparr>) = (Inr sample_client, w')"
  if "0 < connect_timeout t" "0 < pool_idle_timeout t" "built_in_roots t" "proxy t = ProxyEnvironment"
proof -
  have "new_client sample_lib ''/register'' \<lparr>auth_value = ''Bearer token'', auth_sensitive = True\<rparr> ''mx'' 1000
      False default_hooks_options = sample_client"
    by (simp add: new_client_def sample_client_def)
  moreover have "validate_url (lib_url sample_lib) ''/register'' False = Inr ()"
    by (simp add: sample_lib_def sample_urls_def validate_url_def)
  moreover have "transport_build (lib_url sample_lib) (proxy_all (h_reqwest sample_host))
      (build_client (h_reqwest sample_host)) t 1000 = Inr ()"
    using that by (simp add: transport_build_def Let_def sample_host_def)
  moreover obtain w' where "registered sample_client 1000 (sample_world\<lparr>w_stats := st\<rparr>) = (Inr sample_registration, w')"
    using sample_registered by blast
  then have "startup_loop sample_client 0 0 (sample_world\<lparr>w_stats := st\<rparr>) = (Inr (), w')"
    by (subst startup_loop.simps) (simp add: sample_world_def sample_client_def)
  ultimately show ?thesis
    by (simp add: with_options_def check_s_def bind_s.simps return_s_def default_hooks_options_def
        sample_world_def)
qed

lemma sample_main_registers:
  "\<exists>r st. run_main sample_host sample_args sample_outcomes sample_start = (r, st) \<and>
     Registered \<in> set (ms_events st)"
proof -
  obtain r st where m: "run_main sample_host sample_args sample_outcomes sample_start = (r, st)" by fastforce
  let ?st1 = "\<lparr>ms_events = [BoundMilter, BoundHttp], ms_world = sample_world\<lparr>w_stats := default_stats 0\<rparr>\<rparr>"
  have "args_authentication (h_header_ok sample_host) (lib_b64 (h_lib sample_host)) (h_files sample_host) sample_args =
      Inr \<lparr>auth_value = ''Bearer token'', auth_sensitive = True\<rparr>"
    by (simp add: args_authentication_def sample_args_def bearer_def auth_header_def sample_host_def
        is_ascii_whitespace_def is_ascii_control_def)
  moreover obtain t where "args_transport (h_pem_bundle sample_host) (h_pem_identity sample_host)
      (h_files sample_host) sample_args = Inr t" and
    "0 < connect_timeout t" "0 < pool_idle_timeout t" "built_in_roots t" "proxy t = ProxyEnvironment"
    by (simp add: args_transport_def sample_args_def)
  moreover from sample_with_options [OF this(2-5), of "default_stats 0"] obtain w' where
    "with_options sample_lib (h_reqwest sample_host) ''/register''
     \<lparr>auth_value = ''Bearer token'', auth_sensitive = True\<rparr> ''mx'' 1000 False t default_hooks_options
     (sample_world\<lparr>w_stats := default_stats 0\<rparr>) = (Inr sample_client, w')" by blast
  moreover have "h_lib sample_host = sample_lib" "arg_scanner sample_args = Some ''/register''"
    "args_options sample_args = default_hooks_options" "policy_timeout (args_config sample_args) = 1000"
    "arg_insecure_loopback sample_args = False" "arg_name sample_args = ''mx''"
    by (simp_all add: sample_host_def sample_args_def args_options_def args_config_def default_hooks_options_def)
  ultimately have "start_policy sample_host sample_args ?st1 =
      (Inr (Some sample_client), \<lparr>ms_events = [BoundMilter, BoundHttp, Registered], ms_world = w'\<rparr>)"
    by (simp add: start_policy_def fallible_def check_s_def bind_s.simps in_world_def emit_def modify_s_def return_s_def)
  moreover have "bind_milter sample_args sample_outcomes sample_start =
      (Inr (), sample_start\<lparr>ms_events := [BoundMilter]\<rparr>)"
    by (simp add: bind_milter_def sample_args_def attempt_Inr sample_outcomes_def sample_start_def)
  ultimately have "\<exists>t. shut_down (Some sample_client) sample_outcomes t = (r, st) \<and> Registered \<in> set (ms_events t)"
    using m
    by (auto simp: run_main_def attempt_def emit_def update_world_def state_defs bind_s.simps sample_start_def
        sample_outcomes_def sample_host_def)
  then show ?thesis using m emits_keep [OF emits_shut_down] by blast
qed

definition sample_hooks_turn :: "(bytes \<times> (bytes, nat) world) turn" where
  "sample_hooks_turn = \<lparr>stop_wins = False, idle_expired = False, read_error = None, frame_fault = None,
     ticks = [], deadline_hit = False, outside = (''id'', sample_world), write_socket = None, begun = 0,
     ended = 1\<rparr>"

end
