(* ===== verification/Raw_Reference.thy ===== *)
theory Raw_Reference
  imports Raw_Match
begin

text \<open>
  The matching of \<open>raw_replacement\<close> against a reference. The source builds an index from header
  fields to their positions, searches it with \<open>partition_point\<close>, and keeps running counts per
  name; the reference scans the original headers for each field and counts each name anew. Both
  yield the same modifications and the same errors.
\<close>

section \<open>Simulation of loops\<close>

lemma fold_r_rel:
  assumes "\<And>a b x. R a b \<Longrightarrow> x \<in> set xs \<Longrightarrow> rel_sum (=) R (f a x) (g b x)" and "R a b"
  shows "rel_sum (=) R (fold_r f a xs) (fold_r g b xs)"
  using assms
proof (induction xs arbitrary: a b)
  case (Cons x xs)
  from Cons.prems have "rel_sum (=) R (f a x) (g b x)" by simp
  then show ?case by cases (use Cons in auto)
qed simp

section \<open>Reference\<close>

definition reference_match ::
  "bool \<Rightarrow> header_list \<Rightarrow> nat set \<times> nat \<times> modification list \<Rightarrow> nat \<times> bytes \<times> bytes \<Rightarrow>
   (nat set \<times> nat \<times> modification list) result" where
  "reference_match ls hs acc field =
     (case (acc, field) of ((keep, cursor, inserted), (pos, name, value)) \<Rightarrow>
        (case Option.bind (lookup_value ls value) (\<lambda>v. first_from hs cursor (name, v)) of
           Some i \<Rightarrow> Inr (insert i keep, i + 1, inserted)
         | None \<Rightarrow>
             bind_r (as_text name) (\<lambda>name.
             bind_r (as_text value) (\<lambda>value.
               Inr (keep, cursor, inserted @ [InsertRawHeader (of_nat pos) name value])))))"

definition reference_delete ::
  "header_list \<Rightarrow> nat set \<Rightarrow> modification list \<Rightarrow> nat \<Rightarrow> modification list result" where
  "reference_delete hs keep ms i =
     (if i \<in> keep then Inr ms
      else bind_r (as_text (fst (hs ! i))) (\<lambda>name.
        Inr (ms @ [ChangeHeader (of_nat (same_before hs i + 1)) name []])))"

definition reference_diff :: "session \<Rightarrow> header_list \<Rightarrow> bytes \<Rightarrow> modification list result" where
  "reference_diff s fs new_body =
     (let hs = headers (message s) in
      bind_r (fold_r (reference_match (leading_space s) hs) ({}, 0, []) (List.enumerate 0 fs))
        (\<lambda>(keep, _, inserted).
      bind_r (fold_r (reference_delete hs keep) [] (rev [0..<length hs])) (\<lambda>deletes.
      let result = deletes @ inserted @ (if new_body \<noteq> body (message s) then [ReplaceBody new_body] else []) in
      if lim_modifications (limits s) < length result then Inl (Limit ''replacement modifications'')
      else Inr result)))"

section \<open>Equivalence\<close>

definition same_matching :: "nat \<Rightarrow> bool list \<times> nat \<times> modification list \<Rightarrow> nat set \<times> nat \<times> modification list \<Rightarrow> bool" where
  "same_matching n x y \<longleftrightarrow> fst x = map (\<lambda>i. i \<in> fst y) [0..<n] \<and> snd x = snd y"

lemma match_field_reference:
  assumes "note_originals hs = (cands, counts, occs)" and "same_matching (length hs) x y"
  shows "rel_sum (=) (same_matching (length hs)) (match_field ls cands x fld) (reference_match ls hs y fld)"
proof -
  obtain r c ins where x: "x = (r, c, ins)" by (cases x)
  obtain keep c' ins' where y: "y = (keep, c', ins')" by (cases y)
  obtain p n v where f: "fld = (p, n, v)" by (cases fld)
  have r: "r = map (\<lambda>i. i \<in> keep) [0..<length hs]" and c: "c' = c" "ins' = ins"
    using assms(2) x y by (simp_all add: same_matching_def)
  show ?thesis
  proof (cases "Option.bind (lookup_value ls v) (\<lambda>w. first_from hs c (n, w))")
    case None
    then show ?thesis
      using assms(2)
      by (cases "as_text n"; cases "as_text v")
        (auto simp: match_field_def reference_match_def Let_def candidates_lookup [OF assms(1)] x y f c same_matching_def)
  next
    case (Some i)
    then have i: "i < length hs" using first_from_Some by (fastforce simp: bind_eq_Some_conv)
    then have "r[i := True] = map (\<lambda>j. j \<in> insert i keep) [0..<length hs]"
      unfolding r by (intro nth_equalityI) (auto simp: nth_list_update)
    with Some i show ?thesis
      by (simp add: match_field_def reference_match_def Let_def candidates_lookup [OF assms(1)] x y f c r same_matching_def)
  qed
qed

lemma delete_original_reference:
  assumes "note_originals hs = (cands, counts, occs)" and "i < length hs"
  shows "delete_original hs occs (map (\<lambda>i. i \<in> keep) [0..<length hs]) ms i = reference_delete hs keep ms i"
proof -
  have "occs ! i = of_nat (same_before hs i + 1)"
    using note_originals_inv [of hs] assms by (simp add: index_inv_def add.commute)
  with assms(2) show ?thesis by (simp add: delete_original_def reference_delete_def)
qed

lemma diff_message_reference: "diff_message s fs new_body = reference_diff s fs new_body"
proof -
  let ?hs = "headers (message s)" and ?fs = "List.enumerate 0 fs"
  obtain cands counts occs where n: "note_originals ?hs = (cands, counts, occs)" by (cases "note_originals ?hs")
  let ?m = "fold_r (match_field (leading_space s) cands) (replicate (length ?hs) False, 0, []) ?fs"
  let ?r = "fold_r (reference_match (leading_space s) ?hs) ({}, 0, []) ?fs"
  have "rel_sum (=) (same_matching (length ?hs)) ?m ?r"
    by (rule fold_r_rel) (auto intro: match_field_reference [OF n] simp: same_matching_def map_replicate_const)
  then show ?thesis
  proof cases
    case (1 a b)
    then show ?thesis by (simp add: diff_message_def reference_diff_def n)
  next
    case (2 x y)
    obtain keep c ins where y: "y = (keep, c, ins)" by (cases y)
    with 2 have x: "x = (map (\<lambda>i. i \<in> keep) [0..<length ?hs], c, ins)" by (cases x) (auto simp: same_matching_def)
    have "rel_sum (=) (=) (fold_r (delete_original ?hs occs (map (\<lambda>i. i \<in> keep) [0..<length ?hs])) [] (rev [0..<length ?hs]))
        (fold_r (reference_delete ?hs keep) [] (rev [0..<length ?hs]))"
      by (rule fold_r_rel) (auto simp: delete_original_reference [OF n] sum.rel_refl)
    then have "fold_r (delete_original ?hs occs (map (\<lambda>i. i \<in> keep) [0..<length ?hs])) [] (rev [0..<length ?hs]) =
        fold_r (reference_delete ?hs keep) [] (rev [0..<length ?hs])"
      by (simp add: sum.rel_eq)
    with 2 x y show ?thesis by (simp add: diff_message_def reference_diff_def n)
  qed
qed

end
