(* ===== verification/Json_Typed.thy ===== *)
theory Json_Typed
  imports Registration Edits_Correct
begin

text \<open>
  The typing of the JSON values the client sends. In the source a value's strings are \<open>String\<close>s
  and its objects are ordered maps, by type; the model's byte strings and association lists carry
  no such guarantee. Here it is proved: every string and key of a request is valid UTF-8 and the
  keys of every object are strictly ordered.
\<close>

section \<open>UTF-8 and ASCII delimiters\<close>

lemma utf8_tail_high: "utf8_tail a bs \<Longrightarrow> b \<in> set bs \<Longrightarrow> 0x80 \<le> ord b"
  by (auto simp: utf8_tail_def utf8_second_def utf8_cont_def list_all_iff split: list.splits if_splits)

lemma utf8_char_split:
  assumes "utf8_char (s @ c # t) = Some r" and "ord c < 0x80" and "s \<noteq> []"
  obtains r' where "utf8_char s = Some r'" "r = r' @ c # t"
proof -
  obtain a q where s: "s = a # q" using assms(3) by (cases s) auto
  with assms(1) obtain n where n: "utf8_extra a = Some n" "n \<le> length (q @ c # t)"
    "utf8_tail a (take n (q @ c # t))" "r = drop n (q @ c # t)"
    by (auto split: option.splits if_splits)
  have "n \<le> length q"
  proof (rule ccontr)
    assume "\<not> n \<le> length q"
    then have "c \<in> set (take n (q @ c # t))" by (simp add: take_Cons' )
    with utf8_tail_high [OF n(3)] assms(2) show False by fastforce
  qed
  with n s show ?thesis by (intro that [of "drop n q"]) simp_all
qed

lemma utf8_valid_split: "utf8_valid (s @ c # t) \<Longrightarrow> ord c < 0x80 \<Longrightarrow> utf8_valid s \<and> utf8_valid t"
proof (induction s rule: length_induct)
  case (1 s)
  show ?case
  proof (cases "s = []")
    case True
    with 1 show ?thesis by simp
  next
    case False
    from 1(2) obtain r where r: "utf8_char (s @ c # t) = Some r" "utf8_valid r"
      by (subst (asm) utf8_valid.simps) (auto split: option.splits)
    from utf8_char_split [OF r(1) 1(3) False] obtain r' where r': "utf8_char s = Some r'" "r = r' @ c # t" .
    with 1(1) r(2) 1(3) utf8_char_length [OF r'(1)] have "utf8_valid r' \<and> utf8_valid t" by blast
    with r'(1) False show ?thesis by (subst utf8_valid.simps) simp
  qed
qed

section \<open>Well-typed values\<close>

fun json_ok :: "json \<Rightarrow> bool" where
  "json_ok (JStr s) = utf8_valid s"
| "json_ok (JArr vs) = (\<forall>v \<in> set vs. json_ok v)"
| "json_ok (JObj m) = (obj_invar m \<and> (\<forall>kv \<in> set m. utf8_valid (fst kv) \<and> json_ok (snd kv)))"
| "json_ok _ = True"

definition entries_ok :: "(bytes \<times> json) list \<Rightarrow> bool" where
  "entries_ok m \<longleftrightarrow> json_ok (JObj m)"

lemma entries_ok_Nil [simp]: "entries_ok []"
  by (simp add: entries_ok_def)

lemma set_obj_insert: "set (obj_insert k v m) \<subseteq> insert (k, v) (set m)"
  by (induction k v m rule: obj_insert.induct) auto

lemma entries_ok_insert: "entries_ok m \<Longrightarrow> utf8_valid k \<Longrightarrow> json_ok v \<Longrightarrow> entries_ok (obj_insert k v m)"
  using set_obj_insert [of k v m] by (fastforce simp: entries_ok_def obj_invar_insert)

lemma entries_ok_inserts:
  "entries_ok m \<Longrightarrow> \<forall>(k, v) \<in> set kvs. utf8_valid k \<and> json_ok v \<Longrightarrow>
   entries_ok (fold (\<lambda>(k, v). obj_insert k v) kvs m)"
  by (induction kvs arbitrary: m) (auto intro: entries_ok_insert)

lemma json_ok_jobj: "\<forall>(k, v) \<in> set kvs. utf8_valid k \<and> json_ok v \<Longrightarrow> json_ok (jobj kvs)"
  using entries_ok_inserts [of "[]"] unfolding jobj_def entries_ok_def [symmetric] by simp

lemma json_ok_jset: "json_ok v \<Longrightarrow> utf8_valid k \<Longrightarrow> json_ok x \<Longrightarrow> json_ok (jset v k x)"
  by (cases v) (simp_all add: entries_ok_insert entries_ok_def [symmetric] del: json_ok.simps(3))

lemma json_ok_opt_str: "json_ok (opt_str o') \<longleftrightarrow> (\<forall>s. o' = Some s \<longrightarrow> utf8_valid s)"
  by (auto simp: opt_str_def split: option.splits)

section \<open>The projections\<close>

lemma as_text_Inr_iff: "as_text bs = Inr t \<longleftrightarrow> t = bs \<and> utf8_valid bs"
  by (auto simp: as_text_def)

lemma opt_text_utf8: "opt_text x = Inr o' \<Longrightarrow> \<forall>t. o' = Some t \<longrightarrow> utf8_valid t"
  by (auto simp: opt_text_def result_simps as_text_Inr_iff split: option.splits)

lemma macro_text_utf8: "macro_text s n = Inr o' \<Longrightarrow> \<forall>t. o' = Some t \<longrightarrow> utf8_valid t"
  by (auto simp: macro_text_def result_simps as_text_Inr_iff split: option.splits if_splits)

lemma macro_number_ok: "macro_number s n = Inr v \<Longrightarrow> json_ok v"
  by (auto simp: macro_number_def result_simps split: option.splits)

lemma split_once_utf8:
  assumes "split_once d p = Some (k, v)" and "utf8_valid p" and "ord d < 0x80"
  shows "utf8_valid k \<and> utf8_valid v"
  using assms utf8_valid_split [of k d v] by (auto simp: split_once_Some_iff)

lemma address_parameter_ok:
  assumes "address_parameter ps p = Inr ps'" and "entries_ok ps"
  shows "entries_ok ps'"
  using assms
  by (auto simp: address_parameter_def result_simps as_text_Inr_iff intro!: entries_ok_insert
      dest: split_once_utf8 split: option.splits prod.splits)

lemma stripped_utf8:
  assumes "Option.bind (strip_prefix ''<'' s) (strip_suffix ''>'') = Some t" and "utf8_valid s"
  shows "utf8_valid t"
proof -
  from assms(1) have "s = CHR ''<'' # t @ [CHR ''>'']"
    by (auto simp: bind_eq_Some_conv strip_prefix_Some_iff strip_suffix_Some_iff)
  with assms(2) utf8_valid_split [of t "CHR ''>''" "[]"] show ?thesis by simp
qed

lemma address_json_ok:
  assumes "address_json a b = Inr v"
  shows "json_ok v"
proof -
  from assms obtain ps s where u: "utf8_valid (address a)" and
    ps: "fold_r address_parameter [] (parameters a) = Inr ps" and
    s: "s = (case Option.bind (strip_prefix ''<'' (address a)) (strip_suffix ''>'') of
      None \<Rightarrow> address a | Some t \<Rightarrow> t)" and
    v: "v = jobj [(''address'', if b \<and> s = [] then JNull else JStr s), (''parameters'', JObj ps)]"
    by (auto simp: address_json_def Let_def result_simps as_text_Inr_iff)
  have "entries_ok ps" using ps by (rule fold_r_invariant) (auto intro: address_parameter_ok)
  moreover have "utf8_valid s" using s u stripped_utf8 [OF _ u] by (auto split: option.splits)
  ultimately show ?thesis unfolding v by (intro json_ok_jobj) (simp add: entries_ok_def)
qed

lemma addresses_json_ok: "collect_r (\<lambda>r. address_json r b) rs = Inr vs \<Longrightarrow> json_ok (JArr vs)"
  using collect_r_all [of _ rs vs json_ok] address_json_ok by (metis json_ok.simps(2))

lemma project_envelope_ok: "project_envelope s stage = Inr v \<Longrightarrow> json_ok v"
  by (auto simp: project_envelope_def result_simps simp del: json_ok.simps(2) intro!: json_ok_jobj
      intro: address_json_ok addresses_json_ok split: option.splits if_splits)

lemma project_client_ok:
  assumes "project_client s cn = Inr v"
  shows "json_ok v"
proof -
  from assms obtain mac addr ehlo ptr n where
    ts: "macro_text s ''client_addr'' = Inr mac" "opt_text (conn_address cn) = Inr addr"
      "opt_text (helo s) = Inr ehlo" "macro_text s ''client_ptr'' = Inr ptr" and
    v: "v = (let client = jobj [(''ip'', opt_str (case mac of Some t \<Rightarrow> Some t | None \<Rightarrow> addr)),
             (''port'', case port cn of None \<Rightarrow> JNull | Some p \<Rightarrow> JNum (PosInt (of_nat (unat p)))),
             (''ehlo'', opt_str ehlo)];
           client1 = (case ptr of None \<Rightarrow> client | Some t \<Rightarrow> jset client ''ptr'' (JStr t)) in
         case n of JNum k \<Rightarrow> jset client1 ''activeConnections'' (JNum k) | _ \<Rightarrow> client1)"
    by (auto simp: project_client_def Let_def result_simps)
  let ?client = "jobj [(''ip'', opt_str (case mac of Some t \<Rightarrow> Some t | None \<Rightarrow> addr)),
    (''port'', case port cn of None \<Rightarrow> JNull | Some p \<Rightarrow> JNum (PosInt (of_nat (unat p)))),
    (''ehlo'', opt_str ehlo)]"
  have "json_ok ?client"
    using ts by (intro json_ok_jobj)
      (auto simp: json_ok_opt_str dest!: macro_text_utf8 opt_text_utf8 split: option.splits)
  then have "json_ok (case ptr of None \<Rightarrow> ?client | Some t \<Rightarrow> jset ?client ''ptr'' (JStr t))"
    using macro_text_utf8 [OF ts(4)] by (auto intro!: json_ok_jset split: option.split)
  then show ?thesis unfolding v Let_def by (auto intro: json_ok_jset split: json.split)
qed

lemma project_tls_ok: "project_tls s = Inr v \<Longrightarrow> json_ok v"
  by (auto simp: project_tls_def result_simps json_ok_opt_str intro!: json_ok_jobj
      dest!: macro_text_utf8 macro_number_ok split: option.splits)

lemma project_auth_ok: "project_auth s = Inr v \<Longrightarrow> json_ok v"
  by (auto simp: project_auth_def result_simps json_ok_opt_str intro!: json_ok_jobj
      dest!: macro_text_utf8 split: option.splits)

lemma project_server_ok: "project_server s = Inr v \<Longrightarrow> json_ok v"
  by (auto simp: project_server_def result_simps json_ok_opt_str intro!: json_ok_jobj
      dest!: macro_text_utf8 macro_number_ok split: if_splits)

lemma hook_name_utf8: "utf8_valid (hook_name stage)"
  by (cases stage) simp_all

lemma fold_r_each: "fold_r f a xs = Inr b \<Longrightarrow> x \<in> set xs \<Longrightarrow> \<exists>a b. f a x = Inr b"
  by (induction xs arbitrary: a) (auto simp: result_simps)

lemma project_ok:
  assumes "project b64 now s cn stage prop = Inr v" and "utf8_valid (b64 (raw_message s))" and "utf8_valid now"
  shows "json_ok v \<and> prop \<in> set OFFERED_PROPERTIES"
proof -
  have "prop \<in> set OFFERED_PROPERTIES" using assms(1) by (auto simp: project_def OFFERED_PROPERTIES_def split: if_splits)
  moreover have "json_ok v"
    using assms by (auto simp: project_def result_simps hook_name_utf8
      intro: project_envelope_ok project_client_ok project_tls_ok project_auth_ok project_server_ok
      intro!: json_ok_jobj dest!: macro_text_utf8 split: if_splits option.splits)
  ultimately show ?thesis by simp
qed

lemma offered_keys_utf8: "prop \<in> set OFFERED_PROPERTIES \<Longrightarrow> utf8_valid (tl prop)"
  by (auto simp: OFFERED_PROPERTIES_def)

lemma request_ok:
  assumes "request b64 now s stage props = Inr v" and "utf8_valid (b64 (raw_message s))" and "utf8_valid now"
  shows "json_ok v \<and> set props \<subseteq> set OFFERED_PROPERTIES"
proof -
  from assms(1) obtain cn bdy where
    bdy: "fold_r (\<lambda>bdy prop. map_r (\<lambda>v. obj_insert (tl prop) v bdy) (project b64 now s cn stage prop)) [] props
      = Inr bdy" and v: "v = JObj bdy"
    by (auto simp: request_def result_simps)
  note ok = project_ok [where ?b64.0 = b64 and s = s and now = now, OF _ assms(2,3)]
  have "entries_ok bdy" using bdy
    by (rule fold_r_invariant) (use ok offered_keys_utf8 entries_ok_insert in \<open>fastforce simp: result_simps\<close>)+
  moreover have "set props \<subseteq> set OFFERED_PROPERTIES"
    using ok fold_r_each [OF bdy] by (fastforce simp: result_simps)
  ultimately show ?thesis using v by (simp add: entries_ok_def)
qed

lemma registration_request_ok:
  assumes "utf8_valid (hc_name c)" and "utf8_valid (lib_version (hc_lib c))"
    and "rq_json (registration_request c) = Some v"
  shows "json_ok v"
proof -
  have "json_ok (JArr (map JStr (stage_names c)))" by (auto simp: stage_names_def hook_name_utf8)
  moreover have "json_ok (JArr (map JStr OFFERED_PROPERTIES))" by (simp add: OFFERED_PROPERTIES_def)
  ultimately show ?thesis
    using assms by (auto simp: registration_request_def simp del: json_ok.simps(2) intro!: json_ok_jobj)
qed

end
