(* ===== verification/Spec2Isabelle.thy ===== *)
theory Spec2Isabelle
  imports Hook_Samples Raw_Reference Json_Typed
begin



text \<open>C1: the decoder is the exact inverse of the wire grammar. A frame decodes to a command iff it is
  the printed form of that command and the command is well formed: every string field NUL
  terminated, macro pairs complete, the peer address parsed and of the announced family, no
  trailing bytes. Nothing else decodes, and no two commands share a frame.\<close>

theorem decode_exact:
  "decode f = Inr c \<longleftrightarrow> wf_command c \<and> f = command_frame c"
  by (rule decode_iff)

text \<open>C2: reading inverts writing. A frame is read iff the stream starts with what \<open>write_frame\<close>
  writes for it and it is within the reader's limit; exactly those bytes are consumed. A clean
  end of stream is reported iff no byte is left, so a truncated frame is always an error.\<close>

theorem read_frame_exact:
  "(read_frame mx r = (Inr (Some f), rest) \<longleftrightarrow>
     (\<exists>bs. write_frame f [] = (Inr (), bs) \<and> r = bs @ rest \<and> length (payload f) + 1 \<le> mx)) \<and>
   (read_frame mx r = (Inr None, rest) \<longleftrightarrow> r = [] \<and> rest = [])"
  by (auto simp: read_frame_iff read_frame_eof_iff write_frame_def split: sum.splits)



text \<open>C4: the edits mean what the response says. For a response without a replaced message and without
  emptied header values, let the MTA apply the emitted modifications in order, with per-name
  occurrences and insertion positions as the milter protocol defines them: the resulting header
  list is the one obtained by performing every \<open>set\<close>, then every \<open>add\<close>, then every \<open>delete\<close>
  operation on the original list. Sorting the edits, resolving occurrences and inserting by final
  position never changes the outcome.\<close>

theorem edits_perform_operations:
  assumes "translate sd b64d v s stage = Inr d" and "de_operations sd v = Some ops"
    and "\<not> has_raw_set ops" and "no_empty_values sd ops"
    and "length (headers (message s)) + lim_modifications (limits s) < 2 ^ 32"
  shows "apply_headers (leading_space s) (modifications d) (headers (message s)) =
    spec_headers sd (leading_space s) ops (headers (message s))"
  using assms by (rule translate_edit_effect)

theorem edits_perform_operations_witness:
  "apply_headers (leading_space sample_eom) [AddHeader ''X-MTA-Hooks'' ''scanned''] [(''Subject'', '' hi'')] =
     spec_headers sample_serde (leading_space sample_eom) scanned_ops [(''Subject'', '' hi'')]"
  using edits_perform_operations [OF sample_scanned_translation sample_serde_scanned(1)]
  by (simp add: sample_eom_message default_limits_def scanned_ops_def has_raw_set_def list_or_empty_def
      no_empty_values_def)

text \<open>C5: a replaced message is installed exactly. If a response sets \<open>/rawMessage\<close>, its decoded bytes
  are a sequence of fields with legal names, a blank line and a body, and after the MTA has applied
  all modifications its headers are those fields, in that order and with those values, and its
  body is that body, although matching headers are left untouched.\<close>

theorem replacement_installs_message:
  assumes "translate sd b64d v s stage = Inr d" and "de_operations sd v = Some ops"
    and "op \<in> set (list_or_empty (ops_set ops))" and "set_path op = ''/rawMessage''"
    and "length (headers (message s)) < 2 ^ 32" and "lim_headers (limits s) < 2 ^ 32"
  shows "\<exists>encoded raw fs new_body. set_value op = JStr encoded \<and> b64d encoded = Some raw \<and>
    is_message_of raw fs new_body \<and>
    apply_headers (leading_space s) (modifications d) (headers (message s)) =
      map (\<lambda>(n, v). (n, wire_value (leading_space s) v)) fs \<and>
    fold apply_body (modifications d) (body (message s)) = new_body"
  using assms by (rule translate_raw_effect)

theorem replacement_installs_message_witness:
  "\<exists>raw fs new_body. raw = raw_message sample_eom \<and> is_message_of raw fs new_body \<and>
     [(''Subject'', '' hi'')] = map (\<lambda>(n, v). (n, wire_value (leading_space sample_eom) v)) fs \<and> ''x'' = new_body"
  using replacement_installs_message [OF sample_echo_translation sample_serde_scanned(2),
      of "\<lparr>set_path = ''/rawMessage'', set_value = JStr (sample_b64 (raw_message sample_eom))\<rparr>"]
  by (auto simp: echo_ops_def list_or_empty_def sample_eom_message default_limits_def sample_b64_decode_def)

text \<open>C6: what an answer may contain. When \<open>complete\<close> accepts a decision, every modification was
  negotiated and serialised, edits occur only at end of message, their payload is within the
  message limit and each frame within the frame limit; the edits are sent only for Continue and
  Accept, and exactly the last frame is a verdict.\<close>

theorem complete_frames_shape:
  assumes "complete d s = (Inr out, t)"
  shows "\<exists>stage o' fss final.
    pending s = Some stage \<and> opts s = Some o' \<and>
    list_all2 (\<lambda>m fs. frames m (leading_space s) = Inr fs) (modifications d) fss \<and>
    (\<forall>m \<in> set (modifications d). actions o' AND capability m \<noteq> 0) \<and>
    (modifications d = [] \<or> stage = StEndMessage) \<and>
    frames_size (concat fss) \<le> lim_message_bytes (limits s) \<and>
    (\<forall>f \<in> set out. length (payload f) + 1 \<le> lim_frame_bytes (limits s)) \<and>
    out = (if verdict d \<in> {Continue, Accept} then concat fss else []) @ [final] \<and>
    frame.command final = verdict_opcode (verdict d) \<and>
    (\<forall>f \<in> set (butlast out). frame.command f \<in> modification_opcodes) \<and>
    frame.command final \<notin> modification_opcodes"
proof -
  from assms obtain stage o' fss final flags where
    1: "pending s = Some stage" "opts s = Some o'"
      "list_all2 (\<lambda>m fs. frames m (leading_space s) = Inr fs) (modifications d) fss"
      "list_all (\<lambda>m. actions o' AND capability m \<noteq> 0) (modifications d)"
      "modifications d = [] \<or> stage = StEndMessage"
      "frames_size (concat fss) \<le> lim_message_bytes (limits s)"
      "verdict_frame (verdict d) = Inr (final, flags)"
      "list_all (frame_fits (limits s)) (concat fss @ [final])"
      "out = (if edits_allowed (verdict d) then concat fss else []) @ [final]"
    by (rule complete_frames)
  have "\<forall>f \<in> set (concat fss). frame.command f \<in> modification_opcodes"
    using frames_all_opcodes [OF 1(3)] by blast
  moreover have "frame.command final = verdict_opcode (verdict d)"
    using 1(7) by (rule verdict_frame_opcode)
  ultimately show ?thesis
    using 1 verdict_opcode_final [of "verdict d"]
    by (intro exI [of _ stage] exI [of _ o'] exI [of _ fss] exI [of _ final])
      (auto simp: list_all_iff frame_fits_def edits_allowed_def)
qed

theorem complete_frames_shape_witness:
  "\<exists>out. fst (complete sample_decision sample_eom) = Inr out \<and>
     (\<forall>f \<in> set (butlast out). frame.command f \<in> modification_opcodes)"
proof -
  obtain out t where c: "complete sample_decision sample_eom = (Inr out, t)"
    using sample_complete by blast
  from complete_frames_shape [OF c] c show ?thesis by auto
qed

text \<open>C7: a refused decision has no effect, and there is always a way out: after a failed \<open>complete\<close>
  the session is unchanged with the callback still pending, and then every plain verdict is
  accepted and answered with its single frame.\<close>

theorem complete_atomic:
  assumes "reach session_start session_step s" and "pending s = Some st"
    and "1 \<le> lim_frame_bytes (limits s)"
    and "complete d s = (Inl e, t)" and "v \<in> {Continue, Accept, Reject, Tempfail, Discard, Shutdown}"
  shows "t = s \<and> (\<exists>t'. complete \<lparr>verdict = v, modifications = []\<rparr> t =
    (Inr [empty_frame (verdict_opcode v)], t'))"
  using complete_plain [OF session_sys.reach_inv [OF assms(1)] assms(2,3),
      of "\<lparr>verdict = v, modifications = []\<rparr>"]
    complete_error_unchanged [OF assms(4)] assms(5) by auto

theorem complete_atomic_witness:
  "\<exists>t'. complete \<lparr>verdict = Tempfail, modifications = []\<rparr> (snd (complete sample_bad_decision sample_eom)) =
     (Inr [empty_frame (CHR ''t'')], t')"
  using complete_atomic [OF sample_eom_reach sample_states(7,8)
      sample_bad_refused, of Tempfail] sample_bad_refused by simp

text \<open>C8: the client's metrics are exact. Whether an invocation succeeds, fails or is cancelled at its
  deadline while a request is on the way, the counter of hook calls has advanced by the number of
  hook requests sent, the counter of registrations by the number of registration requests sent,
  and the gauges of running operations are back at their old values.\<close>

theorem client_metrics_exact:
  assumes "client_ok c" and "world_ok c w" and "evaluate c rid w stage s = (r, w')"
  shows "\<exists>rqs. w_log w' = w_log w @ rqs \<and> (\<forall>op. op_running op w' = op_running op w) \<and>
    op_count HookOp w' = op_count HookOp w + of_nat (length (filter (counted HookOp) rqs)) \<and>
    op_count RegistrationOp w' = op_count RegistrationOp w +
      of_nat (length (filter (counted RegistrationOp) rqs)) \<and>
    op_count DeregistrationOp w' = op_count DeregistrationOp w +
      of_nat (length (filter (counted DeregistrationOp) rqs))"
proof -
  from assms(3) obtain q where i: "invoke c s stage rid w = (q, w')" by (auto simp: evaluate_def split: prod.splits)
  show ?thesis using metrics.rel_invoke [OF assms(1,2) i] by (auto simp: metered_def)
qed

theorem client_metrics_exact_witness:
  "op_running HookOp (snd (evaluate sample_client ''id'' sample_world StEndMessage sample_eom)) = 0"
proof -
  obtain r w' where e: "evaluate sample_client ''id'' sample_world StEndMessage sample_eom = (r, w')" by fastforce
  have "op_running HookOp sample_world = 0"
    by (simp add: op_running_def sample_world_def default_stats_def default_operation_stats_def)
  with client_metrics_exact [OF sample_client_ok sample_world_ok e] e show ?thesis by auto
qed

text \<open>C9: requests are well typed. Strings and objects of the source are \<open>String\<close>s and ordered maps;
  the model proves the same of its byte strings and association lists. Whatever bytes the MTA
  sent, a hook request that is built, and every registration request, consists of UTF-8 strings
  and objects with strictly ordered UTF-8 keys. Of base64, the clock's text, the client's name and
  the version only their being text is used.\<close>

theorem request_well_typed:
  assumes "utf8_valid (lib_b64 (hc_lib c) (raw_message s))"
    and "utf8_valid (lib_show_time (hc_lib c) (lib_utc (hc_lib c) (w_now w)))"
    and "utf8_valid (hc_name c)" and "utf8_valid (lib_version (hc_lib c))"
    and "session_request c s stage reg w = Inr v"
  shows "json_ok v \<and> set (reg_properties reg) \<subseteq> set OFFERED_PROPERTIES \<and>
    (\<exists>u. rq_json (registration_request c) = Some u \<and> json_ok u)"
proof -
  have "\<exists>u. rq_json (registration_request c) = Some u" by (simp add: registration_request_def)
  with registration_request_ok [OF assms(3,4)] request_ok [OF assms(5) [unfolded session_request_def] assms(1,2)]
  show ?thesis by auto
qed

theorem request_well_typed_witness:
  "\<exists>v. session_request sample_client sample_eom StEndMessage sample_registration sample_world = Inr v \<and> json_ok v"
proof -
  have p: "reg_properties sample_registration = OFFERED_PROPERTIES" by (simp add: sample_registration_def)
  obtain v where v: "session_request sample_client sample_eom StEndMessage sample_registration sample_world = Inr v"
    using sample_request by (auto simp: session_request_def p sample_client_def sample_lib_def)
  have "utf8_valid (sample_b64 (raw_message sample_eom))"
    by (rule utf8_valid_ascii) (simp add: sample_b64_def raw_message_def raw_header_def sample_eom_message leading_space_def sample_eom_sel)
  with request_well_typed [OF _ _ _ _ v] v show ?thesis
    by (simp add: sample_client_def sample_lib_def)
qed

text \<open>C10: an accepted command line is usable. If the argument rules accept a command line, then
  exactly one of scanner and pass-through is selected, the unwrap and expect calls of the
  credential code are not reached, every file mode is within 0777, the limits derived from it fit
  32 bits, and building the HTTP client can fail only inside the HTTP library or because the proxy
  is not an origin: the checks for zero timeouts and missing roots have already been made.\<close>

theorem accepted_command_line:
  assumes "parse_args cl = Inr a"
  shows "(arg_scanner a \<noteq> None \<longleftrightarrow> \<not> arg_passthrough a) \<and> scanner_stages a \<noteq> [] \<and>
    (\<forall>m. milter_unix_mode a = Some m \<longrightarrow> m \<le> 511) \<and>
    (arg_scanner a \<noteq> None \<longrightarrow> no_panic (args_authentication header_ok b64 fs a)) \<and>
    0 < lim_message_bytes (cfg_limits (args_config a)) \<and> lim_message_bytes (cfg_limits (args_config a)) < 2 ^ 32 \<and>
    (\<forall>t e. args_transport pem_bundle pem_identity fs a = Inr t \<longrightarrow>
      transport_build lib proxies build t (policy_timeout (args_config a)) = Inl e \<longrightarrow>
      (\<exists>k. e = HttpTransport k) \<or>
      (\<exists>u. scanner_proxy a = Some u \<and> \<not> proxy_origin lib u \<and>
        e = Invalid ''proxy must be an HTTP(S) origin without credentials''))"
proof -
  have ok: "args_ok a" using assms by (rule parse_args_Inr)
  then have "0 < lim_message_bytes (cfg_limits (args_config a))"
    by (simp add: args_ok_def args_config_def default_config_def default_limits_def unat_gt_0 word_gt_0)
  moreover have "arg_scanner a \<noteq> None \<longleftrightarrow> \<not> arg_passthrough a" "scanner_stages a \<noteq> []"
    "\<forall>m. milter_unix_mode a = Some m \<longrightarrow> m \<le> 511"
    using ok by (simp_all add: args_ok_def)
  ultimately show ?thesis
    using args_config_limits(1) args_authentication_no_panic [OF ok] args_transport_builds [OF ok]
    by (intro conjI allI impI) simp_all
qed

theorem accepted_command_line_witness:
  "no_panic (args_authentication (\<lambda>_. True) id (\<lambda>_. None) sample_args) \<and> scanner_stages sample_args \<noteq> []"
proof -
  have "arg_scanner sample_args \<noteq> None" by (simp add: sample_args_def)
  with accepted_command_line [OF sample_parse_args] show ?thesis by blast
qed

text \<open>C11: what an accepted registration guarantees. The id is one to 255 safe characters; the hook and
  deregistration endpoints are validated URLs of the registration origin; the properties are
  distinct, offered, and include the required ones; an expiry lies in the future; and the
  confirmed stages are exactly the configured ones when these are distinct.\<close>

theorem registration_validated:
  assumes "accept_registration c utc v = Inr reg" and "distinct (stage_names c)"
  shows "registration_ok c reg \<and> (\<forall>e. reg_expires reg = Some e \<longrightarrow> utc < e) \<and>
    (\<exists>sts. jindex (jindex (jindex v ''negotiated'') ''inbound'') ''stages'' = JArr sts \<and>
      set sts = JStr ` set (stage_names c))"
proof -
  from assms(1) have "confirm_stages (stage_names c) v = Inr ()"
    by (auto simp: accept_registration_def bind_r_Inr_iff)
  from confirm_stages_exact [OF this assms(2)] obtain sts where
    "jindex (jindex (jindex v ''negotiated'') ''inbound'') ''stages'' = JArr sts"
    "set sts = JStr ` set (stage_names c)" by blast
  with accept_registration_Inr [OF assms(1)] show ?thesis by (simp split: option.splits)
qed

theorem registration_validated_witness:
  "registration_ok sample_client sample_registration"
proof -
  have "accept_registration sample_client 0 sample_registration_value = Inr sample_registration"
    using fixture_registration [of sample_client "''token''" "''/hook''" "''/register/development''" "''now''" 0]
    by (simp add: sample_register_reply sample_same_origin sample_registration_def)
      (simp add: sample_client_def)
  from registration_validated [OF this] show ?thesis by (simp add: sample_stage_names)
qed

text \<open>C12: connection accounting. In every reachable state of the accept loop the permits handed out, the
  active gauge and the running tasks agree; concurrency never exceeds the configured maximum;
  the listener gauge is up exactly while accepting; and when \<open>serve\<close> has returned
  successfully no task is left, the gauge is zero and exactly one drain outcome was counted.\<close>

theorem listener_accounting:
  assumes "reach (serve_init cfg tr) serve_step s" and "max_connections cfg < 2 ^ 64"
  shows "permits s + running (tasks s) = max_connections cfg \<and>
    unat (active (sv_stats s)) = running (tasks s) \<and>
    unat (active (sv_stats s)) \<le> max_connections cfg \<and>
    listener (sv_stats s) = (if phase s = Accepting then listener_id tr else 0) \<and>
    (phase s = Returned (Inr ()) \<longrightarrow> active (sv_stats s) = 0 \<and> permits s = max_connections cfg \<and>
      drain_graceful (sv_stats s) + drain_forced (sv_stats s) = 1)"
proof -
  have inv: "serve_inv cfg tr s" using assms(1) by (rule serve_sys.reach_inv)
  then have p: "permits s + running (tasks s) = max_connections cfg"
    by (simp add: serve_inv_def)
  moreover have "unat (active (sv_stats s)) = running (tasks s)"
    using inv p assms(2) by (simp add: serve_inv_def unat_of_nat take_bit_nat_eq_self)
  ultimately show ?thesis using inv by (auto simp: serve_inv_def)
qed

theorem listener_accounting_witness:
  "running (tasks (accept_connection (serve_start default_config Tcp (default_stats (0 :: nat))))) = 1 \<and>
   unat (active (sv_stats (accept_connection (serve_start default_config Tcp (default_stats (0 :: nat)))))) = 1"
proof -
  let ?s = "serve_start default_config Tcp (default_stats (0 :: nat))"
  have "serve_init default_config Tcp ?s"
    by (rule serve_init.intros) (simp add: fresh_stats_def default_stats_def)
  moreover have "serve_step ?s (accept_connection ?s)"
    by (rule accept [of _ None None]) (simp_all add: serve_start_def default_config_def listener_accept_def)
  ultimately have "reach (serve_init default_config Tcp) serve_step (accept_connection ?s)"
    by (rule reach_step [OF reach_init])
  from listener_accounting [OF this] show ?thesis
    by (simp add: default_config_def accept_connection_def serve_start_def default_stats_def)
qed

text \<open>C13: no header injection. Whenever a header edit is serialised, the name is a valid field name,
  and in the value every carriage return is followed by a line feed, every line feed by a space
  or tab, and no other control character occurs; addresses, reasons and parameters carry no line
  break at all.\<close>

theorem header_edits_cannot_inject:
  assumes "frames m ls = Inr fs"
  shows "case m of
      AddHeader n v \<Rightarrow> header_name_ok n \<and> folded_only v
    | InsertHeader i n v \<Rightarrow> header_name_ok n \<and> folded_only v
    | InsertRawHeader i n v \<Rightarrow> header_name_ok n \<and> folded_only v
    | ChangeHeader k n v \<Rightarrow> 0 < k \<and> header_name_ok n \<and> folded_only v
    | ReplaceBody b \<Rightarrow> concat (map payload fs) = b \<and> (\<forall>f \<in> set fs. length (payload f) \<le> BODY_CHUNK)
    | ChangeFrom a p \<Rightarrow> a \<noteq> [] \<and> line_safe a \<and> (\<forall>q. p = Some q \<longrightarrow> line_safe q)
    | AddRecipient a p \<Rightarrow> a \<noteq> [] \<and> line_safe a \<and> (\<forall>q. p = Some q \<longrightarrow> line_safe q)
    | DeleteRecipient a \<Rightarrow> line_safe a
    | Quarantine r \<Rightarrow> line_safe r"
proof (cases m)
  case (ReplaceBody b)
  have "payload \<circ> mk_frame (CHR ''b'') = (\<lambda>x. x)" by (simp add: fun_eq_iff)
  with ReplaceBody assms show ?thesis
    using chunks_bounds [of _ BODY_CHUNK b]
    by (auto simp: chunks_concat BODY_CHUNK_def empty_frame_def split: if_splits)
qed (use assms in \<open>auto simp: frames_iffs split: if_splits\<close>)

theorem header_edits_cannot_inject_witness:
  "frames (Quarantine ''spam'') True = Inr [mk_frame (CHR ''q'') (nul_terminated [''spam''])] \<and>
   line_safe ''spam''"
proof -
  have f: "frames (Quarantine ''spam'') True = Inr [mk_frame (CHR ''q'') (nul_terminated [''spam''])]"
    by (simp add: text_frames_iff line_safe_def)
  from header_edits_cannot_inject [OF f] f show ?thesis by simp
qed

text \<open>C14: the effect of a verdict. After an accepted decision the protocol state is the one the
  stage and verdict prescribe, and the message is kept, reset, or loses exactly its last
  recipient (a rejected RCPT); the callback is answered.\<close>

theorem complete_transition:
  assumes "reach session_start session_step s" and "pending s = Some st"
    and "complete d s = (Inr out, t)"
  shows "state t = answer_state st (length (recipients (message s))) (verdict d) \<and>
    message t = answer_message st (verdict d) (message s) \<and> pending t = None"
  using complete_answer [OF session_sys.reach_inv [OF assms(1)] assms(3,2)] .

theorem complete_transition_witness:
  "\<exists>out t. complete sample_decision sample_eom = (Inr out, t) \<and> state t = Ready \<and> message t = default_message"
proof -
  obtain out t where c: "complete sample_decision sample_eom = (Inr out, t)"
    using sample_complete by blast
  from complete_transition [OF sample_eom_reach sample_states(7) c] c show ?thesis
    by (simp add: sample_decision_def answer_message_def)
qed

text \<open>C15: macro scoping. After an accepted command the macros filed under it are exactly the batch the
  MTA announced for it (none if it announced none), whatever an earlier instance of the command
  had left behind.\<close>

theorem macro_batch_scope:
  assumes "reach session_start session_step s" and "receive f s = (Inr stp, t)"
    and "decode f = Inr c" and "c \<notin> {Abort, Quit, QuitNewConnection}"
    and "\<And>o'. c \<noteq> Negotiate o'" and "\<And>m vs. c \<noteq> Macro m vs"
  shows "map_of (macros t) (frame.command f) = map_of (pending_macros s) (frame.command f)"
  using assms(2)
proof (cases rule: receive_Inr)
  case (other c')
  then have c: "c' = c" using assms(3) by simp
  have f: "f = command_frame c" using assms(3) by (simp add: decode_iff)
  have "frame.command f = CHR ''M''" if "is_mail c" using that f by (cases c) auto
  from receive_command_macros [OF other(7) session_sys.reach_inv [OF assms(1)] _ this] assms(4) c
  show ?thesis by simp
qed (use assms in auto)

theorem macro_batch_scope_witness:
  "map_of (macros sample_eom) (CHR ''E'') = None"
proof -
  have d: "decode (command_frame EndMessage) = Inr EndMessage" by (rule decode_complete) simp
  obtain stp where "receive (command_frame EndMessage) sample_body = (Inr stp, sample_eom)"
    using sample_eom_ok by (cases "receive (command_frame EndMessage) sample_body")
      (auto simp: sample_eom_def is_ok_iff)
  from macro_batch_scope [OF sample_body_reach this d] show ?thesis
    by (simp add: command_frame_opcode sample_body_eq sample_defs del: command_frame.simps)
qed

text \<open>C16: the session implements the milter command order. For a decoded frame, if the command
  automaton has no transition, \<open>receive\<close> fails with the sequence error of that state; if it
  has one, a successful \<open>receive\<close> ends in exactly the automaton's next state, and the only
  other outcome is a resource limit (or, while negotiating, a version or macro-list error).\<close>

theorem receive_follows_protocol:
  assumes "reach session_start session_step s" and "pending s = None"
    and "decode f = Inr c" and "receive f s = (r, t)"
  shows "case proto (state s) c of
      None \<Rightarrow> r = Inl (if state s = Initial then Invalid ''negotiate first''
                 else out_of_order (frame.command f) (state s))
    | Some q \<Rightarrow>
        (case r of
           Inr stp \<Rightarrow> state t = q
         | Inl e \<Rightarrow> is_limit e \<or> state s = Initial \<and>
             e \<in> {Invalid ''milter v6 required'', Invalid ''macro name''})"
proof -
  have "session_inv s" using assms(1) by (rule session_sys.reach_inv)
  from receive_refines [OF this assms(2,3)] assms(4) show ?thesis by (simp add: refines_step_def)
qed

theorem receive_follows_protocol_witness:
  "\<exists>t. receive (empty_frame (CHR ''E'')) sample_new = (Inl (Invalid ''negotiate first''), t)"
proof -
  obtain r t where r: "receive (empty_frame (CHR ''E'')) sample_new = (r, t)" by fastforce
  have "decode (empty_frame (CHR ''E'')) = Inr EndMessage"
    by (simp add: decode_iff)
  from receive_follows_protocol [OF sample_new_reach _ this r] r show ?thesis
    by (simp add: sample_new_def session_new_def request_macros_def)
qed







text \<open>C20: every connection ends. A turn of the loop that does not return consumes at least one byte of
  the peer's input, so after more turns than there are input bytes \<open>handle_connection\<close> has
  returned, for every policy and every schedule of timeouts and failures.\<close>

theorem connection_terminates:
  assumes "length input < length us"
  shows "\<exists>r c. handle_connection fl pol cfg us input st = (Some r, c)"
proof -
  have "fst (connection_loop fl pol cfg us (connection_start pol cfg input st)) \<noteq> None"
    using assms by (intro connection_loop_returns) (simp add: connection_start_def)
  then show ?thesis by (auto simp: handle_connection_def prod_eq_iff)
qed

theorem connection_terminates_witness:
  "\<exists>r c. handle_connection sample_floats sample_policy default_config [sample_turn] [] (default_stats (0 :: nat)) =
     (Some r, c)"
  by (rule connection_terminates) simp

text \<open>C21: every callback is answered. Whether the policy decides, fails, runs into its deadline or
  returns a decision the session refuses, the driver produces the frames of exactly one
  decision: the policy's own if the session accepts it, else CONTINUE or TEMPFAIL as
  configured; the session has moved on and the connection invariant holds again.\<close>

theorem callback_always_answered:
  assumes "conn_inv pol cfg c" and "pending (c_session c) = Some stage"
    and "1 \<le> lim_frame_bytes (cfg_limits cfg)" and "turn_sane pol u"
  shows "\<exists>replies c'. callback fl pol cfg u stage c = (Inr replies, c') \<and>
    complete (case policy_result pol cfg u stage (c_session c) of
        Inl e \<Rightarrow> \<lparr>verdict = (if fail_open cfg then Continue else Tempfail), modifications = []\<rparr>
      | Inr d \<Rightarrow> if is_ok (fst (complete d (c_session c))) then d
          else \<lparr>verdict = (if fail_open cfg then Continue else Tempfail), modifications = []\<rparr>)
      (c_session c) = (Inr replies, c_session c') \<and> conn_inv pol cfg c'"
  using callback_answer [OF assms(1-3) policy_result_sane [OF assms(4)], of fl]
  unfolding final_decision_def fallback_def by blast

theorem callback_always_answered_witness:
  "\<exists>replies c'. callback sample_floats sample_policy default_config sample_turn StEndMessage sample_conn =
     (Inr replies, c')"
  using callback_always_answered [of sample_policy default_config sample_conn StEndMessage sample_turn
      sample_floats] sample_conn_inv sample_turn_sane
  by (auto simp: sample_conn_def default_config_def default_limits_def)





text \<open>C24: the optimised diff equals a naive one. The source indexes the original headers by name and
  value, finds the next unused position by binary search and keeps running counts per name; a
  reference that scans the original headers from a cursor for every field and counts each name
  anew returns the same modifications in the same order, and the same errors.\<close>

theorem diff_message_equivalent:
  "diff_message s fs new_body = reference_diff s fs new_body"
  by (rule diff_message_reference)

text \<open>C25: echoing is the identity. If a response replaces the message by the very bytes the request
  carried, every header is matched, no modification is emitted and the verdict is to continue.
  The headers must have legal names and properly folded values; of base64 only the length of its
  output and that decoding inverts encoding are used.\<close>

theorem echo_changes_nothing:
  assumes "reach session_start session_step s" and "pending s = Some StEndMessage"
    and "lim_message_bytes (limits s) < 2 ^ 32" and "0 < lim_modifications (limits s)"
    and "\<forall>(n, v) \<in> set (headers (message s)). header_name_ok n \<and> folds v"
    and "de_operations sd v = Some \<lparr>ops_set =
      Some [\<lparr>set_path = ''/rawMessage'', set_value = JStr (b64 (raw_message s))\<rparr>],
      ops_add = None, ops_delete = None\<rparr>"
    and "b64d (b64 (raw_message s)) = Some (raw_message s)"
    and "length (b64 (raw_message s)) = (length (raw_message s) + 2) div 3 * 4"
  shows "translate sd b64d v s StEndMessage = Inr \<lparr>verdict = Continue, modifications = []\<rparr>"
proof -
  have inv: "session_inv s" using assms(1) by (rule session_sys.reach_inv)
  then have "state s = InBody" using assms(2) by (auto simp: session_inv_def phase_inv_def)
  from inv this assms(3-8) show ?thesis by (rule translate_echo)
qed

theorem echo_changes_nothing_witness:
  "translate sample_serde sample_b64_decode echo_response sample_eom StEndMessage =
     Inr \<lparr>verdict = Continue, modifications = []\<rparr>"
  using echo_changes_nothing [OF sample_eom_reach _ _ _ sample_echo_headers, of sample_serde echo_response
      sample_b64 sample_b64_decode]
  by (simp add: sample_serde_scanned echo_ops_def sample_eom_message default_limits_def
      sample_b64_decode_def sample_b64_length)



text \<open>C27: translation and session agree. A decision other than an SMTP reply that was translated for the
  pending callback completes it, with all actions granted by the MTA, unless some output limit is
  exceeded: it is never refused for its stage, its capabilities or the form of its frames.\<close>

theorem translated_decision_accepted:
  assumes "translate sd b64d v s stage = Inr d" and "pending s = Some stage"
    and "opts s = Some o'" and "actions o' = SUPPORTED_ACTIONS"
    and "\<And>code en msg. verdict d \<noteq> Reply code en msg"
  shows "(\<exists>out. fst (complete d s) = Inr out) \<or> (\<exists>l. fst (complete d s) = Inl (Limit l))"
  using translated_decision_limits [OF assms(1-5)]
  by (cases "complete d s"; cases "fst (complete d s)") (auto simp: limit_error_def)

theorem translated_decision_accepted_witness:
  "(\<exists>out. fst (complete \<lparr>verdict = Continue, modifications = [AddHeader ''X-MTA-Hooks'' ''scanned'']\<rparr> sample_eom) = Inr out) \<or>
   (\<exists>l. fst (complete \<lparr>verdict = Continue, modifications = [AddHeader ''X-MTA-Hooks'' ''scanned'']\<rparr> sample_eom) = Inl (Limit l))"
  using translated_decision_accepted [OF sample_scanned_translation sample_states(7) sample_eom_sel(1)]
  by (auto simp: sample_agreed_def)



text \<open>C29: a request can always be built from valid text. While a callback is pending in a reachable
  session, a request for offered properties either succeeds or fails because the envelope or a
  macro is not UTF-8; the errors for a missing connection, a missing sender or an unknown
  property cannot occur.\<close>

theorem request_fails_only_on_text:
  assumes "reach session_start session_step s" and "pending s = Some stage"
    and "set props \<subseteq> set OFFERED_PROPERTIES" and "request b64 now s stage props = Inl e"
  shows "e = Invalid ''non-UTF8 envelope or metadata''"
proof -
  have "session_inv s" using assms(1) by (rule session_sys.reach_inv)
  from request_total [OF this assms(2,3), of b64 now] assms(4) show ?thesis by (simp add: text_error_def)
qed

theorem request_fails_only_on_text_witness:
  "reach session_start session_step sample_eom \<and> pending sample_eom = Some StEndMessage \<and>
   (\<forall>b64 now. is_ok (request b64 now sample_eom StEndMessage [''/stage'']) \<or>
     request b64 now sample_eom StEndMessage [''/stage''] = Inl (Invalid ''non-UTF8 envelope or metadata''))"
proof -
  have "is_ok (request b64 now sample_eom StEndMessage [''/stage'']) \<or>
      request b64 now sample_eom StEndMessage [''/stage''] = Inl (Invalid ''non-UTF8 envelope or metadata'')" for b64 now
  proof (cases "request b64 now sample_eom StEndMessage [''/stage'']")
    case (Inl e)
    with request_fails_only_on_text [OF sample_eom_reach sample_states(7) _ Inl] show ?thesis
      by (simp add: OFFERED_PROPERTIES_def)
  qed simp
  then show ?thesis using sample_eom_reach by simp
qed

text \<open>C30: an invocation stays within its bounds, whatever the scanner answers and however long and
  with whatever effect other tasks hold the registration lock. It sends at most four requests more than the configured
  retries; every one of them, and so the credentials, goes to a validated URL with the origin of
  the registration URL; it ends no later than the policy timeout after it began; and the retry
  counter advances by at most the configured retries.\<close>

theorem invocation_bounded:
  assumes "client_ok c" and "world_ok c w" and "evaluate c rid w stage s = (r, w')"
  shows "(\<exists>rqs. w_log w' = w_log w @ rqs \<and> length rqs \<le> opt_retries (hc_options c) + 4 \<and>
      (\<forall>rq \<in> set rqs. trusted_url c (rq_url rq))) \<and>
    w_now w \<le> w_now w' \<and> w_now w' \<le> w_now w + hc_timeout c \<and>
    (\<exists>m \<le> opt_retries (hc_options c). hook_retries (w_stats w') = hook_retries (w_stats w) + of_nat m)"
proof -
  from assms(3) obtain q where "invoke c s stage rid w = (q, w')" by (auto simp: evaluate_def split: prod.splits)
  note i = assms(1,2) this
  show ?thesis
    using requests.rel_invoke [OF i] clock.rel_invoke [OF i] retry_counter.rel_invoke [OF i]
    by (simp add: sends_trusted_def within_deadline_def counts_retries_def)
qed

theorem invocation_bounded_witness:
  "w_now (snd (evaluate sample_client ''id'' sample_world StEndMessage sample_eom)) \<le> 1000"
proof -
  obtain r w' where i: "evaluate sample_client ''id'' sample_world StEndMessage sample_eom = (r, w')" by fastforce
  from invocation_bounded [OF sample_client_ok sample_world_ok i] i show ?thesis
    by (simp add: sample_client_def sample_world_def)
qed

text \<open>C31: startup ends. Creating the client with its options returns after finitely many registration
  attempts, no later than the startup window plus one request timeout; when it succeeds, the
  client is the one the arguments describe, its URL is validated, its HTTP client could be built,
  it serves at least one stage, and the cache holds a validated registration.\<close>

theorem startup_registers_or_fails:
  assumes "with_options lib rq url auth name timeout insecure transport options w = (r, w')"
    and "world_ok (new_client lib url auth name timeout insecure options) w"
  shows "w_now w' \<le> w_now w + opt_startup_wait options + timeout \<and>
    (\<forall>c. r = Inr c \<longrightarrow> c = new_client lib url auth name timeout insecure options \<and> client_ok c \<and>
      opt_stages options \<noteq> [] \<and>
      (\<exists>k. transport_build (lib_url lib) (proxy_all rq) (build_client rq) transport timeout = Inr k) \<and>
      (\<exists>reg. w_cache w' = Some reg \<and> registration_ok c reg))"
proof -
  have "w_now w' \<le> w_now w + opt_startup_wait options + timeout" using assms(1) by (rule with_options_deadline)
  moreover have "\<exists>reg. w_cache w' = Some reg \<and> registration_ok c reg" if "r = Inr c" for c
    using with_options_Inr(1,5) [OF assms(1) [unfolded that]] startup_loop_registers assms(2) by metis
  ultimately show ?thesis using with_options_Inr(1-4) assms(1) by metis
qed

theorem startup_registers_or_fails_witness:
  "\<exists>r w'. with_options sample_lib (h_reqwest sample_host) ''/register''
     \<lparr>auth_value = ''Bearer token'', auth_sensitive = True\<rparr> ''mx'' 1000 False default_transport default_hooks_options
     sample_world = (r, w') \<and> r = Inr sample_client \<and> w_now w' \<le> 1000 \<and>
     (\<exists>reg. w_cache w' = Some reg \<and> registration_ok sample_client reg)"
proof -
  obtain w' where o: "with_options sample_lib (h_reqwest sample_host) ''/register''
     \<lparr>auth_value = ''Bearer token'', auth_sensitive = True\<rparr> ''mx'' 1000 False default_transport default_hooks_options
     sample_world = (Inr sample_client, w')"
    using sample_with_options [of default_transport "w_stats sample_world"] by (auto simp: default_transport_def)
  have c: "sample_client = new_client sample_lib ''/register'' \<lparr>auth_value = ''Bearer token'', auth_sensitive = True\<rparr>
      ''mx'' 1000 False default_hooks_options"
    using o by (rule with_options_Inr)
  from startup_registers_or_fails [OF o] sample_world_ok c o show ?thesis
    by (auto simp: default_hooks_options_def sample_world_def)
qed



text \<open>C33: client and scanner work together. When the replies come from the development scanner in time,
  an invocation for a finished message registers, sends one hook request whose body the scanner
  answers with its edit, and returns the decision translated from that answer.\<close>

theorem fixture_exchange_succeeds:
  assumes "auth_value (hc_auth c) = ''Bearer '' @ token"
    and "same_origin c ''/hook'' = Inr endpoint" and "same_origin c ''/register/development'' = Inr dereg"
    and "scanner_register token now (request_headers (registration_request c))
      (the (rq_json (registration_request c))) = r"
    and "\<forall>v \<in> {snd r, scanned_response}. lib_json (hc_lib c) (show_json v) = Some v \<and>
      length (show_json v) \<le> hc_response_limit c"
    and "w_cache w = None" and "w_locks w = []"
    and "w_script w = [(t1, Inr (json_reply show_json r)), (t2, Inr (json_reply show_json (200, scanned_response)))]"
    and "t1 + t2 \<le> hc_timeout c"
    and "request (lib_b64 (hc_lib c)) (lib_show_time (hc_lib c) (lib_utc (hc_lib c) (w_now w + t1))) s
      StEndMessage OFFERED_PROPERTIES = Inr bdy"
    and "translate (lib_serde (hc_lib c)) (lib_b64_decode (hc_lib c)) scanned_response s StEndMessage = Inr d"
  shows "\<exists>w' rq. evaluate c rid w StEndMessage s = (Inr d, w') \<and>
    w_log w' = w_log w @ [registration_request c, rq] \<and> rq_json rq = Some bdy \<and>
    scanner_hook token (request_headers rq) bdy = (200, scanned_response)"
  using assms by (rule fixture_invocation)

theorem fixture_exchange_succeeds_witness:
  "\<exists>w'. evaluate sample_client ''id'' sample_world StEndMessage sample_eom =
     (Inr \<lparr>verdict = Continue, modifications = [AddHeader ''X-MTA-Hooks'' ''scanned'']\<rparr>, w')"
proof -
  obtain bdy where b: "request (lib_b64 (hc_lib sample_client)) (lib_show_time (hc_lib sample_client)
      (lib_utc (hc_lib sample_client) (w_now sample_world + 10))) sample_eom StEndMessage OFFERED_PROPERTIES = Inr bdy"
    using sample_request by (auto simp: sample_client_def sample_lib_def)
  have "translate (lib_serde (hc_lib sample_client)) (lib_b64_decode (hc_lib sample_client)) scanned_response
      sample_eom StEndMessage = Inr \<lparr>verdict = Continue, modifications = [AddHeader ''X-MTA-Hooks'' ''scanned'']\<rparr>"
    using sample_scanned_translation by (simp add: sample_client_def sample_lib_def)
  from fixture_exchange_succeeds [OF _ sample_same_origin sample_same_origin sample_register_reply _ _ _ _ _ b this,
      where show_json = sample_show and rid = "''id''" and ?t2.0 = 20]
  show ?thesis
    by (auto simp: sample_client_def sample_world_def sample_lib_def sample_show_def)
qed

text \<open>C34: the pass-through policy is transparent. Whatever the peer sends and whenever a write fails,
  the bytes put on the wire are a prefix of a sequence of negotiation and CONTINUE frames: no
  verdict but CONTINUE, no edit, no keepalive.\<close>

theorem passthrough_transparent:
  fixes us :: "'e turn list"
  assumes "stats_shape st" and "\<And>u. u \<in> set us \<Longrightarrow> turn_sane (passthrough :: 'e policy) u"
    and "1 \<le> lim_frame_bytes (cfg_limits cfg)"
    and "handle_connection fl passthrough cfg us input st = (r, c)"
  shows "\<exists>fs. prefix (c_out c) (wire fs) \<and> (\<forall>f \<in> set fs. frame.command f \<in> {CHR ''O'', CHR ''c''})"
proof -
  have "conn_ready (passthrough :: 'e policy) cfg (connection_start (passthrough :: 'e policy) cfg input st)"
    using connection_start_inv [OF assms(1), of "passthrough :: 'e policy"]
    by (simp add: conn_ready_def connection_start_def request_macros_def session_new_def)
  from passthrough_loop_output [OF this assms(2,3), of us fl r c] assms(4)
  show ?thesis by (auto simp: handle_connection_def plain_frames_def connection_start_def)
qed

theorem passthrough_transparent_witness:
  "\<exists>fs. prefix (c_out (snd (handle_connection sample_floats passthrough default_config [sample_turn] []
     (default_stats (0 :: nat))))) (wire fs) \<and> (\<forall>f \<in> set fs. frame.command f \<in> {CHR ''O'', CHR ''c''})"
proof -
  obtain r c where h: "handle_connection sample_floats passthrough default_config [sample_turn] []
      (default_stats (0 :: nat)) = (r, c)" by fastforce
  have "turn_sane (passthrough :: unit policy) u" if "u \<in> set [sample_turn]" for u
    using that by (simp add: turn_sane_def passthrough_def sample_turn_def)
  from passthrough_transparent [OF default_stats_shape this _ h] h show ?thesis
    by (auto simp: default_config_def default_limits_def)
qed



text \<open>C36: the metrics mean what they say. If the measurements of an operation are the tallies of a
  history of observations (elapsed time and outcome), then dropping one more observation with a
  known outcome makes them the tallies of the extended history, never panics, and releases the
  gauge.\<close>

theorem operation_stats_refine_history:
  assumes "measured ops = summary fadd secs z h"
    and "outcome obs \<in> insert ''success'' (set FAILURE_KINDS)"
  shows "op_drop fadd secs now obs ops =
    Inr (ops\<lparr>measured := summary fadd secs z (h @ [(now - started obs, outcome obs)]),
             op_active := op_active ops - 1\<rparr>)"
  using assms by (rule op_drop_refines)

theorem operation_stats_refine_history_witness:
  "\<exists>ops. op_drop (+) id 7 \<lparr>started = 2, outcome = ''cancelled''\<rparr> (default_operation_stats (0 :: nat)) = Inr ops \<and>
     measured ops = summary (+) id 0 [(5, ''cancelled'')]"
  using operation_stats_refine_history [of "default_operation_stats 0" "(+)" id 0 "[]"
      "\<lparr>started = 2, outcome = ''cancelled''\<rparr>" 7]
  by (simp add: default_operation_stats_def summary_Nil FAILURE_KINDS_def)

text \<open>C37: credential files. A file with one nonempty line of UTF-8 without control characters, ended by
  nothing, LF or CRLF, is read as exactly that line, spaces included; and every secret that is
  read from any file is nonempty, at most 8192 bytes and free of control characters, so that it
  cannot break out of a header.\<close>

theorem secret_file_roundtrip:
  assumes "fs path = Some \<lparr>file_regular = Some True, file_content = Some (s @ eol)\<rparr>"
    and "eol \<in> {[], [LF], [CR, LF]}" and "length (s @ eol) \<le> 8192" and "utf8_valid s"
  shows "(one_line s \<and> s \<noteq> [] \<longrightarrow> read_secret_file fs path = Inr s) \<and>
    (\<forall>t. read_secret_file fs path = Inr t \<longrightarrow> one_line t \<and> t \<noteq> [] \<and> length t \<le> 8192)"
  using read_secret_file_line [where s = s and eol = eol and fs = fs and path = path, OF assms(1)] read_secret_file_Inr assms(2-4) by blast

theorem secret_file_roundtrip_witness:
  "read_secret_file (\<lambda>_. Some \<lparr>file_regular = Some True, file_content = Some ''pass word\<newline>''\<rparr>) [] = Inr ''pass word''"
  using secret_file_roundtrip [of "\<lambda>_. Some \<lparr>file_regular = Some True, file_content = Some ''pass word\<newline>''\<rparr>" "[]"
      "''pass word''" "[LF]"]
  by (simp add: one_line_def is_ascii_control_def)


text \<open>C39: a failed keepalive is not fatal in the code. When a PROGRESS frame cannot be written while the
  policy runs, the driver treats it as a policy error and answers the callback with the
  fallback decision.\<close>

theorem failed_keepalive_not_fatal:
  assumes "conn_inv pol cfg c" and "pending (c_session c) = Some stage"
    and "1 \<le> lim_frame_bytes (cfg_limits cfg)" and "turn_sane pol u"
    and "stage \<in> set (pol_stages pol)" and "progress_interval cfg = Some i"
    and "tick_failure (ticks u) = Some e"
  shows "\<exists>c'. callback fl pol cfg u stage c =
    (Inr [empty_frame (if fail_open cfg then CHR ''c'' else CHR ''t'')], c') \<and> conn_inv pol cfg c'"
proof -
  have "policy_result pol cfg u stage (c_session c) = Inl e"
    using assms(5-7) by (simp add: policy_result_def)
  with callback_answer [OF assms(1-3) policy_result_sane [OF assms(4)], of fl]
    complete_fallback [OF assms(1-3)] show ?thesis by (auto simp: final_decision_def)
qed

theorem failed_keepalive_not_fatal_witness:
  "\<exists>c'. callback sample_floats sample_policy default_config (sample_turn\<lparr>ticks := [Some (0, Io OtherIo)]\<rparr>)
     StEndMessage sample_conn = (Inr [empty_frame (CHR ''t'')], c')"
  using failed_keepalive_not_fatal [of sample_policy default_config sample_conn StEndMessage
      "sample_turn\<lparr>ticks := [Some (0, Io OtherIo)]\<rparr>" 10000 "Io OtherIo" sample_floats] sample_conn_inv
  by (auto simp: sample_conn_def default_config_def default_limits_def turn_sane_def sample_turn_def
      sample_policy_def default_decision_def)

text \<open>C40: a header cannot be emptied. An operation that sets the value of a header to the empty string
  produces the same modifications as an operation that deletes the header, because the wire
  protocol reads an empty value as a deletion; the slots nevertheless keep counting the header.\<close>

theorem emptied_header_is_deleted:
  assumes "i < length (headers (message s))"
    and "edits_set sd s (edits_new s) path (JStr []) = Inr e1"
    and "array_index path ''/message/headers'' = Some (i, ''value'')"
    and "delete_header i (edits_new s) = Inr e2"
  shows "edits_modifications e1 s = edits_modifications e2 s \<and>
    length (header_slots e1) = length (header_slots e2) + 1"
proof -
  have "header_slots e1 = header_slots (edits_new s)" using edits_set_frame [OF assms(2)] by simp
  moreover have "length (header_slots e2) + 1 = length (header_slots (edits_new s))"
    using assms(1,4) by (auto simp: delete_header_def Let_def edits_new_def remove_at_def)
  ultimately show ?thesis using empty_set_emits_delete [OF assms] by simp
qed

theorem emptied_header_is_deleted_witness:
  "\<exists>e1 e2. edits_set sample_serde sample_eom (edits_new sample_eom) ''/message/headers/0/value'' (JStr []) = Inr e1 \<and>
     delete_header 0 (edits_new sample_eom) = Inr e2 \<and>
     edits_modifications e1 sample_eom = edits_modifications e2 sample_eom"
proof -
  have a: "array_index ''/message/headers/0/value'' ''/message/headers'' = Some (0, ''value'')"
    by (simp add: array_index_def parse_unsigned_def is_ascii_digit_def digits_value_def usize_max_def)
  obtain e1 e2 where "edits_set sample_serde sample_eom (edits_new sample_eom) ''/message/headers/0/value'' (JStr [])
      = Inr e1" "delete_header 0 (edits_new sample_eom) = Inr e2"
    by (simp add: edits_set_def a sample_eom_message delete_header_def edits_new_def Let_def)
  with emptied_header_is_deleted [OF _ this(1) a this(2)] show ?thesis by (simp add: sample_eom_message)
qed

section \<open>Further facts\<close>

text \<open>The size check that runs before a modification is serialised is sound: whenever both succeed,
  the payloads emitted never exceed the announced size.\<close>

theorem payload_bytes_bound:
  assumes "payload_bytes m ls = Inr n" and "frames m ls = Inr fs"
  shows "frames_size fs \<le> n"
  using assms frames_size_bound [OF assms(2)] by (simp add: payload_bytes_eq split: if_splits)

text \<open>The category lookup never panics: the kind of every error is one of the fixed failure
  categories, so counting a connection error or a failed operation always succeeds.\<close>

theorem error_kinds_are_categories:
  assumes "\<And>m. e \<noteq> Panic m"
  shows "(\<exists>i. kind_index (kind e) = Inr i \<and> i < length FAILURE_KINDS \<and> FAILURE_KINDS ! i = kind e) \<and>
    is_ok (connection_error e s)"
proof -
  have k: "kind e \<in> set FAILURE_KINDS" using kind_category [OF assms] by (rule in_set_butlastD)
  then have "\<exists>i. kind_index (kind e) = Inr i \<and> i < length FAILURE_KINDS \<and> FAILURE_KINDS ! i = kind e"
    by (auto simp: kind_index_iff in_set_conv_nth)
  moreover have "is_ok (connection_error e s)"
    using record_failure_total [OF k, of "connection_failures s"]
    by (auto simp: connection_error_def Let_def)
  ultimately show ?thesis by blast
qed

text \<open>Bounded cardinality. The metrics page has exactly 197 lines in every state: no peer, URL or
  message adds a line or a label. Floats print without line breaks.\<close>

theorem metrics_bounded_cardinality:
  assumes "stats_shape s" and "\<And>x. LF \<notin> set (show_f64 x)"
  shows "length (filter (\<lambda>c. c = LF) (render show_f64 s)) = 197"
  using render_line_count [OF assms(1), of show_f64] assms(2)
  by (auto simp: line_count_def filter_empty_conv)

text \<open>The histogram is well formed: bucket counts never decrease from one bound to the next and
  never exceed the total count, as the exposition format requires.\<close>

theorem histogram_cumulative:
  assumes "length h < 2 ^ 64"
  shows "sorted (buckets (summary fadd secs z h) @ [measurements.count (summary fadd secs z h)])"
  using assms by (rule summary_cumulative)

end
